(* ===== verification/OSB_Prelude.thy ===== *)
theory OSB_Prelude
  imports Main "HOL-Library.AList"
begin

text \<open>
  Shared vocabulary of the development.
  \<^item> Time: a Python \<open>timedelta\<close> or UTC \<open>datetime\<close> is an \<open>int\<close> count of microseconds, the
    resolution of the Python types; \<open>d.total_seconds() <= 0\<close> is then \<open>d \<le> 0\<close>.
  \<^item> Exceptions are values of \<open>exn\<close>; a fallible function returns \<open>exn + 'a\<close>.
  \<^item> Stateful code that may raise is a function of the monad \<open>('w, 'a) M\<close>, which keeps the
    state reached when an exception is raised, as Python does.
  \<^item> A Python \<open>dict\<close> is an association list in insertion order, with the operations
    \<open>map_of\<close>, \<open>AList.update\<close> (overwrite in place, else append) and \<open>AList.delete\<close>.
  \<^item> A Python \<open>str\<close> is a \<open>string\<close> whose characters are the code points 0 to 255.
\<close>

named_theorems monad_simps \<open>unfolding rules of the state-and-exception monad\<close>

section \<open>Time\<close>

type_synonym timedelta = int
type_synonym datetime = int

abbreviation seconds :: "int \<Rightarrow> timedelta" where
  "seconds n \<equiv> n * 1000000"

abbreviation milliseconds :: "int \<Rightarrow> timedelta" where
  "milliseconds n \<equiv> n * 1000"

section \<open>Exceptions and results\<close>

text \<open>The transport errors of httpx that the SDK tells apart; the last stands for the other subclasses of \<open>TransportError\<close>.\<close>

datatype httpx_error = ConnectError | ConnectTimeout | PoolTimeout | ReadTimeout | WriteTimeout | RemoteProtocolError | OtherTransportError

text \<open>The errors of the Docker client that the server tells apart; an API error carries its HTTP status.\<close>

datatype docker_error = ImageNotFound | DockerNotFound | DockerAPIError "nat option" | OtherDockerError

datatype exn =
    ValueError string
  | TypeError string
  | PoolEmptyException string
  | PoolAcquireFailedException string "exn option"
  | PoolStateStoreUnavailableException string "exn option"
  | PoolNotRunningException string
  | PoolDestroyedException string
  | PoolDestroyIncompleteException string "exn option"
  | HttpxError httpx_error string "exn option"
  | TimeoutError string
  | OverflowError string
  | RuntimeError string
  | NotImplementedError string
  | HTTPException nat string string
  | DockerException docker_error string
  | RequestsTimeout string
  | ApiException nat string
  | OtherException string
  | BaseExceptionOnly string

text \<open>
  \<open>except Exception\<close> catches everything but the exceptions that derive from \<open>BaseException\<close>
  alone (\<open>KeyboardInterrupt\<close>, \<open>SystemExit\<close>, \<open>CancelledError\<close>), which \<open>BaseExceptionOnly\<close>
  stands for. \<open>HTTPException\<close> carries the status and the code and message of its detail, \<open>ApiException\<close> the
  status of the Kubernetes API; \<open>RequestsTimeout\<close> is a read or connect timeout of requests. \<open>OtherException\<close> is any
  further class that injected code may raise.
\<close>

fun is_Exception :: "exn \<Rightarrow> bool" where
  "is_Exception (BaseExceptionOnly _) = False"
| "is_Exception _ = True"

fun is_destroyed_exn :: "exn \<Rightarrow> bool" where
  "is_destroyed_exn (PoolDestroyedException _) = True"
| "is_destroyed_exn _ = False"

fun is_outage_exn :: "exn \<Rightarrow> bool" where
  "is_outage_exn (PoolStateStoreUnavailableException _ _) = True"
| "is_outage_exn _ = False"

type_synonym 'a result = "exn + 'a"

definition bindE :: "'a result \<Rightarrow> ('a \<Rightarrow> 'b result) \<Rightarrow> 'b result" where
  "bindE r f = (case r of Inl e \<Rightarrow> Inl e | Inr a \<Rightarrow> f a)"

definition guardE :: "bool \<Rightarrow> exn \<Rightarrow> unit result" where
  "guardE ok e = (if ok then Inr () else Inl e)"

lemma bindE_simps [simp]:
  "bindE (Inl e) f = Inl e"
  "bindE (Inr a) f = f a"
  by (simp_all add: bindE_def)

lemma bindE_eq_Inr: "bindE r f = Inr b \<longleftrightarrow> (\<exists>a. r = Inr a \<and> f a = Inr b)"
  by (cases r) auto

lemma bindE_eq_Inl: "bindE r f = Inl e \<longleftrightarrow> r = Inl e \<or> (\<exists>a. r = Inr a \<and> f a = Inl e)"
  by (cases r) auto

lemma guardE_eq_Inr [simp]: "guardE ok e = Inr u \<longleftrightarrow> ok"
  by (simp add: guardE_def)

lemma guardE_eq_Inl [simp]: "guardE ok e = Inl e' \<longleftrightarrow> \<not> ok \<and> e' = e"
  by (auto simp: guardE_def)

lemma guardE_cases [simp]: "ok \<Longrightarrow> guardE ok e = Inr ()" "\<not> ok \<Longrightarrow> guardE ok e = Inl e"
  by (simp_all add: guardE_def)

section \<open>Stateful code that may raise\<close>

type_synonym ('w, 'a) M = "'w \<Rightarrow> 'a result \<times> 'w"

definition returnM :: "'a \<Rightarrow> ('w, 'a) M" where
  "returnM a w = (Inr a, w)"

definition raiseM :: "exn \<Rightarrow> ('w, 'a) M" where
  "raiseM e w = (Inl e, w)"

definition bindM :: "('w, 'a) M \<Rightarrow> ('a \<Rightarrow> ('w, 'b) M) \<Rightarrow> ('w, 'b) M" where
  "bindM m f w = (case m w of (Inl e, w') \<Rightarrow> (Inl e, w') | (Inr a, w') \<Rightarrow> f a w')"

definition thenM :: "('w, 'a) M \<Rightarrow> ('w, 'b) M \<Rightarrow> ('w, 'b) M" where
  "thenM m n = bindM m (\<lambda>_. n)"

definition catchM :: "('w, 'a) M \<Rightarrow> (exn \<Rightarrow> ('w, 'a) M) \<Rightarrow> ('w, 'a) M" where
  "catchM m h w = (case m w of (Inl e, w') \<Rightarrow> h e w' | (Inr a, w') \<Rightarrow> (Inr a, w'))"

text \<open>\<open>try: m finally: f\<close>: an exception of \<open>f\<close> replaces the outcome of \<open>m\<close>.\<close>

definition finallyM :: "('w, 'a) M \<Rightarrow> ('w, unit) M \<Rightarrow> ('w, 'a) M" where
  "finallyM m f w =
     (case m w of (r, w') \<Rightarrow>
        (case f w' of (Inl e, w'') \<Rightarrow> (Inl e, w'') | (Inr _, w'') \<Rightarrow> (r, w'')))"

definition getM :: "('w \<Rightarrow> 'a) \<Rightarrow> ('w, 'a) M" where
  "getM f w = (Inr (f w), w)"

definition modifyM :: "('w \<Rightarrow> 'w) \<Rightarrow> ('w, unit) M" where
  "modifyM f w = (Inr (), f w)"

definition liftE :: "'a result \<Rightarrow> ('w, 'a) M" where
  "liftE r w = (r, w)"

text \<open>\<open>try: m except Exception: h\<close>.\<close>

definition exceptM :: "('w, 'a) M \<Rightarrow> (exn \<Rightarrow> ('w, 'a) M) \<Rightarrow> ('w, 'a) M" where
  "exceptM m h = catchM m (\<lambda>e. if is_Exception e then h e else raiseM e)"

text \<open>\<open>try: m except Exception: log\<close>: the best-effort calls of the code.\<close>

definition best_effort :: "('w, 'a) M \<Rightarrow> ('w, unit) M" where
  "best_effort m = exceptM (thenM m (returnM ())) (\<lambda>_. returnM ())"

fun forM :: "'a list \<Rightarrow> ('a \<Rightarrow> ('w, unit) M) \<Rightarrow> ('w, unit) M" where
  "forM [] f = returnM ()"
| "forM (x # xs) f = thenM (f x) (forM xs f)"

lemma returnM_run [simp, monad_simps]: "returnM a w = (Inr a, w)"
  by (simp add: returnM_def)

lemma raiseM_run [simp, monad_simps]: "raiseM e w = (Inl e, w)"
  by (simp add: raiseM_def)

lemma getM_run [simp, monad_simps]: "getM f w = (Inr (f w), w)"
  by (simp add: getM_def)

lemma modifyM_run [simp, monad_simps]: "modifyM f w = (Inr (), f w)"
  by (simp add: modifyM_def)

lemma liftE_run [simp, monad_simps]: "liftE r w = (r, w)"
  by (simp add: liftE_def)

lemma bindM_run [monad_simps]:
  "bindM m f w = (case m w of (Inl e, w') \<Rightarrow> (Inl e, w') | (Inr a, w') \<Rightarrow> f a w')"
  by (simp add: bindM_def)

lemma thenM_run [monad_simps]:
  "thenM m n w = (case m w of (Inl e, w') \<Rightarrow> (Inl e, w') | (Inr a, w') \<Rightarrow> n w')"
  by (simp add: thenM_def bindM_def)

lemma catchM_run [monad_simps]:
  "catchM m h w = (case m w of (Inl e, w') \<Rightarrow> h e w' | (Inr a, w') \<Rightarrow> (Inr a, w'))"
  by (simp add: catchM_def)

lemma exceptM_run [monad_simps]:
  "exceptM m h w = (case m w of
      (Inl e, w') \<Rightarrow> if is_Exception e then h e w' else (Inl e, w')
    | (Inr a, w') \<Rightarrow> (Inr a, w'))"
  by (simp add: exceptM_def catchM_def split: prod.splits sum.splits)

lemma finallyM_run [monad_simps]:
  "finallyM m f w =
     (case m w of (r, w') \<Rightarrow>
        (case f w' of (Inl e, w'') \<Rightarrow> (Inl e, w'') | (Inr _, w'') \<Rightarrow> (r, w'')))"
  by (simp add: finallyM_def)

lemma best_effort_run [monad_simps]:
  "best_effort m w = (case m w of
      (Inl e, w') \<Rightarrow> if is_Exception e then (Inr (), w') else (Inl e, w')
    | (Inr a, w') \<Rightarrow> (Inr (), w'))"
  by (simp add: best_effort_def exceptM_run thenM_run split: prod.splits sum.splits)

lemmas result_splits = sum.splits prod.splits option.splits if_splits

text \<open>
  \<open>keeps m f\<close>: every outcome of \<open>m\<close> leaves the projection \<open>f\<close> of the state as it was. The
  frame facts of the pool's operations are instances of it, built by the rules below.
\<close>

definition keeps :: "('w, 'a) M \<Rightarrow> ('w \<Rightarrow> 'b) \<Rightarrow> bool" where
  "keeps m f \<longleftrightarrow> (\<forall>w. f (snd (m w)) = f w)"

named_theorems keeps_intros \<open>compositional frame rules\<close>

lemma keepsD: "keeps m f \<Longrightarrow> f (snd (m w)) = f w"
  by (simp add: keeps_def)

lemma keeps_run: "keeps m f \<Longrightarrow> m w = (r, w') \<Longrightarrow> f w' = f w"
  using keepsD [of m f w] by simp

lemma keeps_returnM [keeps_intros]: "keeps (returnM a) f"
  and keeps_raiseM [keeps_intros]: "keeps (raiseM e) f"
  and keeps_getM [keeps_intros]: "keeps (getM g) f"
  and keeps_liftE [keeps_intros]: "keeps (liftE r) f"
  by (simp_all add: keeps_def)

lemma keeps_modifyM [keeps_intros]: "(\<And>w. f (g w) = f w) \<Longrightarrow> keeps (modifyM g) f"
  by (simp add: keeps_def)

lemma keeps_bindM [keeps_intros]:
  assumes "keeps m f" and "\<And>a. keeps (n a) f"
  shows "keeps (bindM m n) f"
  using assms by (auto simp: keeps_def bindM_run split: prod.splits sum.splits) (metis snd_conv)+

lemma keeps_thenM [keeps_intros]: "keeps m f \<Longrightarrow> keeps n f \<Longrightarrow> keeps (thenM m n) f"
  unfolding thenM_def by (rule keeps_bindM)

lemma keeps_catchM [keeps_intros]:
  assumes "keeps m f" and "\<And>e. keeps (h e) f"
  shows "keeps (catchM m h) f"
  using assms by (auto simp: keeps_def catchM_run split: prod.splits sum.splits) (metis snd_conv)+

lemma keeps_if [keeps_intros]:
  "(b \<Longrightarrow> keeps m f) \<Longrightarrow> (\<not> b \<Longrightarrow> keeps n f) \<Longrightarrow> keeps (if b then m else n) f"
  by simp

lemma keeps_exceptM [keeps_intros]:
  "keeps m f \<Longrightarrow> (\<And>e. keeps (h e) f) \<Longrightarrow> keeps (exceptM m h) f"
  unfolding exceptM_def by (intro keeps_intros)

lemma keeps_best_effort [keeps_intros]: "keeps m f \<Longrightarrow> keeps (best_effort m) f"
  unfolding best_effort_def by (intro keeps_intros)

lemma keeps_finallyM [keeps_intros]:
  assumes "keeps m f" and "keeps n f"
  shows "keeps (finallyM m n) f"
  using assms by (auto simp: keeps_def finallyM_run split: prod.splits sum.splits) (metis snd_conv)+

lemma keeps_forM [keeps_intros]: "(\<And>x. keeps (h x) f) \<Longrightarrow> keeps (forM xs h) f"
  by (induction xs) (auto intro: keeps_intros)

text \<open>\<open>preserves m I\<close>: \<open>I\<close> is an invariant of \<open>m\<close>, on normal and on exceptional return.\<close>

definition preserves :: "('w, 'a) M \<Rightarrow> ('w \<Rightarrow> bool) \<Rightarrow> bool" where
  "preserves m I \<longleftrightarrow> (\<forall>w. I w \<longrightarrow> I (snd (m w)))"

named_theorems preserves_intros \<open>compositional invariant rules\<close>

lemma preservesD: "preserves m I \<Longrightarrow> I w \<Longrightarrow> I (snd (m w))"
  by (simp add: preserves_def)

lemma preserves_run: "preserves m I \<Longrightarrow> I w \<Longrightarrow> m w = (r, w') \<Longrightarrow> I w'"
  using preservesD [of m I w] by simp

lemma keeps_preserves: "keeps m f \<Longrightarrow> preserves m (\<lambda>w. I (f w))"
  by (simp add: keeps_def preserves_def)

lemma preserves_returnM [preserves_intros]: "preserves (returnM a) I"
  and preserves_raiseM [preserves_intros]: "preserves (raiseM e) I"
  and preserves_getM [preserves_intros]: "preserves (getM g) I"
  and preserves_liftE [preserves_intros]: "preserves (liftE r) I"
  by (simp_all add: preserves_def)

lemma preserves_modifyM [preserves_intros]: "(\<And>w. I w \<Longrightarrow> I (g w)) \<Longrightarrow> preserves (modifyM g) I"
  by (simp add: preserves_def)

lemma preserves_bindM [preserves_intros]:
  assumes "preserves m I" and "\<And>a. preserves (n a) I"
  shows "preserves (bindM m n) I"
  unfolding preserves_def
proof (intro allI impI)
  fix w assume "I w"
  with assms(1) have I: "I (snd (m w))" by (rule preservesD)
  show "I (snd (bindM m n w))"
  proof (cases "m w")
    case (Pair r w')
    with I assms(2) show ?thesis by (cases r) (auto simp: bindM_run intro: preservesD)
  qed
qed

lemma preserves_thenM [preserves_intros]: "preserves m I \<Longrightarrow> preserves n I \<Longrightarrow> preserves (thenM m n) I"
  unfolding thenM_def by (rule preserves_bindM)

lemma preserves_catchM [preserves_intros]:
  assumes "preserves m I" and "\<And>e. preserves (h e) I"
  shows "preserves (catchM m h) I"
  unfolding preserves_def
proof (intro allI impI)
  fix w assume "I w"
  with assms(1) have I: "I (snd (m w))" by (rule preservesD)
  show "I (snd (catchM m h w))"
  proof (cases "m w")
    case (Pair r w')
    with I assms(2) show ?thesis by (cases r) (auto simp: catchM_run intro: preservesD)
  qed
qed

lemma preserves_if [preserves_intros]:
  "(b \<Longrightarrow> preserves m I) \<Longrightarrow> (\<not> b \<Longrightarrow> preserves n I) \<Longrightarrow> preserves (if b then m else n) I"
  by simp

lemma preserves_exceptM [preserves_intros]:
  "preserves m I \<Longrightarrow> (\<And>e. preserves (h e) I) \<Longrightarrow> preserves (exceptM m h) I"
  unfolding exceptM_def by (intro preserves_intros)

lemma preserves_best_effort [preserves_intros]: "preserves m I \<Longrightarrow> preserves (best_effort m) I"
  unfolding best_effort_def by (intro preserves_intros)

lemma preserves_forM [preserves_intros]: "(\<And>x. preserves (h x) I) \<Longrightarrow> preserves (forM xs h) I"
  by (induction xs) (auto intro: preserves_intros)

section \<open>Dictionaries in insertion order\<close>

lemma map_of_delete [simp]: "map_of (AList.delete k ps) = (map_of ps)(k := None)"
  by (rule delete_conv')

lemma map_of_update [simp]: "map_of (AList.update k v ps) = (map_of ps)(k \<mapsto> v)"
  by (rule update_conv')

lemma dom_map_of: "dom (map_of ps) = fst ` set ps"
  by (rule dom_map_of_conv_image_fst)

lemma map_of_filter_val:
  "distinct (map fst ps) \<Longrightarrow>
   map_of (filter (\<lambda>(k, v). P k v) ps) k =
     (case map_of ps k of None \<Rightarrow> None | Some v \<Rightarrow> if P k v then Some v else None)"
  by (induction ps) (auto simp: map_of_eq_None_iff image_iff split: option.splits)

lemma distinct_fst_filter: "distinct (map fst ps) \<Longrightarrow> distinct (map fst (filter P ps))"
  by (rule distinct_map_filter)

section \<open>Python strings\<close>

definition py_isspace :: "char \<Rightarrow> bool" where
  "py_isspace c \<longleftrightarrow>
     (let n = of_char c :: nat in
        (9 \<le> n \<and> n \<le> 13) \<or> (28 \<le> n \<and> n \<le> 32) \<or> n = 133 \<or> n = 160)"

definition py_lstrip :: "string \<Rightarrow> string" where
  "py_lstrip s = dropWhile py_isspace s"

definition py_strip :: "string \<Rightarrow> string" where
  "py_strip s = rev (dropWhile py_isspace (rev (py_lstrip s)))"

text \<open>\<open>not s or not s.strip()\<close>, the blank test used throughout the SDK.\<close>

definition is_blank :: "string \<Rightarrow> bool" where
  "is_blank s \<longleftrightarrow> s = [] \<or> py_strip s = []"

lemma is_blank_iff: "is_blank s \<longleftrightarrow> (\<forall>c\<in>set s. py_isspace c)"
  by (auto simp: is_blank_def py_strip_def py_lstrip_def dropWhile_eq_Nil_conv
      dest: set_dropWhileD) (metis Un_iff set_append takeWhile_dropWhile_id set_takeWhileD)

fun digits_of_nat :: "nat \<Rightarrow> string" where
  "digits_of_nat n =
     (if n < 10 then [char_of (48 + n)] else digits_of_nat (n div 10) @ [char_of (48 + n mod 10)])"

declare digits_of_nat.simps [simp del]

definition str_of_int :: "int \<Rightarrow> string" where
  "str_of_int i = (if i < 0 then ''-'' @ digits_of_nat (nat (- i)) else digits_of_nat (nat i))"

end
