(* ===== verification/Py_Float.thy ===== *)
theory Py_Float
  imports Complex_Main OSB_Prelude
begin

text \<open>
  Python floats where the SDK computes with them: \<open>timedelta.total_seconds()\<close>, the product
  \<open>max_idle * 0.2\<close>, and \<open>timedelta(seconds=x)\<close>. A double is the rational number it denotes;
  \<open>fl\<close> rounds a rational to the nearest double with 53 bits of precision, ties to even.
  The quantities of the SDK (seconds between a microsecond and some centuries) are far from
  the exponent limits, so overflow and subnormal numbers are not modelled.
\<close>

section \<open>Rounding to 53 bits\<close>

fun bit_length :: "nat \<Rightarrow> nat" where
  "bit_length n = (if n = 0 then 0 else Suc (bit_length (n div 2)))"

declare bit_length.simps [simp del]

definition ilog2 :: "rat \<Rightarrow> int" where
  "ilog2 x =
     (case quotient_of x of (n, d) \<Rightarrow>
        let k = int (bit_length (nat n)) - int (bit_length (nat d))
        in if 2 powi k \<le> x then k else k - 1)"

definition round_half_even :: "rat \<Rightarrow> int" where
  "round_half_even x =
     (let f = \<lfloor>x\<rfloor>; d = x - of_int f
      in if d < 1 / 2 then f else if 1 / 2 < d then f + 1 else if even f then f else f + 1)"

definition fl_pos :: "rat \<Rightarrow> rat" where
  "fl_pos x = (let u = 2 powi (ilog2 x - 52) in of_int (round_half_even (x / u)) * u)"

definition fl :: "rat \<Rightarrow> rat" where
  "fl x = (if x = 0 then 0 else if x < 0 then - fl_pos (- x) else fl_pos x)"

lemma bit_length_bounds: "0 < n \<Longrightarrow> 2 ^ (bit_length n - 1) \<le> n \<and> n < 2 ^ bit_length n \<and> 0 < bit_length n"
proof (induction n rule: bit_length.induct)
  case (1 n)
  show ?case
  proof (cases "n div 2 = 0")
    case True
    with "1.prems" have "n = 1" by (simp add: div_eq_0_iff)
    then show ?thesis by (simp add: bit_length.simps)
  next
    case False
    let ?b = "bit_length (n div 2)"
    from False "1.prems" "1.IH" have IH: "2 ^ (?b - 1) \<le> n div 2" "n div 2 < 2 ^ ?b" "0 < ?b"
      by auto
    have bl: "bit_length n = Suc ?b" using "1.prems" by (simp add: bit_length.simps [of n])
    from IH(3) obtain c where c: "?b = Suc c" by (cases ?b) auto
    from IH c have "2 ^ ?b \<le> n" "n < 2 * 2 ^ ?b" by auto
    with bl show ?thesis by simp
  qed
qed

lemma bit_length_rat:
  assumes "0 < n"
  shows "(2::rat) ^ bit_length (nat n) \<le> 2 * of_int n"
    and "rat_of_int n < 2 ^ bit_length (nat n)"
proof -
  from assms have b: "2 ^ (bit_length (nat n) - 1) \<le> nat n" "nat n < 2 ^ bit_length (nat n)"
      "0 < bit_length (nat n)"
    using bit_length_bounds [of "nat n"] by auto
  from b(3) obtain c where c: "bit_length (nat n) = Suc c"
    by (cases "bit_length (nat n)") auto
  from b(1) assms have "2 ^ c \<le> n" unfolding c by simp
  then have "rat_of_int (2 ^ c) \<le> of_int n" by (simp only: of_int_le_iff)
  then show "(2::rat) ^ bit_length (nat n) \<le> 2 * of_int n" unfolding c by simp
  from b(2) assms have "n < 2 ^ bit_length (nat n)" by (simp add: nat_less_iff)
  then have "rat_of_int n < of_int (2 ^ bit_length (nat n))" by (simp only: of_int_less_iff)
  then show "rat_of_int n < 2 ^ bit_length (nat n)" by simp
qed

lemma ilog2_bounds:
  assumes "0 < x"
  shows "2 powi (ilog2 x) \<le> x" and "x < 2 powi (ilog2 x + 1)"
proof -
  obtain n d where q: "quotient_of x = (n, d)" by (cases "quotient_of x") auto
  then have d: "0 < d" and x: "x = of_int n / of_int d"
    using quotient_of_denom_pos quotient_of_div by blast+
  with assms have n: "0 < n" by (simp add: zero_less_divide_iff)
  define a b where "a = bit_length (nat n)" and "b = bit_length (nat d)"
  have N: "(2::rat) ^ a \<le> 2 * of_int n" "rat_of_int n < 2 ^ a"
    using bit_length_rat [OF n] by (simp_all add: a_def)
  have D: "(2::rat) ^ b \<le> 2 * of_int d" "rat_of_int d < 2 ^ b"
    using bit_length_rat [OF d] by (simp_all add: b_def)
  have k: "(2::rat) powi (int a - int b) = 2 ^ a / 2 ^ b"
    by (simp add: power_int_diff)
  have pos: "0 < rat_of_int d" "0 < rat_of_int n" "(0::rat) < 2 ^ b" using d n by simp_all
  have "2 ^ a * rat_of_int d \<le> 2 * of_int n * 2 ^ b"
    using mult_mono [OF N(1) less_imp_le [OF D(2)]] pos by simp
  then have lo: "2 powi (int a - int b) / 2 \<le> x"
    unfolding k x using pos by (simp add: field_simps)
  have "rat_of_int n * 2 ^ b < 2 ^ a * (2 * rat_of_int d)"
    using mult_less_le_imp_less [OF N(2) D(1)] pos by simp
  then have hi: "x < 2 * 2 powi (int a - int b)"
    unfolding k x using pos by (simp add: field_simps)
  have half: "(2::rat) powi (z - 1) = 2 powi z / 2" and dbl: "(2::rat) powi (z + 1) = 2 * 2 powi z" for z
    by (simp_all add: power_int_diff power_int_add)
  show "2 powi (ilog2 x) \<le> x" and "x < 2 powi (ilog2 x + 1)"
    using lo hi by (auto simp: ilog2_def q Let_def half dbl simp flip: a_def b_def)
qed

lemma round_half_even_int [simp]: "round_half_even (of_int n) = n"
  by (simp add: round_half_even_def)

lemma round_half_even_mono: "x \<le> y \<Longrightarrow> round_half_even x \<le> round_half_even y"
proof -
  assume le: "x \<le> y"
  then have "\<lfloor>x\<rfloor> \<le> \<lfloor>y\<rfloor>" by (rule floor_mono)
  then consider "\<lfloor>x\<rfloor> = \<lfloor>y\<rfloor>" | "\<lfloor>x\<rfloor> + 1 \<le> \<lfloor>y\<rfloor>" by linarith
  then show ?thesis
  proof cases
    case 1
    with le show ?thesis by (auto simp: round_half_even_def Let_def)
  next
    case 2
    have "round_half_even x \<le> \<lfloor>x\<rfloor> + 1" and "\<lfloor>y\<rfloor> \<le> round_half_even y"
      by (auto simp: round_half_even_def Let_def)
    with 2 show ?thesis by linarith
  qed
qed

lemma round_half_even_error: "\<bar>of_int (round_half_even x) - x\<bar> \<le> 1 / 2"
proof -
  have "of_int \<lfloor>x\<rfloor> \<le> x" and "x < of_int \<lfloor>x\<rfloor> + 1"
    using floor_correct [of x] by simp_all
  then show ?thesis by (auto simp: round_half_even_def Let_def abs_le_iff)
qed

lemma powi_pos [simp]: "(0::rat) < 2 powi z"
  by simp

lemma fl_pos_error:
  assumes "0 < x"
  shows "\<bar>fl_pos x - x\<bar> \<le> x / 2 ^ 53"
proof -
  define u :: rat where "u = 2 powi (ilog2 x - 52)"
  have u: "0 < u" by (simp add: u_def)
  have "u * 2 ^ 52 = 2 powi (ilog2 x)"
    using power_int_add [of "2::rat" "ilog2 x - 52" 52] by (simp add: u_def)
  with ilog2_bounds(1) [OF assms] have ux: "u * 2 ^ 52 \<le> x" by simp
  have "fl_pos x - x = (of_int (round_half_even (x / u)) - x / u) * u"
    using u by (simp add: fl_pos_def Let_def algebra_simps flip: u_def)
  then have "\<bar>fl_pos x - x\<bar> = \<bar>of_int (round_half_even (x / u)) - x / u\<bar> * u"
    using u by (simp add: abs_mult)
  also have "\<dots> \<le> 1 / 2 * u"
    using round_half_even_error [of "x / u"] u by (intro mult_right_mono) simp_all
  also have "\<dots> \<le> x / 2 ^ 53" using ux by simp
  finally show ?thesis .
qed

lemma fl_pos_exact:
  assumes "0 < m" and "m < 2 ^ 53"
  shows "fl_pos (of_int m * 2 powi e) = of_int m * 2 powi e"
proof -
  define x :: rat where "x = of_int m * 2 powi e"
  have x: "0 < x" using assms by (simp add: x_def)
  have "ilog2 x \<le> e + 52"
  proof (rule ccontr)
    assume "\<not> ilog2 x \<le> e + 52"
    then have "(2::rat) powi (e + 53) \<le> 2 powi (ilog2 x)" by (intro power_int_increasing) auto
    also have "\<dots> \<le> x" by (rule ilog2_bounds(1) [OF x])
    also have "x < 2 ^ 53 * 2 powi e"
      using assms(2) of_int_less_iff [of m "2 ^ 53", where 'a = rat] by (simp add: x_def)
    also have "\<dots> = 2 powi (e + 53)" by (simp add: power_int_add)
    finally show False by simp
  qed
  then obtain k :: nat where "e - (ilog2 x - 52) = int k"
    using nonneg_int_cases [of "e - (ilog2 x - 52)"] by auto
  then have "ilog2 x - 52 + int k = e" by linarith
  then have "(2::rat) powi (ilog2 x - 52 + int k) = 2 powi e" by (rule arg_cong)
  then have k: "(2::rat) powi e = 2 ^ k * 2 powi (ilog2 x - 52)"
    by (simp add: power_int_add mult.commute)
  then have xk: "x = of_int (m * 2 ^ k) * 2 powi (ilog2 x - 52)"
    by (simp add: x_def)
  then have "x / 2 powi (ilog2 x - 52) = of_int (m * 2 ^ k)"
    by (metis nonzero_mult_div_cancel_right powi_pos less_irrefl)
  then have "fl_pos x = of_int (m * 2 ^ k) * 2 powi (ilog2 x - 52)"
    unfolding fl_pos_def Let_def by (simp only: round_half_even_int)
  also have "\<dots> = x" by (rule xk [symmetric])
  finally show ?thesis by (simp add: x_def)
qed

lemma fl_pos_between:
  assumes "0 < x"
  shows "2 powi (ilog2 x) \<le> fl_pos x" and "fl_pos x \<le> 2 powi (ilog2 x + 1)"
proof -
  define u :: rat where "u = 2 powi (ilog2 x - 52)"
  have u: "0 < u" by (simp add: u_def)
  have lo: "2 powi (ilog2 x) = of_int (2 ^ 52) * u"
    using power_int_add [of "2::rat" "ilog2 x - 52" 52] by (simp add: u_def)
  have hi: "2 powi (ilog2 x + 1) = of_int (2 ^ 53) * u"
    using power_int_add [of "2::rat" "ilog2 x - 52" 53] by (simp add: u_def add.commute mult.commute)
  have "of_int (2 ^ 52) \<le> x / u" and "x / u \<le> of_int (2 ^ 53)"
    using ilog2_bounds [OF assms] u unfolding lo hi by (simp_all add: field_simps)
  then have "2 ^ 52 \<le> round_half_even (x / u)" and "round_half_even (x / u) \<le> 2 ^ 53"
    using round_half_even_mono round_half_even_int by metis+
  then have "rat_of_int (2 ^ 52) \<le> of_int (round_half_even (x / u))"
    and "rat_of_int (round_half_even (x / u)) \<le> of_int (2 ^ 53)"
    by (simp_all only: of_int_le_iff)
  then show "2 powi (ilog2 x) \<le> fl_pos x" and "fl_pos x \<le> 2 powi (ilog2 x + 1)"
    unfolding lo hi using u by (simp_all add: fl_pos_def Let_def flip: u_def)
qed

lemma fl_pos_mono:
  assumes "0 < x" and "x \<le> y"
  shows "fl_pos x \<le> fl_pos y"
proof -
  have y: "0 < y" using assms by simp
  have "(2::rat) powi (ilog2 x) < 2 powi (ilog2 y + 1)"
    using ilog2_bounds [OF assms(1)] ilog2_bounds [OF y] assms(2) by linarith
  then have "ilog2 x < ilog2 y + 1"
    using power_int_increasing [of "ilog2 y + 1" "ilog2 x" "2::rat"] by linarith
  then consider "ilog2 x = ilog2 y" | "ilog2 x + 1 \<le> ilog2 y" by linarith
  then show ?thesis
  proof cases
    case 1
    have "x / 2 powi (ilog2 y - 52) \<le> y / 2 powi (ilog2 y - 52)"
      using assms(2) by (simp add: divide_right_mono)
    with 1 show ?thesis
      by (simp add: fl_pos_def Let_def round_half_even_mono mult_right_mono)
  next
    case 2
    have "fl_pos x \<le> 2 powi (ilog2 x + 1)" by (rule fl_pos_between [OF assms(1)])
    also have "\<dots> \<le> 2 powi (ilog2 y)" using 2 by (intro power_int_increasing) auto
    also have "\<dots> \<le> fl_pos y" by (rule fl_pos_between [OF y])
    finally show ?thesis .
  qed
qed

lemma fl_nonneg: "0 \<le> x \<Longrightarrow> 0 \<le> fl x"
  using fl_pos_between(1) [of x] by (auto simp: fl_def less_le intro: order_trans [rotated])

lemma fl_mono_nonneg: "0 \<le> x \<Longrightarrow> x \<le> y \<Longrightarrow> fl x \<le> fl y"
  using fl_pos_mono [of x y] fl_nonneg [of y] by (auto simp: fl_def)

lemma fl_of_pos: "0 < x \<Longrightarrow> fl x = fl_pos x"
  by (simp add: fl_def)

lemma fl_exact:
  assumes "0 \<le> m" and "m < 2 ^ 53"
  shows "fl (of_int m * 2 powi e) = of_int m * 2 powi e"
proof (cases "m = 0")
  case False
  with assms have "0 < m" by simp
  then have "(0::rat) < of_int m * 2 powi e" by simp
  with fl_pos_exact [OF \<open>0 < m\<close> assms(2)] show ?thesis by (simp only: fl_of_pos)
qed (simp add: fl_def)

lemma fl_int: "0 \<le> m \<Longrightarrow> m < 2 ^ 53 \<Longrightarrow> fl (of_int m) = of_int m"
  using fl_exact [of m 0] by simp

lemma fl_error: "0 \<le> x \<Longrightarrow> \<bar>fl x - x\<bar> \<le> x / 2 ^ 53"
  using fl_pos_error [of x] by (auto simp: fl_def)

lemma fl_absorb:
  assumes "0 < k" and "k < 2 ^ 52" and "of_int k \<le> x" and "x \<le> of_int k * (1 + 1 / 2 ^ 54)"
  shows "fl x = of_int k"
proof -
  have x: "0 < x" using assms(1,3) by (metis less_le_trans of_int_0_less_iff)
  define e where "e = ilog2 x"
  define u :: rat where "u = 2 powi (e - 52)"
  have u: "0 < u" by (simp add: u_def)
  have top: "2 powi (e + 1) = u * 2 ^ 53"
    using power_int_add [of "2::rat" "e - 52" 53] by (simp add: u_def add.commute)
  have "2 powi e \<le> x" using ilog2_bounds(1) [OF x] by (simp add: e_def)
  have kx: "of_int k < u * 2 ^ 53"
    using assms(3) ilog2_bounds(2) [OF x] top by (simp add: e_def)
  have "(2::rat) powi e < 2 powi 53"
  proof -
    have "rat_of_int k < of_int (2 ^ 52)" using assms(2) by (simp only: of_int_less_iff)
    then have "x < 2 ^ 53" using assms(4) by simp
    with \<open>2 powi e \<le> x\<close> show ?thesis by simp
  qed
  then have "e < 53" using power_int_increasing [of 53 e "2::rat"] by linarith
  then obtain j :: nat where j: "52 - e = int j"
    using nonneg_int_cases [of "52 - e"] by auto
  from j have "e - 52 + int j = 0" by linarith
  then have uj: "u * 2 ^ j = 1"
    using power_int_add [of "2::rat" "e - 52" "int j"] by (simp add: u_def)
  then have ku: "of_int k / u = of_int (k * 2 ^ j)"
    using u by (simp add: field_simps)
  have lo: "of_int (k * 2 ^ j) \<le> x / u"
    unfolding ku [symmetric] using assms(3) u by (simp add: divide_right_mono)
  have "x / u \<le> of_int k / u + of_int k / u / 2 ^ 54"
    using assms(4) u by (simp add: field_simps)
  also have "of_int k / u / 2 ^ 54 < 1 / 2" using kx u by (simp add: field_simps)
  finally have hi: "x / u - of_int (k * 2 ^ j) < 1 / 2" unfolding ku by linarith
  have "\<lfloor>x / u\<rfloor> = k * 2 ^ j" using lo hi by (intro floor_unique) linarith+
  with hi have "round_half_even (x / u) = k * 2 ^ j" by (simp add: round_half_even_def)
  then have "fl x = of_int (k * 2 ^ j) * u"
    using x by (simp add: fl_of_pos fl_pos_def Let_def u_def e_def)
  also have "\<dots> = of_int k" using uj by (simp add: mult.assoc mult.commute [of u])
  finally show ?thesis .
qed

section \<open>Conversions of the datetime library\<close>

text \<open>
  \<open>total_seconds()\<close> divides the microseconds by \<open>10**6\<close>; \<open>int(x)\<close> truncates towards zero;
  \<open>timedelta(seconds=x)\<close> keeps the whole seconds and rounds the fraction to microseconds.
\<close>

definition total_seconds :: "timedelta \<Rightarrow> rat" where
  "total_seconds d = fl (of_int d / 1000000)"

definition py_int :: "rat \<Rightarrow> int" where
  "py_int x = (if x < 0 then - \<lfloor>- x\<rfloor> else \<lfloor>x\<rfloor>)"

definition timedelta_seconds :: "rat \<Rightarrow> timedelta" where
  "timedelta_seconds x =
     (let whole = py_int x; frac = x - of_int whole
      in seconds whole + round_half_even (fl (frac * 1000000)))"

lemma total_seconds_whole: "0 \<le> n \<Longrightarrow> n < 2 ^ 53 \<Longrightarrow> total_seconds (seconds n) = of_int n"
  by (simp add: total_seconds_def fl_int)

lemma total_seconds_nonneg: "0 \<le> d \<Longrightarrow> 0 \<le> total_seconds d"
  by (simp add: total_seconds_def fl_nonneg)

lemma timedelta_seconds_int: "timedelta_seconds (of_int n) = seconds n"
  using floor_of_int [of n] floor_of_int [of "- n"]
  by (simp add: timedelta_seconds_def py_int_def Let_def fl_def round_half_even_def flip: of_int_minus)

lemma total_seconds_mono: "0 \<le> d \<Longrightarrow> d \<le> e \<Longrightarrow> total_seconds d \<le> total_seconds e"
  by (simp add: total_seconds_def fl_mono_nonneg divide_right_mono)

lemma py_int_nonneg: "0 \<le> x \<Longrightarrow> py_int x = \<lfloor>x\<rfloor>"
  by (simp add: py_int_def)

lemma frac_micros:
  assumes "0 \<le> f" and "f < 1"
  shows "0 \<le> round_half_even (fl (f * 1000000))" and "round_half_even (fl (f * 1000000)) \<le> 1000000"
proof -
  have "fl 0 \<le> fl (f * 1000000)" and "fl (f * 1000000) \<le> fl (of_int 1000000)"
    using assms by (auto intro!: fl_mono_nonneg)
  then have "of_int 0 \<le> fl (f * 1000000)" and "fl (f * 1000000) \<le> of_int 1000000"
    using fl_int [of 1000000] by (simp_all add: fl_def [of 0])
  then show "0 \<le> round_half_even (fl (f * 1000000))" and "round_half_even (fl (f * 1000000)) \<le> 1000000"
    using round_half_even_mono round_half_even_int by (metis, metis)
qed

lemma timedelta_seconds_mono:
  assumes "0 \<le> x" and "x \<le> y"
  shows "timedelta_seconds x \<le> timedelta_seconds y"
proof -
  define f g where "f = x - of_int \<lfloor>x\<rfloor>" and "g = y - of_int \<lfloor>y\<rfloor>"
  have fg: "0 \<le> f" "f < 1" "0 \<le> g" "g < 1" by (simp_all add: f_def g_def) linarith+
  have eq: "timedelta_seconds x = seconds \<lfloor>x\<rfloor> + round_half_even (fl (f * 1000000))"
    "timedelta_seconds y = seconds \<lfloor>y\<rfloor> + round_half_even (fl (g * 1000000))"
    using assms by (simp_all add: timedelta_seconds_def py_int_nonneg Let_def f_def g_def)
  show ?thesis
  proof (cases "\<lfloor>x\<rfloor> = \<lfloor>y\<rfloor>")
    case True
    then have "f * 1000000 \<le> g * 1000000" using assms(2) by (simp add: f_def g_def)
    with fg True show ?thesis unfolding eq by (auto intro!: round_half_even_mono fl_mono_nonneg)
  next
    case False
    then have "\<lfloor>x\<rfloor> + 1 \<le> \<lfloor>y\<rfloor>" using floor_mono [OF assms(2)] by linarith
    then show ?thesis
      unfolding eq using frac_micros [OF fg(1,2)] frac_micros [OF fg(3,4)] by (simp add: algebra_simps)
  qed
qed

lemma timedelta_seconds_nonneg: "0 \<le> x \<Longrightarrow> 0 \<le> timedelta_seconds x"
  using timedelta_seconds_mono [of 0 x] timedelta_seconds_int [of 0] by simp

text \<open>\<open>timedelta(seconds=d.total_seconds()) == d\<close> for durations below some seventy years.\<close>

lemma timedelta_roundtrip:
  assumes "0 \<le> d" and "d \<le> 2 ^ 51"
  shows "timedelta_seconds (total_seconds d) = d"
proof -
  define x where "x = total_seconds d"
  define f where "f = x - of_int \<lfloor>x\<rfloor>"
  have x: "0 \<le> x" using assms(1) by (simp add: x_def total_seconds_nonneg)
  have f: "0 \<le> f" "f < 1" by (simp_all add: f_def) linarith
  have "\<bar>x - of_int d / 1000000\<bar> \<le> of_int d / 1000000 / 2 ^ 53"
    unfolding x_def total_seconds_def using assms(1) by (intro fl_error) simp
  moreover have "(of_int d :: rat) \<le> 2 ^ 51" using assms(2) by (metis of_int_le_iff of_int_numeral of_int_power)
  ultimately have 1: "\<bar>x * 1000000 - of_int d\<bar> \<le> 1 / 4" by (simp add: abs_le_iff field_simps)
  have "\<bar>fl (f * 1000000) - f * 1000000\<bar> \<le> f * 1000000 / 2 ^ 53" using f by (intro fl_error) simp
  with f have 2: "\<bar>fl (f * 1000000) - f * 1000000\<bar> < 1 / 8" by (simp add: abs_less_iff field_simps)
  have 3: "\<bar>of_int (round_half_even (fl (f * 1000000))) - fl (f * 1000000)\<bar> \<le> 1 / 2"
    by (rule round_half_even_error)
  have "f * 1000000 = x * 1000000 - of_int (seconds \<lfloor>x\<rfloor>)" by (simp add: f_def algebra_simps)
  with 1 2 3 have "\<bar>of_int (round_half_even (fl (f * 1000000)) - (d - seconds \<lfloor>x\<rfloor>)) :: rat\<bar> < 1"
    unfolding of_int_diff by linarith
  then have "\<bar>round_half_even (fl (f * 1000000)) - (d - seconds \<lfloor>x\<rfloor>)\<bar> < 1" by linarith
  then show ?thesis
    using x unfolding x_def [symmetric] by (simp only: timedelta_seconds_def py_int_nonneg Let_def f_def)
qed

end
