(* ===== verification/Pool_Types.thy ===== *)
theory Pool_Types
  imports Py_Float
begin

text \<open>
  The shared types of the client-side sandbox pool (\<open>opensandbox/pool_types.py\<close>): the enums,
  the acquire-policy helpers, the validated option and configuration records, the interface
  \<open>PoolStateStore\<close> as a record of operations, and the two helpers that call the optional
  near-expiry methods of a store. The callables of a configuration (health checks, preparer,
  creator) are not fields here: they are parameters of the pool's own operations.
\<close>

section \<open>Enumerations\<close>

datatype AcquirePolicy = FAIL_FAST | DIRECT_CREATE | RETRY_NEXT_IDLE | RETRY_NEXT_IDLE_THEN_CREATE

fun AcquirePolicy_value :: "AcquirePolicy \<Rightarrow> string" where
  "AcquirePolicy_value FAIL_FAST = ''FAIL_FAST''"
| "AcquirePolicy_value DIRECT_CREATE = ''DIRECT_CREATE''"
| "AcquirePolicy_value RETRY_NEXT_IDLE = ''RETRY_NEXT_IDLE''"
| "AcquirePolicy_value RETRY_NEXT_IDLE_THEN_CREATE = ''RETRY_NEXT_IDLE_THEN_CREATE''"

definition RETRY_POLICIES :: "AcquirePolicy list" where
  "RETRY_POLICIES = [RETRY_NEXT_IDLE, RETRY_NEXT_IDLE_THEN_CREATE]"

definition FALLTHROUGH_POLICIES :: "AcquirePolicy list" where
  "FALLTHROUGH_POLICIES = [DIRECT_CREATE, RETRY_NEXT_IDLE_THEN_CREATE]"

definition effective_max_idle_attempts :: "AcquirePolicy \<Rightarrow> int \<Rightarrow> int" where
  "effective_max_idle_attempts policy max_acquire_retries =
     (if policy \<in> set RETRY_POLICIES then max 1 max_acquire_retries else 1)"

definition policy_falls_through_to_direct_create :: "AcquirePolicy \<Rightarrow> bool" where
  "policy_falls_through_to_direct_create policy \<longleftrightarrow> policy \<in> set FALLTHROUGH_POLICIES"

datatype PoolState = HEALTHY | DEGRADED | DRAINING | STOPPED

datatype PoolLifecycleState = L_NOT_STARTED | L_STARTING | L_RUNNING | L_DRAINING | L_STOPPED

fun PoolLifecycleState_value :: "PoolLifecycleState \<Rightarrow> string" where
  "PoolLifecycleState_value L_NOT_STARTED = ''NOT_STARTED''"
| "PoolLifecycleState_value L_STARTING = ''STARTING''"
| "PoolLifecycleState_value L_RUNNING = ''RUNNING''"
| "PoolLifecycleState_value L_DRAINING = ''DRAINING''"
| "PoolLifecycleState_value L_STOPPED = ''STOPPED''"

datatype PoolDestroyState = ACTIVE | DESTROYING | DESTROYED

fun PoolDestroyState_value :: "PoolDestroyState \<Rightarrow> string" where
  "PoolDestroyState_value ACTIVE = ''ACTIVE''"
| "PoolDestroyState_value DESTROYING = ''DESTROYING''"
| "PoolDestroyState_value DESTROYED = ''DESTROYED''"

datatype PoolDestroyStrategy = FORCE

datatype PooledSandboxCreateReason = WARMUP | R_DIRECT_CREATE

section \<open>Records\<close>

record PoolDestroyOptions =
  strategy :: PoolDestroyStrategy
  tombstone_ttl :: "timedelta option"
  opt_drain_timeout :: timedelta

record PoolDestroyResult =
  res_pool_name :: string
  res_state :: PoolDestroyState
  drained_idle_count :: nat
  killed_idle_count :: nat
  persistent_state_cleared :: bool

record IdleEntry =
  ent_sandbox_id :: string
  expires_at :: datetime

record StoreCounters =
  idle_count :: nat

record TakeIdleResult =
  taken_id :: "string option"
  discarded_alive_sandbox_ids :: "string list"

record PooledSandboxCreateContext =
  ctx_pool_name :: string
  ctx_owner_id :: string
  ctx_idle_timeout :: timedelta
  ctx_reason :: PooledSandboxCreateReason
  ctx_ready_timeout :: timedelta
  ctx_health_check_polling_interval :: timedelta
  ctx_skip_health_check :: bool

record PoolSnapshot =
  snap_state :: PoolState
  snap_lifecycle_state :: PoolLifecycleState
  snap_idle_count :: nat
  snap_max_idle :: int
  snap_failure_count :: int
  snap_backoff_active :: bool
  snap_last_error :: "string option"
  snap_in_flight_operations :: int

record PoolConfig =
  pool_name :: string
  max_idle :: int
  owner_id :: "string option"
  warmup_concurrency :: "int option"
  primary_lock_ttl :: timedelta
  reconcile_interval :: timedelta
  degraded_threshold :: int
  acquire_ready_timeout :: timedelta
  acquire_health_check_polling_interval :: timedelta
  acquire_skip_health_check :: bool
  warmup_ready_timeout :: timedelta
  warmup_health_check_polling_interval :: timedelta
  warmup_skip_health_check :: bool
  idle_timeout :: timedelta
  drain_timeout :: timedelta
  acquire_min_remaining_ttl :: "timedelta option"
  max_acquire_retries :: int

section \<open>Validation\<close>

definition require_text :: "string \<Rightarrow> string \<Rightarrow> unit result" where
  "require_text value message = (if is_blank value then Inl (ValueError message) else Inr ())"

definition require_positive :: "timedelta \<Rightarrow> string \<Rightarrow> unit result" where
  "require_positive value message = (if value \<le> 0 then Inl (ValueError message) else Inr ())"

definition PoolDestroyOptions_post_init :: "PoolDestroyOptions \<Rightarrow> PoolDestroyOptions result" where
  "PoolDestroyOptions_post_init opts =
     bindE (case tombstone_ttl opts of
              None \<Rightarrow> Inr ()
            | Some t \<Rightarrow> require_positive t ''tombstone_ttl must be positive'') (\<lambda>_.
     if opt_drain_timeout opts < 0 then Inl (ValueError ''drain_timeout must be non-negative'')
     else Inr opts)"

definition DEFAULT_ACQUIRE_MIN_REMAINING_TTL_CAP :: timedelta where
  "DEFAULT_ACQUIRE_MIN_REMAINING_TTL_CAP = seconds 60"

text \<open>\<open>timedelta / 2\<close> rounds half a microsecond to even.\<close>

definition default_acquire_min_remaining_ttl :: "timedelta \<Rightarrow> timedelta" where
  "default_acquire_min_remaining_ttl idle =
     (let half = round_half_even (of_int idle / 2)
      in if DEFAULT_ACQUIRE_MIN_REMAINING_TTL_CAP < half
         then DEFAULT_ACQUIRE_MIN_REMAINING_TTL_CAP else half)"

definition require_acquire_min_remaining_ttl :: "timedelta \<Rightarrow> timedelta \<Rightarrow> unit result" where
  "require_acquire_min_remaining_ttl min_ttl idle =
     (if min_ttl < 0 then Inl (ValueError ''acquire_min_remaining_ttl must be non-negative'')
      else if idle \<le> min_ttl
        then Inl (ValueError ''acquire_min_remaining_ttl must be strictly less than idle_timeout'')
      else Inr ())"

text \<open>\<open>max(1, ceil(max_idle * 0.2))\<close> on floats.\<close>

definition default_warmup_concurrency :: "int \<Rightarrow> int" where
  "default_warmup_concurrency n = max 1 \<lceil>fl (of_int n * fl (1 / 5))\<rceil>"

definition PoolConfig_post_init :: "string \<Rightarrow> PoolConfig \<Rightarrow> PoolConfig result" where
  "PoolConfig_post_init uuid c =
    (let owner = (case owner_id c of
                    None \<Rightarrow> ''pool-owner-'' @ uuid
                  | Some s \<Rightarrow> if s = [] then ''pool-owner-'' @ uuid else s);
         warmup = (case warmup_concurrency c of
                     None \<Rightarrow> default_warmup_concurrency (max_idle c)
                   | Some n \<Rightarrow> n);
         c1 = c\<lparr>owner_id := Some owner, warmup_concurrency := Some warmup\<rparr>
     in bindE (require_text (pool_name c1) ''pool_name must not be blank'') (\<lambda>_.
        bindE (require_text owner ''owner_id must not be blank'') (\<lambda>_.
        bindE (guardE (0 \<le> max_idle c1) (ValueError ''max_idle must be >= 0'')) (\<lambda>_.
        bindE (guardE (0 < warmup) (ValueError ''warmup_concurrency must be positive'')) (\<lambda>_.
        bindE (guardE (0 < degraded_threshold c1)
                 (ValueError ''degraded_threshold must be positive'')) (\<lambda>_.
        bindE (require_positive (primary_lock_ttl c1) ''primary_lock_ttl must be positive'') (\<lambda>_.
        bindE (require_positive (reconcile_interval c1) ''reconcile_interval must be positive'') (\<lambda>_.
        bindE (require_positive (acquire_ready_timeout c1)
                 ''acquire_ready_timeout must be positive'') (\<lambda>_.
        bindE (require_positive (acquire_health_check_polling_interval c1)
                 ''acquire_health_check_polling_interval must be positive'') (\<lambda>_.
        bindE (require_positive (warmup_ready_timeout c1)
                 ''warmup_ready_timeout must be positive'') (\<lambda>_.
        bindE (require_positive (warmup_health_check_polling_interval c1)
                 ''warmup_health_check_polling_interval must be positive'') (\<lambda>_.
        bindE (require_positive (idle_timeout c1) ''idle_timeout must be positive'') (\<lambda>_.
        bindE (guardE (0 \<le> drain_timeout c1)
                 (ValueError ''drain_timeout must be non-negative'')) (\<lambda>_.
        bindE (guardE (1 \<le> max_acquire_retries c1)
                 (ValueError ''max_acquire_retries must be >= 1'')) (\<lambda>_.
        let resolved_min_ttl = (case acquire_min_remaining_ttl c1 of
                                  None \<Rightarrow> default_acquire_min_remaining_ttl (idle_timeout c1)
                                | Some t \<Rightarrow> t);
            c2 = c1\<lparr>acquire_min_remaining_ttl := Some resolved_min_ttl\<rparr>
        in bindE (require_acquire_min_remaining_ttl resolved_min_ttl (idle_timeout c2)) (\<lambda>_.
           Inr c2))))))))))))))))"

text \<open>
  \<open>dataclasses.replace\<close> runs \<open>__init__\<close>, hence \<open>__post_init__\<close>, on the changed copy.
\<close>

definition with_max_idle :: "string \<Rightarrow> PoolConfig \<Rightarrow> int \<Rightarrow> PoolConfig result" where
  "with_max_idle uuid c n = PoolConfig_post_init uuid (c\<lparr>max_idle := n\<rparr>)"

text \<open>What a constructed configuration guarantees to the code that reads it.\<close>

definition wf_config :: "PoolConfig \<Rightarrow> bool" where
  "wf_config c \<longleftrightarrow>
     \<not> is_blank (pool_name c) \<and> (\<exists>w. owner_id c = Some w \<and> \<not> is_blank w) \<and> 0 \<le> max_idle c \<and>
     (\<exists>n. warmup_concurrency c = Some n \<and> 0 < n) \<and> 0 < degraded_threshold c \<and>
     0 < primary_lock_ttl c \<and> 0 < reconcile_interval c \<and> 0 < acquire_ready_timeout c \<and>
     0 < acquire_health_check_polling_interval c \<and> 0 < warmup_ready_timeout c \<and>
     0 < warmup_health_check_polling_interval c \<and> 0 < idle_timeout c \<and> 0 \<le> drain_timeout c \<and>
     1 \<le> max_acquire_retries c \<and>
     (\<exists>t. acquire_min_remaining_ttl c = Some t \<and> 0 \<le> t \<and> t < idle_timeout c)"

section \<open>The interface of a pool state store\<close>

text \<open>
  The protocol \<open>PoolStateStore\<close>: each method is a computation over the state \<open>'w\<close> the store
  lives in. The two \<open>*_min_ttl\<close> methods are optional (\<open>getattr(store, ..., None)\<close>).
\<close>

record 'w PoolStateStore =
  st_try_take_idle :: "string \<Rightarrow> ('w, string option) M"
  st_try_take_idle_min_ttl :: "(string \<Rightarrow> timedelta \<Rightarrow> ('w, TakeIdleResult) M) option"
  st_put_idle :: "string \<Rightarrow> string \<Rightarrow> ('w, unit) M"
  st_remove_idle :: "string \<Rightarrow> string \<Rightarrow> ('w, unit) M"
  st_try_acquire_primary_lock :: "string \<Rightarrow> string \<Rightarrow> timedelta \<Rightarrow> ('w, bool) M"
  st_renew_primary_lock :: "string \<Rightarrow> string \<Rightarrow> timedelta \<Rightarrow> ('w, bool) M"
  st_release_primary_lock :: "string \<Rightarrow> string \<Rightarrow> ('w, unit) M"
  st_reap_expired_idle :: "string \<Rightarrow> datetime \<Rightarrow> ('w, unit) M"
  st_reap_expired_idle_min_ttl ::
    "(string \<Rightarrow> datetime \<Rightarrow> timedelta \<Rightarrow> ('w, string list option) M) option"
  st_snapshot_counters :: "string \<Rightarrow> ('w, StoreCounters) M"
  st_snapshot_idle_entries :: "string \<Rightarrow> ('w, IdleEntry list) M"
  st_get_max_idle :: "string \<Rightarrow> ('w, int option) M"
  st_set_max_idle :: "string \<Rightarrow> int \<Rightarrow> ('w, unit) M"
  st_set_idle_entry_ttl :: "string \<Rightarrow> timedelta \<Rightarrow> ('w, unit) M"
  st_get_destroy_state :: "string \<Rightarrow> ('w, PoolDestroyState) M"
  st_begin_destroy :: "string \<Rightarrow> string \<Rightarrow> ('w, unit) M"
  st_clear_pool_state :: "string \<Rightarrow> ('w, unit) M"
  st_mark_destroyed :: "string \<Rightarrow> string \<Rightarrow> timedelta option \<Rightarrow> ('w, unit) M"

definition try_take_idle_with_min_ttl ::
  "'w PoolStateStore \<Rightarrow> string \<Rightarrow> timedelta option \<Rightarrow> ('w, TakeIdleResult) M" where
  "try_take_idle_with_min_ttl store pool min_remaining_ttl =
     (let plain = bindM (st_try_take_idle store pool) (\<lambda>i.
                    returnM \<lparr>taken_id = i, discarded_alive_sandbox_ids = []\<rparr>)
      in case min_remaining_ttl of
           None \<Rightarrow> plain
         | Some t \<Rightarrow>
             if t \<le> 0 then plain
             else (case st_try_take_idle_min_ttl store of
                     Some method \<Rightarrow> method pool t
                   | None \<Rightarrow> plain))"

definition reap_expired_idle_with_min_ttl ::
  "'w PoolStateStore \<Rightarrow> string \<Rightarrow> datetime \<Rightarrow> timedelta option \<Rightarrow> ('w, string list) M" where
  "reap_expired_idle_with_min_ttl store pool now min_remaining_ttl =
     (let plain = thenM (st_reap_expired_idle store pool now) (returnM [])
      in case min_remaining_ttl of
           None \<Rightarrow> plain
         | Some t \<Rightarrow>
             if t \<le> 0 then plain
             else (case st_reap_expired_idle_min_ttl store of
                     Some method \<Rightarrow> bindM (method pool now t) (\<lambda>r.
                       returnM (case r of None \<Rightarrow> [] | Some ids \<Rightarrow> ids))
                   | None \<Rightarrow> plain))"

section \<open>Properties\<close>

lemma require_text_Inr [simp]: "require_text s m = Inr u \<longleftrightarrow> \<not> is_blank s"
  by (simp add: require_text_def)

lemma require_positive_Inr [simp]: "require_positive d m = Inr u \<longleftrightarrow> 0 < d"
  by (auto simp: require_positive_def)

lemma require_acquire_min_remaining_ttl_Inr [simp]:
  "require_acquire_min_remaining_ttl t d = Inr u \<longleftrightarrow> 0 \<le> t \<and> t < d"
  by (auto simp: require_acquire_min_remaining_ttl_def)

lemma effective_max_idle_attempts_ge_1: "1 \<le> effective_max_idle_attempts p n"
  by (simp add: effective_max_idle_attempts_def)

lemma default_min_ttl_in_range:
  assumes "0 < idle"
  shows "0 \<le> default_acquire_min_remaining_ttl idle"
    and "default_acquire_min_remaining_ttl idle < idle"
proof -
  let ?h = "round_half_even (of_int idle / 2)"
  have "round_half_even (of_int 0) \<le> ?h"
    using assms by (intro round_half_even_mono) simp
  then have lo: "0 \<le> ?h" by (simp only: round_half_even_int)
  have "?h < idle"
  proof (cases "idle = 1")
    case True
    moreover have "\<lfloor>1 / 2 :: rat\<rfloor> = 0" by (rule floor_unique) simp_all
    ultimately show ?thesis by (simp add: round_half_even_def)
  next
    case False
    with assms have "2 \<le> idle" by simp
    then have "?h \<le> round_half_even (of_int (idle - 1))"
      by (intro round_half_even_mono) (simp add: field_simps)
    then show ?thesis by (simp only: round_half_even_int)
  qed
  with lo show "0 \<le> default_acquire_min_remaining_ttl idle"
    and "default_acquire_min_remaining_ttl idle < idle"
    by (auto simp: default_acquire_min_remaining_ttl_def DEFAULT_ACQUIRE_MIN_REMAINING_TTL_CAP_def Let_def)
qed

lemma PoolConfig_post_init_Inr:
  "PoolConfig_post_init u c = Inr c' \<Longrightarrow> wf_config c'"
  by (auto simp: PoolConfig_post_init_def wf_config_def Let_def bindE_eq_Inr)

lemma PoolConfig_post_init_wf:
  assumes "wf_config c"
  shows "PoolConfig_post_init u c = Inr c"
proof -
  from assms obtain w n t where
    "owner_id c = Some w" "\<not> is_blank w" "warmup_concurrency c = Some n" "0 < n"
    "acquire_min_remaining_ttl c = Some t" "0 \<le> t" "t < idle_timeout c"
    by (auto simp: wf_config_def)
  with assms show ?thesis
    by (auto simp: PoolConfig_post_init_def wf_config_def Let_def is_blank_def bindE_eq_Inr)
qed

lemma with_max_idle_wf:
  "wf_config c \<Longrightarrow> 0 \<le> n \<Longrightarrow> with_max_idle u c n = Inr (c\<lparr>max_idle := n\<rparr>)"
  unfolding with_max_idle_def by (rule PoolConfig_post_init_wf) (simp add: wf_config_def)

lemma fl_one_fifth: "fl (1 / 5) = 3602879701896397 / 18014398509481984"
  by code_simp

lemma ceiling_fl_fifth:
  assumes "0 \<le> n" and "n < 2 ^ 49"
  shows "\<lceil>fl (of_int n * fl (1 / 5))\<rceil> = \<lceil>of_int n / 5 :: rat\<rceil>"
proof -
  define k where "k = \<lceil>of_int n / 5 :: rat\<rceil>"
  define x :: rat where "x = of_int n * fl (1 / 5)"
  have x5: "x = of_int n / 5 * (1 + 1 / 2 ^ 54)"
    by (simp add: x_def fl_one_fifth)
  have kb: "of_int n / 5 \<le> rat_of_int k" "rat_of_int k < of_int n / 5 + 1"
    using ceiling_correct [of "of_int n / 5 :: rat"] by (simp_all add: k_def)
  have n_rat: "rat_of_int n < 2 ^ 49"
    using assms(2) of_int_less_iff [of n "2 ^ 49", where 'a = rat] by simp
  have "rat_of_int k < of_int (2 ^ 49)" using kb n_rat by simp
  then have k49: "k < 2 ^ 49" by (simp only: of_int_less_iff)
  have "n = 0 \<or> n = 5 * k \<or> (0 < k \<and> n \<le> 5 * k - 1 \<and> 5 * k - 4 \<le> n)"
  proof -
    have "rat_of_int n \<le> of_int (5 * k)" and "rat_of_int (5 * k) < of_int (n + 5)"
      using kb by simp_all
    then have "n \<le> 5 * k" and "5 * k < n + 5" by (simp_all only: of_int_le_iff of_int_less_iff)
    with assms(1) show ?thesis by linarith
  qed
  then consider "n = 0" | "0 < n" "n = 5 * k" | "0 < k" "n \<le> 5 * k - 1" "5 * k - 4 \<le> n"
    using assms(1) by linarith
  then have "\<lceil>fl x\<rceil> = k"
  proof cases
    case 1
    then show ?thesis by (simp add: x_def k_def fl_def)
  next
    case 2
    then have "fl x = of_int k"
      using k49 by (intro fl_absorb) (auto simp: x5)
    then show ?thesis by simp
  next
    case 3
    have "rat_of_int n \<le> of_int (5 * k - 1)" and "rat_of_int (5 * k - 4) \<le> of_int n"
      using 3 by (simp_all only: of_int_le_iff)
    then have nb: "rat_of_int n \<le> 5 * of_int k - 1" "5 * of_int k - 4 \<le> rat_of_int n" by simp_all
    have x0: "0 \<le> x" using assms(1) by (simp add: x5)
    have "x \<le> of_int k" using nb(1) n_rat by (simp add: x5 field_simps)
    then have "fl x \<le> fl (of_int k)" by (rule fl_mono_nonneg [OF x0])
    then have hi: "fl x \<le> of_int k" using 3(1) k49 by (simp add: fl_int)
    have "of_int (8 * k - 7) * 2 powi (- 3) \<le> of_int n / (5::rat)"
      using nb(2) by (simp add: power_int_minus field_simps)
    also have "\<dots> \<le> x" using assms(1) by (simp add: x5 field_simps)
    finally have "fl (of_int (8 * k - 7) * 2 powi (- 3)) \<le> fl x"
      using 3(1) by (intro fl_mono_nonneg) simp_all
    moreover have "fl (of_int (8 * k - 7) * 2 powi (- 3)) = of_int (8 * k - 7) * 2 powi (- 3)"
      using 3(1) k49 by (intro fl_exact) simp_all
    ultimately have "of_int (8 * k - 7) * 2 powi (- 3) \<le> fl x" by simp
    then have "of_int k - 1 < fl x" by (simp add: power_int_minus field_simps)
    with hi show ?thesis by (intro ceiling_unique) simp_all
  qed
  then show ?thesis by (simp only: x_def k_def)
qed

text \<open>The configuration with its three defaults filled in, before any check.\<close>

definition resolve_config :: "string \<Rightarrow> PoolConfig \<Rightarrow> PoolConfig" where
  "resolve_config uuid c = c\<lparr>
     owner_id := Some (case owner_id c of
        None \<Rightarrow> ''pool-owner-'' @ uuid | Some s \<Rightarrow> if s = [] then ''pool-owner-'' @ uuid else s),
     warmup_concurrency := Some (case warmup_concurrency c of
        None \<Rightarrow> default_warmup_concurrency (max_idle c) | Some n \<Rightarrow> n),
     acquire_min_remaining_ttl := Some (case acquire_min_remaining_ttl c of
        None \<Rightarrow> default_acquire_min_remaining_ttl (idle_timeout c) | Some t \<Rightarrow> t)\<rparr>"

lemma PoolConfig_post_init_resolved:
  "PoolConfig_post_init u c = Inr c' \<Longrightarrow> c' = resolve_config u c"
  by (cases "acquire_min_remaining_ttl c";
      drule sym; simp add: PoolConfig_post_init_def resolve_config_def Let_def bindE_eq_Inr eq_commute [of "Inr c'"])

lemma PoolConfig_post_init_complete:
  "wf_config (resolve_config u c) \<Longrightarrow> PoolConfig_post_init u c = Inr (resolve_config u c)"
  by (cases "acquire_min_remaining_ttl c")
     (simp_all add: PoolConfig_post_init_def resolve_config_def wf_config_def Let_def bindE_eq_Inr)

definition raises_only_ValueError :: "'a result \<Rightarrow> bool" where
  "raises_only_ValueError r \<longleftrightarrow> (\<forall>e. r = Inl e \<longrightarrow> (\<exists>m. e = ValueError m))"

lemma raises_only_ValueError_intros:
  "raises_only_ValueError (Inr a)"
  "raises_only_ValueError r \<Longrightarrow> (\<And>a. raises_only_ValueError (f a)) \<Longrightarrow> raises_only_ValueError (bindE r f)"
  "raises_only_ValueError (guardE b (ValueError m))"
  "raises_only_ValueError (require_text s m)"
  "raises_only_ValueError (require_positive d m)"
  "raises_only_ValueError (require_acquire_min_remaining_ttl t d)"
  by (auto simp: raises_only_ValueError_def bindE_eq_Inl require_text_def require_positive_def
      require_acquire_min_remaining_ttl_def)

lemma PoolConfig_post_init_error: "raises_only_ValueError (PoolConfig_post_init u c)"
  unfolding PoolConfig_post_init_def Let_def by (intro raises_only_ValueError_intros)

lemma with_max_idle_negative:
  assumes "wf_config c" and "n < 0"
  shows "with_max_idle u c n = Inl (ValueError ''max_idle must be >= 0'')"
proof -
  from assms(1) obtain w where w: "owner_id c = Some w" "w \<noteq> []" "\<not> is_blank w" "\<not> is_blank (pool_name c)"
    by (auto simp: wf_config_def is_blank_def)
  with assms(2) show ?thesis
    by (simp add: with_max_idle_def PoolConfig_post_init_def Let_def require_text_def)
qed

text \<open>
  Constructing a pool configuration either raises a \<open>ValueError\<close> or returns the configuration
  with its defaults filled in, and it returns it exactly when that configuration is well formed (non-blank
  names, positive intervals, \<open>max_idle\<close> at least 0, and a minimum TTL below the idle timeout). A
  constructed configuration passes its own validation unchanged, so \<open>with_max_idle\<close> (a \<open>replace\<close> that
  validates again) only changes \<open>max_idle\<close>, and raises exactly for a negative one.
\<close>

theorem config_constructed_iff_wf:
  "(PoolConfig_post_init u c = Inr c' \<longleftrightarrow> c' = resolve_config u c \<and> wf_config c') \<and>
   (\<forall>e. PoolConfig_post_init u c = Inl e \<longrightarrow> (\<exists>m. e = ValueError m)) \<and>
   (PoolConfig_post_init u c = Inr c' \<longrightarrow>
      with_max_idle u' c' n =
        (if 0 \<le> n then Inr (c'\<lparr>max_idle := n\<rparr>) else Inl (ValueError ''max_idle must be >= 0'')))"
proof (intro conjI impI allI iffI)
  assume ok: "PoolConfig_post_init u c = Inr c'"
  then show "c' = resolve_config u c" and "wf_config c'"
    by (rule PoolConfig_post_init_resolved, rule PoolConfig_post_init_Inr)
  then show "with_max_idle u' c' n =
        (if 0 \<le> n then Inr (c'\<lparr>max_idle := n\<rparr>) else Inl (ValueError ''max_idle must be >= 0''))"
    using with_max_idle_wf with_max_idle_negative by simp
next
  assume "c' = resolve_config u c \<and> wf_config c'"
  then show "PoolConfig_post_init u c = Inr c'" using PoolConfig_post_init_complete by blast
next
  fix e assume "PoolConfig_post_init u c = Inl e"
  then show "\<exists>m. e = ValueError m"
    using PoolConfig_post_init_error [of u c] by (simp add: raises_only_ValueError_def)
qed

definition demo_config :: PoolConfig where
  "demo_config = \<lparr>pool_name = ''p'', max_idle = 7, owner_id = Some ''o'', warmup_concurrency = None,
     primary_lock_ttl = seconds 60, reconcile_interval = seconds 30, degraded_threshold = 3,
     acquire_ready_timeout = seconds 30, acquire_health_check_polling_interval = milliseconds 200,
     acquire_skip_health_check = False, warmup_ready_timeout = seconds 30,
     warmup_health_check_polling_interval = milliseconds 200, warmup_skip_health_check = False,
     idle_timeout = seconds 86400, drain_timeout = seconds 30, acquire_min_remaining_ttl = None,
     max_acquire_retries = 3\<rparr>"

lemma default_warmup_concurrency_eq:
  assumes "0 \<le> n" and "n < 2 ^ 49"
  shows "default_warmup_concurrency n = max 1 ((n + 4) div 5)"
proof -
  have "\<lceil>of_int n / 5 :: rat\<rceil> = (n + 4) div 5"
  proof (rule ceiling_unique)
    have m: "n + 4 = 5 * ((n + 4) div 5) + (n + 4) mod 5" and b: "0 \<le> (n + 4) mod 5" "(n + 4) mod 5 < 5"
      by simp_all
    then have "of_int (5 * ((n + 4) div 5) - 5) < rat_of_int n" and "rat_of_int n \<le> of_int (5 * ((n + 4) div 5))"
      by (simp_all only: of_int_less_iff of_int_le_iff)
    then show "of_int ((n + 4) div 5) - 1 < (of_int n / 5 :: rat)"
      and "(of_int n / 5 :: rat) \<le> of_int ((n + 4) div 5)" by simp_all
  qed
  with ceiling_fl_fifth [OF assms] show ?thesis by (simp add: default_warmup_concurrency_def)
qed

lemma demo_config_resolved:
  "resolve_config [] demo_config =
     demo_config\<lparr>warmup_concurrency := Some 2, acquire_min_remaining_ttl := Some (seconds 60)\<rparr>"
  by (simp add: resolve_config_def demo_config_def default_warmup_concurrency_eq Let_def round_half_even_def
      default_acquire_min_remaining_ttl_def DEFAULT_ACQUIRE_MIN_REMAINING_TTL_CAP_def)

lemma demo_config_ok:
  "PoolConfig_post_init [] demo_config =
     Inr (demo_config\<lparr>warmup_concurrency := Some 2, acquire_min_remaining_ttl := Some (seconds 60)\<rparr>)"
proof -
  have "wf_config (resolve_config [] demo_config)"
    unfolding demo_config_resolved
    unfolding wf_config_def is_blank_iff demo_config_def by (simp add: py_isspace_def)
  then show ?thesis using PoolConfig_post_init_complete demo_config_resolved by metis
qed

theorem config_constructed_iff_wf_witness:
  "with_max_idle [] (demo_config\<lparr>warmup_concurrency := Some 2, acquire_min_remaining_ttl := Some (seconds 60)\<rparr>) 40 =
     Inr (demo_config\<lparr>max_idle := 40, warmup_concurrency := Some 2, acquire_min_remaining_ttl := Some (seconds 60)\<rparr>)"
  using config_constructed_iff_wf [THEN conjunct2, THEN conjunct2, rule_format, OF demo_config_ok, of "[]" 40]
  by (simp add: demo_config_def)

text \<open>
  The default warm-up concurrency, computed on floats as \<open>max(1, ceil(max_idle * 0.2))\<close>, is
  one fifth of \<open>max_idle\<close> rounded up and at least 1: the rounding of \<open>0.2\<close> and of the product never
  adds or loses a unit for any \<open>max_idle\<close> below \<open>2^49\<close>.
\<close>

theorem default_warmup_concurrency_exact:
  assumes "0 \<le> n" and "n < 2 ^ 49"
  shows "default_warmup_concurrency n = max 1 ((n + 4) div 5)"
  using assms by (rule default_warmup_concurrency_eq)

theorem default_warmup_concurrency_exact_witness: "default_warmup_concurrency 35 = 7"
  using default_warmup_concurrency_exact [of 35] by simp

end
