(* ===== verification/Prog_Logic.thy ===== *)
theory Prog_Logic
  imports OSB_Prelude
begin

text \<open>
  Reasoning about the stateful code: a weakest-precondition calculus for the monad, whose equations
  simp applies to a whole handler; references to a field of the state, for an object that Python code
  receives as an argument and mutates; and ghost traces, which record what a piece of code asked of an
  arbitrary environment.
\<close>

section \<open>Further combinators\<close>

text \<open>The outcome as a value: what a \<open>Future\<close> holds when its task has run.\<close>

definition tryM :: "('s, 'a) M \<Rightarrow> ('s, 'a result) M" where
  "tryM m s = (case m s of (r, s') \<Rightarrow> (Inr r, s'))"

fun replicateM :: "nat \<Rightarrow> ('s, 'a) M \<Rightarrow> ('s, 'a list) M" where
  "replicateM 0 m = returnM []"
| "replicateM (Suc n) m = bindM m (\<lambda>x. bindM (replicateM n m) (\<lambda>xs. returnM (x # xs)))"

text \<open>\<open>except E\<close> for the exceptions that satisfy a test.\<close>

definition catch_ifM :: "(exn \<Rightarrow> bool) \<Rightarrow> ('s, 'a) M \<Rightarrow> (exn \<Rightarrow> ('s, 'a) M) \<Rightarrow> ('s, 'a) M" where
  "catch_ifM p m h = catchM m (\<lambda>e. if p e then h e else raiseM e)"

definition whenM :: "bool \<Rightarrow> ('s, unit) M \<Rightarrow> ('s, unit) M" where
  "whenM b m = (if b then m else returnM ())"

text \<open>\<open>str(exc)\<close>: a \<open>SandboxException\<close> appends its error code and message (the exceptions of the
  server, which do not reach the SDK, are given their message).\<close>

definition sandbox_str :: "string \<Rightarrow> string \<Rightarrow> string" where
  "sandbox_str code m = (if m = [] then m else m @ '' | ['' @ code @ ''] '' @ m)"

fun exn_str :: "exn \<Rightarrow> string" where
  "exn_str (ValueError m) = m"
| "exn_str (TypeError m) = m"
| "exn_str (PoolEmptyException m) = sandbox_str ''POOL_EMPTY'' m"
| "exn_str (PoolAcquireFailedException m _) = sandbox_str ''POOL_ACQUIRE_FAILED'' m"
| "exn_str (PoolStateStoreUnavailableException m _) = sandbox_str ''POOL_STATE_STORE_UNAVAILABLE'' m"
| "exn_str (PoolNotRunningException m) = sandbox_str ''POOL_NOT_RUNNING'' m"
| "exn_str (PoolDestroyedException m) = sandbox_str ''POOL_DESTROYED'' m"
| "exn_str (PoolDestroyIncompleteException m _) = sandbox_str ''POOL_DESTROY_INCOMPLETE'' m"
| "exn_str (HttpxError _ m _) = m"
| "exn_str (TimeoutError m) = m"
| "exn_str (OverflowError m) = m"
| "exn_str (RuntimeError m) = m"
| "exn_str (NotImplementedError m) = m"
| "exn_str (HTTPException _ _ m) = m"
| "exn_str (DockerException _ m) = m"
| "exn_str (RequestsTimeout m) = m"
| "exn_str (ApiException _ m) = m"
| "exn_str (OtherException m) = m"
| "exn_str (BaseExceptionOnly m) = m"

section \<open>Weakest preconditions\<close>

definition wp :: "('s, 'a) M \<Rightarrow> ('a \<Rightarrow> 's \<Rightarrow> bool) \<Rightarrow> (exn \<Rightarrow> 's \<Rightarrow> bool) \<Rightarrow> 's \<Rightarrow> bool" where
  "wp m Q E s = (case m s of (Inl e, s') \<Rightarrow> E e s' | (Inr a, s') \<Rightarrow> Q a s')"

named_theorems wp_simps \<open>equations of the weakest-precondition calculus\<close>

lemma wp_run: "wp m Q E s \<Longrightarrow> m s = (Inr a, s') \<Longrightarrow> Q a s'"
  and wp_exn: "wp m Q E s \<Longrightarrow> m s = (Inl e, s') \<Longrightarrow> E e s'"
  by (simp_all add: wp_def)

lemma wpI: "(\<And>a s'. m s = (Inr a, s') \<Longrightarrow> Q a s') \<Longrightarrow> (\<And>e s'. m s = (Inl e, s') \<Longrightarrow> E e s') \<Longrightarrow> wp m Q E s"
  by (auto simp: wp_def split: prod.splits sum.splits)

lemma wp_mono:
  assumes "wp m Q E s" and "\<And>a s'. Q a s' \<Longrightarrow> Q' a s'" and "\<And>e s'. E e s' \<Longrightarrow> E' e s'"
  shows "wp m Q' E' s"
  using assms by (auto simp: wp_def split: prod.splits sum.splits)

lemma wp_conj: "wp m Q E s \<Longrightarrow> wp m Q' E' s \<Longrightarrow> wp m (\<lambda>a s. Q a s \<and> Q' a s) (\<lambda>e s. E e s \<and> E' e s) s"
  by (auto simp: wp_def split: prod.splits sum.splits)

lemma wp_returnM [wp_simps]: "wp (returnM a) Q E = Q a"
  and wp_raiseM [wp_simps]: "wp (raiseM e) Q E = E e"
  and wp_getM [wp_simps]: "wp (getM f) Q E = (\<lambda>s. Q (f s) s)"
  by (simp_all add: wp_def fun_eq_iff)

lemma wp_modifyM [wp_simps]: "wp (modifyM f) Q E = (\<lambda>s. Q () (f s))"
  by (simp add: wp_def fun_eq_iff)

lemma wp_liftE [wp_simps]: "wp (liftE r) Q E = (case r of Inl e \<Rightarrow> E e | Inr a \<Rightarrow> Q a)"
  by (simp add: wp_def fun_eq_iff split: sum.splits)

lemma wp_bindM [wp_simps]: "wp (bindM m f) Q E = wp m (\<lambda>a. wp (f a) Q E) E"
  by (simp add: wp_def bindM_run fun_eq_iff split: prod.splits sum.splits)

lemma wp_thenM [wp_simps]: "wp (thenM m n) Q E = wp m (\<lambda>_. wp n Q E) E"
  by (simp add: thenM_def wp_bindM)

lemma wp_catchM [wp_simps]: "wp (catchM m h) Q E = wp m Q (\<lambda>e. wp (h e) Q E)"
  by (simp add: wp_def catchM_run fun_eq_iff split: prod.splits sum.splits)

lemma wp_if [wp_simps]: "wp (if b then m else n) Q E = (if b then wp m Q E else wp n Q E)"
  by simp

lemma wp_exceptM [wp_simps]:
  "wp (exceptM m h) Q E = wp m Q (\<lambda>e. if is_Exception e then wp (h e) Q E else E e)"
  by (simp add: exceptM_def wp_simps cong: if_cong)

lemma wp_catch_ifM [wp_simps]:
  "wp (catch_ifM p m h) Q E = wp m Q (\<lambda>e. if p e then wp (h e) Q E else E e)"
  by (simp add: catch_ifM_def wp_simps cong: if_cong)

lemma wp_best_effort [wp_simps]:
  "wp (best_effort m) Q E = wp m (\<lambda>_. Q ()) (\<lambda>e. if is_Exception e then Q () else E e)"
  by (simp add: best_effort_def wp_simps cong: if_cong)

lemma wp_finallyM [wp_simps]:
  "wp (finallyM m f) Q E = wp m (\<lambda>a. wp f (\<lambda>_. Q a) E) (\<lambda>e. wp f (\<lambda>_. E e) E)"
  by (simp add: wp_def finallyM_run fun_eq_iff split: prod.splits sum.splits)

lemma wp_tryM [wp_simps]: "wp (tryM m) Q E = wp m (\<lambda>a. Q (Inr a)) (\<lambda>e. Q (Inl e))"
  by (simp add: wp_def tryM_def fun_eq_iff split: prod.splits sum.splits)

lemma wp_whenM [wp_simps]: "wp (whenM b m) Q E = (if b then wp m Q E else Q ())"
  by (simp add: whenM_def wp_simps)

lemma wp_option [wp_simps]:
  "wp (case x of None \<Rightarrow> m | Some a \<Rightarrow> n a) Q E = (case x of None \<Rightarrow> wp m Q E | Some a \<Rightarrow> wp (n a) Q E)"
  by (simp split: option.splits)

text \<open>Loops: an invariant that every iteration keeps, whatever it raises.\<close>

lemma wp_forM:
  assumes "I s" and "\<And>x s. x \<in> set xs \<Longrightarrow> I s \<Longrightarrow> wp (f x) (\<lambda>_. I) E s"
  shows "wp (forM xs f) (\<lambda>_. I) E s"
  using assms
proof (induction xs arbitrary: s)
  case (Cons x xs)
  have "wp (f x) (\<lambda>_. I) E s" using Cons.prems by simp
  then show ?case
    by (simp add: wp_simps) (erule wp_mono; simp add: Cons.IH Cons.prems(2))
qed (simp add: wp_simps)

lemma wp_replicateM:
  assumes "I [] s" and "\<And>xs s. I xs s \<Longrightarrow> length xs < n \<Longrightarrow> wp m (\<lambda>x. I (xs @ [x])) E s"
  shows "wp (replicateM n m) (\<lambda>xs s. I xs s \<and> length xs = n) E s"
proof -
  have "wp (replicateM k m) (\<lambda>xs s. I (ys @ xs) s \<and> length xs = k) E s"
    if "I ys s" and "length ys + k = n" for k ys s
    using that
  proof (induction k arbitrary: ys s)
    case (Suc k)
    have "wp m (\<lambda>x. I (ys @ [x])) E s" using assms(2) Suc.prems by simp
    moreover have "wp (replicateM k m) (\<lambda>xs s. I (ys @ x # xs) s \<and> length xs = k) E s"
      if "I (ys @ [x]) s" for x s
      using Suc.IH [OF that] Suc.prems(2) by simp
    ultimately show ?case by (simp add: wp_simps) (erule wp_mono; simp)
  qed (simp add: wp_simps)
  from this [of "[]" s n] assms(1) show ?thesis by simp
qed

lemma keeps_wp: "keeps m f \<longleftrightarrow> (\<forall>s. wp m (\<lambda>_ s'. f s' = f s) (\<lambda>_ s'. f s' = f s) s)"
  unfolding keeps_def by (rule iff_allI) (auto simp: wp_def split: prod.splits sum.splits)

lemma keeps_option [keeps_intros]:
  "(x = None \<Longrightarrow> keeps m f) \<Longrightarrow> (\<And>a. x = Some a \<Longrightarrow> keeps (n a) f) \<Longrightarrow>
   keeps (case x of None \<Rightarrow> m | Some a \<Rightarrow> n a) f"
  by (cases x) simp_all

lemma keeps_sum [keeps_intros]:
  "(\<And>e. x = Inl e \<Longrightarrow> keeps (m e) f) \<Longrightarrow> (\<And>a. x = Inr a \<Longrightarrow> keeps (n a) f) \<Longrightarrow>
   keeps (case x of Inl e \<Rightarrow> m e | Inr a \<Rightarrow> n a) f"
  by (cases x) simp_all

lemma keeps_prod [keeps_intros]: "(\<And>a b. x = (a, b) \<Longrightarrow> keeps (m a b) f) \<Longrightarrow> keeps (case x of (a, b) \<Rightarrow> m a b) f"
  by (cases x) simp_all

lemma keeps_tryM [keeps_intros]: "keeps m f \<Longrightarrow> keeps (tryM m) f"
  by (simp add: keeps_wp wp_simps)

lemma keeps_catch_ifM [keeps_intros]: "keeps m f \<Longrightarrow> (\<And>e. keeps (h e) f) \<Longrightarrow> keeps (catch_ifM p m h) f"
  unfolding catch_ifM_def by (intro keeps_intros)

lemma keeps_whenM [keeps_intros]: "keeps m f \<Longrightarrow> keeps (whenM b m) f"
  unfolding whenM_def by (intro keeps_intros)

lemma keeps_replicateM [keeps_intros]: "keeps m f \<Longrightarrow> keeps (replicateM n m) f"
  by (induction n) (auto intro!: keeps_intros)

lemma wp_keeps_any:
  assumes "keeps m f" and "\<And>a s'. f s' = f s \<Longrightarrow> Q a s'" and "\<And>e s'. f s' = f s \<Longrightarrow> E e s'"
  shows "wp m Q E s"
  using assms keeps_run [OF assms(1)] by (intro wpI) blast+

lemma keeps_comp: "keeps m f \<Longrightarrow> keeps m (\<lambda>s. g (f s))"
  by (simp add: keeps_def)

section \<open>References\<close>

text \<open>A mutable object held in the state: how to read it and how to update it.\<close>

type_synonym ('s, 'a) ref = "('s \<Rightarrow> 'a) \<times> (('a \<Rightarrow> 'a) \<Rightarrow> 's \<Rightarrow> 's)"

abbreviation readR :: "('s, 'a) ref \<Rightarrow> ('s, 'a) M" where
  "readR r \<equiv> getM (fst r)"

abbreviation updR :: "('s, 'a) ref \<Rightarrow> ('a \<Rightarrow> 'a) \<Rightarrow> ('s, unit) M" where
  "updR r f \<equiv> modifyM (snd r f)"

text \<open>A computation on the object a reference points to, as a computation on the whole state.\<close>

definition zoom :: "('s, 'a) ref \<Rightarrow> ('a, 'b) M \<Rightarrow> ('s, 'b) M" where
  "zoom r m s = (case m (fst r s) of (v, a) \<Rightarrow> (v, snd r (\<lambda>_. a) s))"

text \<open>A reference is lawful when it reads back what was written, and writes nothing else.\<close>

definition lawful :: "('s, 'a) ref \<Rightarrow> bool" where
  "lawful r \<longleftrightarrow> (\<forall>f s. fst r (snd r f s) = f (fst r s)) \<and> (\<forall>f g s. snd r f (snd r g s) = snd r (f \<circ> g) s)"

lemma lawful_get: "lawful r \<Longrightarrow> fst r (snd r f s) = f (fst r s)"
  by (simp add: lawful_def)

lemma zoom_run: "m (fst r s) = (v, a) \<Longrightarrow> zoom r m s = (v, snd r (\<lambda>_. a) s)"
  by (simp add: zoom_def)

lemma wp_zoom [wp_simps]:
  "wp (zoom r m) Q E s = wp m (\<lambda>b a. Q b (snd r (\<lambda>_. a) s)) (\<lambda>e a. E e (snd r (\<lambda>_. a) s)) (fst r s)"
  by (simp add: wp_def zoom_def split: prod.splits sum.splits)

section \<open>Ghost traces\<close>

text \<open>
  The state of an environment paired with the list of the requests made of it so far. \<open>traced ev op\<close>
  runs \<open>op\<close> and appends the event \<open>ev r\<close> of its outcome \<open>r\<close>; code that is given traced operations is the
  code itself, run in an environment that keeps a log.
\<close>

definition traced :: "('a result \<Rightarrow> 'ev) \<Rightarrow> ('s, 'a) M \<Rightarrow> ('s \<times> 'ev list, 'a) M" where
  "traced ev op = (\<lambda>(s, l). case op s of (r, s') \<Rightarrow> (r, (s', l @ [ev r])))"

definition silent :: "('s, 'a) M \<Rightarrow> ('s \<times> 'ev list, 'a) M" where
  "silent op = (\<lambda>(s, l). case op s of (r, s') \<Rightarrow> (r, (s', l)))"

definition ref_traced :: "('s, 'a) ref \<Rightarrow> ('s \<times> 'ev list, 'a) ref" where
  "ref_traced r = (\<lambda>(s, l). fst r s, \<lambda>f (s, l). (snd r f s, l))"

lemma wp_traced [wp_simps]:
  "wp (traced ev op) Q E (s, l) \<longleftrightarrow>
     wp op (\<lambda>a s'. Q a (s', l @ [ev (Inr a)])) (\<lambda>e s'. E e (s', l @ [ev (Inl e)])) s"
  by (simp add: wp_def traced_def split: prod.splits sum.splits)

lemma wp_silent [wp_simps]:
  "wp (silent op) Q E (s, l) \<longleftrightarrow> wp op (\<lambda>a s'. Q a (s', l)) (\<lambda>e s'. E e (s', l)) s"
  by (simp add: wp_def silent_def split: prod.splits sum.splits)

lemma snd_ref_traced [simp]: "snd (snd (ref_traced r) f sl) = snd sl"
  by (simp add: ref_traced_def split: prod.splits)

lemma wp_any: "(\<And>a s'. Q a s') \<Longrightarrow> (\<And>e s'. E e s') \<Longrightarrow> wp m Q E s"
  by (auto intro: wpI)

text \<open>\<open>grows l P\<close>: the log is \<open>l\<close> extended by requests that satisfy \<open>P\<close>.\<close>

definition grows :: "'ev list \<Rightarrow> ('ev list \<Rightarrow> bool) \<Rightarrow> 's \<times> 'ev list \<Rightarrow> bool" where
  "grows l P sl \<longleftrightarrow> (\<exists>m. snd sl = l @ m \<and> P m)"

lemma grows_simps [simp]: "grows l P (s, l @ m) \<longleftrightarrow> P m" "grows l P (s, l) \<longleftrightarrow> P []"
  by (simp_all add: grows_def)

lemma grows_step: "grows (l @ m) P sl \<Longrightarrow> (\<And>k. P k \<Longrightarrow> P' (m @ k)) \<Longrightarrow> grows l P' sl"
  by (auto simp: grows_def)

lemma wp_grows_step:
  assumes "wp X (\<lambda>_. grows (l @ m) P) (\<lambda>_. grows (l @ m) R) s"
    and "\<And>k. P k \<Longrightarrow> P' (m @ k)" and "\<And>k. R k \<Longrightarrow> R' (m @ k)"
  shows "wp X (\<lambda>_. grows l P') (\<lambda>_. grows l R') s"
  using assms(1) by (rule wp_mono) (auto intro: grows_step assms(2,3))

lemma wp_traced_any:
  assumes "\<And>a s'. Q a (s', l @ [ev (Inr a)])" and "\<And>e s'. E e (s', l @ [ev (Inl e)])"
  shows "wp (traced ev op) Q E (s, l)"
  using assms by (simp add: wp_simps wp_any)

lemma wp_silent_any:
  assumes "\<And>a s'. Q a (s', l)" and "\<And>e s'. E e (s', l)"
  shows "wp (silent op) Q E (s, l)"
  using assms by (simp add: wp_simps wp_any)

end
