(* ===== verification/Idle_Spec.thy ===== *)
theory Idle_Spec
  imports Pool_Types Prog_Logic
begin

text \<open>
  The contract of a pool state store towards its clients, independent of how it is stored: a pool
  namespace holds a FIFO list of idle sandboxes with their expiry. The abstract takes are defined
  here; the in-memory store and the Redis store refine them in their own theories, and the locale
  \<open>idle_store\<close> states what the pool, the reconciler and the pool manager rely on.
\<close>

section \<open>Abstract operations\<close>

type_synonym idle_list = "(string \<times> datetime) list"

definition alive :: "datetime \<Rightarrow> string \<times> datetime \<Rightarrow> bool" where
  "alive now x \<longleftrightarrow> now < snd x"

definition take_spec :: "datetime \<Rightarrow> idle_list \<Rightarrow> string option \<times> idle_list" where
  "take_spec now xs =
     (case dropWhile (\<lambda>x. \<not> alive now x) xs of [] \<Rightarrow> (None, []) | y # ys \<Rightarrow> (Some (fst y), ys))"

definition take_min_spec :: "datetime \<Rightarrow> datetime \<Rightarrow> idle_list \<Rightarrow> TakeIdleResult \<times> idle_list" where
  "take_min_spec now cutoff xs =
     (let skipped = takeWhile (\<lambda>x. \<not> alive cutoff x) xs;
          disc = map fst (filter (alive now) skipped)
      in case dropWhile (\<lambda>x. \<not> alive cutoff x) xs of
           [] \<Rightarrow> (\<lparr>taken_id = None, discarded_alive_sandbox_ids = disc\<rparr>, [])
         | y # ys \<Rightarrow> (\<lparr>taken_id = Some (fst y), discarded_alive_sandbox_ids = disc\<rparr>, ys))"

lemma take_spec_simps [simp]:
  "take_spec now [] = (None, [])"
  "take_spec now (x # xs) = (if alive now x then (Some (fst x), xs) else take_spec now xs)"
  by (simp_all add: take_spec_def)

lemma take_min_spec_simps [simp]:
  "take_min_spec now c [] = (\<lparr>taken_id = None, discarded_alive_sandbox_ids = []\<rparr>, [])"
  "take_min_spec now c (x # xs) =
     (if alive c x then (\<lparr>taken_id = Some (fst x), discarded_alive_sandbox_ids = []\<rparr>, xs)
      else (case take_min_spec now c xs of (r, ys) \<Rightarrow>
        (r\<lparr>discarded_alive_sandbox_ids :=
            (if alive now x then [fst x] else []) @ discarded_alive_sandbox_ids r\<rparr>, ys)))"
  by (auto simp: take_min_spec_def Let_def simp del: dropWhile_eq_Nil_conv split: list.splits)

lemma take_spec_split:
  "take_spec now xs = (r, ys) \<Longrightarrow>
   \<exists>sk. (\<forall>x\<in>set sk. \<not> alive now x) \<and>
     ((r = None \<and> ys = [] \<and> xs = sk) \<or> (\<exists>y. r = Some (fst y) \<and> alive now y \<and> xs = sk @ y # ys))"
proof (induction xs)
  case (Cons x xs)
  show ?case
  proof (cases "alive now x")
    case True
    with Cons.prems show ?thesis by (intro exI [of _ "[]"]) (cases x; auto)
  next
    case False
    with Cons obtain sk where "\<forall>x\<in>set sk. \<not> alive now x"
      "(r = None \<and> ys = [] \<and> xs = sk) \<or> (\<exists>y. r = Some (fst y) \<and> alive now y \<and> xs = sk @ y # ys)"
      by auto
    with False show ?thesis by (intro exI [of _ "x # sk"]) auto
  qed
qed simp

lemma take_min_spec_split:
  "take_min_spec now c xs = (r, ys) \<Longrightarrow>
   \<exists>sk. (\<forall>x\<in>set sk. \<not> alive c x) \<and> discarded_alive_sandbox_ids r = map fst (filter (alive now) sk) \<and>
     ((taken_id r = None \<and> ys = [] \<and> xs = sk) \<or>
      (\<exists>y. taken_id r = Some (fst y) \<and> alive c y \<and> xs = sk @ y # ys))"
proof (induction xs arbitrary: r)
  case (Cons x xs)
  show ?case
  proof (cases "alive c x")
    case True
    with Cons.prems show ?thesis by (intro exI [of _ "[]"]) (cases x; auto)
  next
    case False
    obtain r0 where r0: "take_min_spec now c xs = (r0, ys)"
      and r: "r = r0\<lparr>discarded_alive_sandbox_ids :=
          (if alive now x then [fst x] else []) @ discarded_alive_sandbox_ids r0\<rparr>"
      using False Cons.prems by (auto split: prod.splits if_splits)
    from Cons.IH [OF r0] obtain sk where "\<forall>x\<in>set sk. \<not> alive c x"
      "discarded_alive_sandbox_ids r0 = map fst (filter (alive now) sk)"
      "(taken_id r0 = None \<and> ys = [] \<and> xs = sk) \<or>
       (\<exists>y. taken_id r0 = Some (fst y) \<and> alive c y \<and> xs = sk @ y # ys)"
      by auto
    with False r show ?thesis by (intro exI [of _ "x # sk"]) auto
  qed
qed simp

section \<open>Traces of store requests\<close>

text \<open>
  What the clients of a store ask of it and of the callbacks they are given, with the outcome where it
  matters. \<open>traced_store\<close> is an arbitrary store whose requests are logged.
\<close>

datatype event =
    EvTake string "string option result"
  | EvTakeMin string timedelta "TakeIdleResult result"
  | EvPut string string "unit result"
  | EvRemove string string "unit result"
  | EvAcquireLock string string "bool result"
  | EvRenewLock string string "bool result"
  | EvReleaseLock string string "unit result"
  | EvReap string "string list option result"
  | EvCounters string "StoreCounters result"
  | EvEntries string
  | EvMaxIdle string
  | EvSetMaxIdle string int "unit result"
  | EvSetTtl string timedelta "unit result"
  | EvDestroyState string "PoolDestroyState result"
  | EvBeginDestroy string "unit result"
  | EvClear string "unit result"
  | EvMarkDestroyed string "unit result"
  | EvCreate "string option result"
  | EvDiscard string
  | EvConnect string bool
  | EvBuild "string result"
  | EvPrepare string
  | EvRenew string "unit result"
  | EvKill string
  | EvClose string
  | EvManagerCreate "nat result"
  | EvManagerKill string
  | EvManagerClose nat

definition traced_store :: "'s PoolStateStore \<Rightarrow> ('s \<times> event list) PoolStateStore" where
  "traced_store st =
     \<lparr>st_try_take_idle = (\<lambda>p. traced (EvTake p) (st_try_take_idle st p)),
      st_try_take_idle_min_ttl =
        map_option (\<lambda>f p t. traced (EvTakeMin p t) (f p t)) (st_try_take_idle_min_ttl st),
      st_put_idle = (\<lambda>p x. traced (EvPut p x) (st_put_idle st p x)),
      st_remove_idle = (\<lambda>p x. traced (EvRemove p x) (st_remove_idle st p x)),
      st_try_acquire_primary_lock =
        (\<lambda>p w t. traced (EvAcquireLock p w) (st_try_acquire_primary_lock st p w t)),
      st_renew_primary_lock = (\<lambda>p w t. traced (EvRenewLock p w) (st_renew_primary_lock st p w t)),
      st_release_primary_lock = (\<lambda>p w. traced (EvReleaseLock p w) (st_release_primary_lock st p w)),
      st_reap_expired_idle =
        (\<lambda>p t. traced (\<lambda>r. EvReap p (map_sum id (\<lambda>_. None) r)) (st_reap_expired_idle st p t)),
      st_reap_expired_idle_min_ttl =
        map_option (\<lambda>f p t m. traced (EvReap p) (f p t m)) (st_reap_expired_idle_min_ttl st),
      st_snapshot_counters = (\<lambda>p. traced (EvCounters p) (st_snapshot_counters st p)),
      st_snapshot_idle_entries = (\<lambda>p. traced (\<lambda>_. EvEntries p) (st_snapshot_idle_entries st p)),
      st_get_max_idle = (\<lambda>p. traced (\<lambda>_. EvMaxIdle p) (st_get_max_idle st p)),
      st_set_max_idle = (\<lambda>p n. traced (EvSetMaxIdle p n) (st_set_max_idle st p n)),
      st_set_idle_entry_ttl = (\<lambda>p t. traced (EvSetTtl p t) (st_set_idle_entry_ttl st p t)),
      st_get_destroy_state = (\<lambda>p. traced (EvDestroyState p) (st_get_destroy_state st p)),
      st_begin_destroy = (\<lambda>p w. traced (EvBeginDestroy p) (st_begin_destroy st p w)),
      st_clear_pool_state = (\<lambda>p. traced (EvClear p) (st_clear_pool_state st p)),
      st_mark_destroyed = (\<lambda>p w t. traced (EvMarkDestroyed p) (st_mark_destroyed st p w t))\<rparr>"

lemma traced_store_sel [simp]:
  "st_try_take_idle (traced_store st) p = traced (EvTake p) (st_try_take_idle st p)"
  "st_try_take_idle_min_ttl (traced_store st) =
     map_option (\<lambda>f p t. traced (EvTakeMin p t) (f p t)) (st_try_take_idle_min_ttl st)"
  "st_put_idle (traced_store st) p x = traced (EvPut p x) (st_put_idle st p x)"
  "st_remove_idle (traced_store st) p x = traced (EvRemove p x) (st_remove_idle st p x)"
  "st_try_acquire_primary_lock (traced_store st) p w t =
     traced (EvAcquireLock p w) (st_try_acquire_primary_lock st p w t)"
  "st_renew_primary_lock (traced_store st) p w t = traced (EvRenewLock p w) (st_renew_primary_lock st p w t)"
  "st_reap_expired_idle (traced_store st) p n =
     traced (\<lambda>r. EvReap p (map_sum id (\<lambda>_. None) r)) (st_reap_expired_idle st p n)"
  "st_reap_expired_idle_min_ttl (traced_store st) =
     map_option (\<lambda>f p t m. traced (EvReap p) (f p t m)) (st_reap_expired_idle_min_ttl st)"
  "st_snapshot_counters (traced_store st) p = traced (EvCounters p) (st_snapshot_counters st p)"
  "st_get_destroy_state (traced_store st) p = traced (EvDestroyState p) (st_get_destroy_state st p)"
  by (simp_all add: traced_store_def)

text \<open>No operation of the store touches the part \<open>f\<close> of the state.\<close>

definition store_keeps :: "'s PoolStateStore \<Rightarrow> ('s \<Rightarrow> 'b) \<Rightarrow> bool" where
  "store_keeps st f \<longleftrightarrow>
     (\<forall>p. keeps (st_try_take_idle st p) f) \<and>
     (\<forall>g p t. st_try_take_idle_min_ttl st = Some g \<longrightarrow> keeps (g p t) f) \<and>
     (\<forall>p x. keeps (st_put_idle st p x) f) \<and> (\<forall>p x. keeps (st_remove_idle st p x) f) \<and>
     (\<forall>p w t. keeps (st_try_acquire_primary_lock st p w t) f) \<and>
     (\<forall>p w t. keeps (st_renew_primary_lock st p w t) f) \<and>
     (\<forall>p w. keeps (st_release_primary_lock st p w) f) \<and>
     (\<forall>p t. keeps (st_reap_expired_idle st p t) f) \<and>
     (\<forall>g p t m. st_reap_expired_idle_min_ttl st = Some g \<longrightarrow> keeps (g p t m) f) \<and>
     (\<forall>p. keeps (st_snapshot_counters st p) f) \<and> (\<forall>p. keeps (st_snapshot_idle_entries st p) f) \<and>
     (\<forall>p. keeps (st_get_max_idle st p) f) \<and> (\<forall>p n. keeps (st_set_max_idle st p n) f) \<and>
     (\<forall>p t. keeps (st_set_idle_entry_ttl st p t) f) \<and> (\<forall>p. keeps (st_get_destroy_state st p) f) \<and>
     (\<forall>p w. keeps (st_begin_destroy st p w) f) \<and> (\<forall>p. keeps (st_clear_pool_state st p) f) \<and>
     (\<forall>p w t. keeps (st_mark_destroyed st p w t) f)"

lemma store_keepsD:
  assumes "store_keeps st f"
  shows "keeps (st_try_take_idle st p) f" "keeps (st_put_idle st p x) f" "keeps (st_remove_idle st p x) f"
    "keeps (st_try_acquire_primary_lock st p w t) f" "keeps (st_renew_primary_lock st p w t) f"
    "keeps (st_release_primary_lock st p w) f" "keeps (st_snapshot_counters st p) f"
    "keeps (st_snapshot_idle_entries st p) f" "keeps (st_get_max_idle st p) f" "keeps (st_set_max_idle st p n) f"
    "keeps (st_set_idle_entry_ttl st p t) f" "keeps (st_get_destroy_state st p) f"
  using assms by (simp_all add: store_keeps_def)

lemma keeps_take_min: "store_keeps st f \<Longrightarrow> keeps (try_take_idle_with_min_ttl st p t) f"
  unfolding try_take_idle_with_min_ttl_def Let_def
  by (auto simp: store_keeps_def split: option.splits intro!: keeps_intros)

lemma keeps_reap_min: "store_keeps st f \<Longrightarrow> keeps (reap_expired_idle_with_min_ttl st p n t) f"
  unfolding reap_expired_idle_with_min_ttl_def Let_def
  by (auto simp: store_keeps_def split: option.splits intro!: keeps_intros)

section \<open>The contract of a store\<close>

text \<open>
  What the pool, the reconciler and the pool manager rely on: \<open>idle s p\<close> is the FIFO list of the idle
  sandboxes of the namespace \<open>p\<close>, and \<open>ok\<close> the representation invariant of the store.
\<close>

locale idle_store =
  fixes store :: "'s PoolStateStore"
    and idle :: "'s \<Rightarrow> string \<Rightarrow> idle_list"
    and ok :: "'s \<Rightarrow> bool"
  assumes take_none:
      "ok s \<Longrightarrow> st_try_take_idle store p s = (Inr None, s') \<Longrightarrow> ok s' \<and> idle s' = (idle s)(p := [])"
    and take_some:
      "ok s \<Longrightarrow> st_try_take_idle store p s = (Inr (Some x), s') \<Longrightarrow>
         ok s' \<and> (\<exists>sk t ys. idle s p = sk @ (x, t) # ys \<and> idle s' = (idle s)(p := ys))"
    and put:
      "ok s \<Longrightarrow> st_put_idle store p x s = (Inr (), s') \<Longrightarrow>
         ok s' \<and> x \<in> fst ` set (idle s' p) \<and> fst ` set (idle s' p) \<subseteq> insert x (fst ` set (idle s p)) \<and>
         length (idle s' p) \<le> Suc (length (idle s p)) \<and> (\<forall>q. q \<noteq> p \<longrightarrow> idle s' q = idle s q)"
    and counters:
      "ok s \<Longrightarrow> st_snapshot_counters store p s = (Inr n, s') \<Longrightarrow>
         ok s' \<and> idle_count n = length (idle s' p) \<and> set (idle s' p) \<subseteq> set (idle s p) \<and>
         (\<forall>q. q \<noteq> p \<longrightarrow> idle s' q = idle s q)"
    and remove:
      "ok s \<Longrightarrow> st_remove_idle store p x s = (Inr (), s') \<Longrightarrow>
         ok s' \<and> idle s' = (idle s)(p := filter (\<lambda>(y, t). y \<noteq> x) (idle s p))"
begin

lemma take_shrinks:
  assumes "ok s" and "st_try_take_idle store p s = (Inr (Some x), s')"
  shows "length (idle s' p) < length (idle s p)"
  using take_some [OF assms] by auto

lemma take_other: "ok s \<Longrightarrow> st_try_take_idle store p s = (Inr r, s') \<Longrightarrow> q \<noteq> p \<Longrightarrow> idle s' q = idle s q"
  using take_none [of s p s'] take_some [of s p _ s'] by (cases r) auto

lemma take_member:
  "ok s \<Longrightarrow> st_try_take_idle store p s = (Inr (Some x), s') \<Longrightarrow> x \<in> fst ` set (idle s p)"
  using take_some by force

lemma take_subset:
  "ok s \<Longrightarrow> st_try_take_idle store p s = (Inr r, s') \<Longrightarrow> set (idle s' p) \<subseteq> set (idle s p)"
  using take_none [of s p s'] take_some [of s p _ s'] by (cases r) auto

end

text \<open>A store whose takes do not raise.\<close>

locale reliable_idle_store = idle_store +
  assumes take_total: "ok s \<Longrightarrow> \<exists>r s'. st_try_take_idle store p s = (Inr r, s')"

text \<open>A store seen through a reference: the object is part of a larger state.\<close>

definition zoom_store :: "('s, 'w) ref \<Rightarrow> 'w PoolStateStore \<Rightarrow> 's PoolStateStore" where
  "zoom_store r st =
     \<lparr>st_try_take_idle = (\<lambda>p. zoom r (st_try_take_idle st p)),
      st_try_take_idle_min_ttl = map_option (\<lambda>f p t. zoom r (f p t)) (st_try_take_idle_min_ttl st),
      st_put_idle = (\<lambda>p x. zoom r (st_put_idle st p x)),
      st_remove_idle = (\<lambda>p x. zoom r (st_remove_idle st p x)),
      st_try_acquire_primary_lock = (\<lambda>p w t. zoom r (st_try_acquire_primary_lock st p w t)),
      st_renew_primary_lock = (\<lambda>p w t. zoom r (st_renew_primary_lock st p w t)),
      st_release_primary_lock = (\<lambda>p w. zoom r (st_release_primary_lock st p w)),
      st_reap_expired_idle = (\<lambda>p t. zoom r (st_reap_expired_idle st p t)),
      st_reap_expired_idle_min_ttl =
        map_option (\<lambda>f p t m. zoom r (f p t m)) (st_reap_expired_idle_min_ttl st),
      st_snapshot_counters = (\<lambda>p. zoom r (st_snapshot_counters st p)),
      st_snapshot_idle_entries = (\<lambda>p. zoom r (st_snapshot_idle_entries st p)),
      st_get_max_idle = (\<lambda>p. zoom r (st_get_max_idle st p)),
      st_set_max_idle = (\<lambda>p n. zoom r (st_set_max_idle st p n)),
      st_set_idle_entry_ttl = (\<lambda>p t. zoom r (st_set_idle_entry_ttl st p t)),
      st_get_destroy_state = (\<lambda>p. zoom r (st_get_destroy_state st p)),
      st_begin_destroy = (\<lambda>p w. zoom r (st_begin_destroy st p w)),
      st_clear_pool_state = (\<lambda>p. zoom r (st_clear_pool_state st p)),
      st_mark_destroyed = (\<lambda>p w t. zoom r (st_mark_destroyed st p w t))\<rparr>"

end
