(* ===== verification/Pool_Store.thy ===== *)
theory Pool_Store
  imports Idle_Spec
begin

text \<open>
  The single-process store \<open>InMemoryPoolStateStore\<close> (\<open>opensandbox/_pool_store.py\<close>). Every
  method holds the store's lock for its whole body, so it is one atomic computation over the
  record \<open>InMemoryPoolStateStore\<close>. A reading of \<open>_now()\<close> is an argument; \<open>put_idle\<close>, whose
  body reads the clock twice, takes both readings.
  \<open>entries\<close> is an insertion-ordered dictionary, \<open>queue\<close> the FIFO deque of ids.
\<close>

section \<open>State\<close>

record PoolIdleState =
  entries :: "(string \<times> IdleEntry) list"
  queue :: "string list"

record DestroyStateEntry =
  de_state :: PoolDestroyState
  de_expires_at :: "datetime option"
  de_owner_id :: string

record InMemoryPoolStateStore =
  default_idle_ttl :: timedelta
  idle_ttl_by_pool :: "string \<rightharpoonup> timedelta"
  destroy_state_by_pool :: "string \<rightharpoonup> DestroyStateEntry"
  pools :: "string \<rightharpoonup> PoolIdleState"

type_synonym 'a im = "(InMemoryPoolStateStore, 'a) M"

definition empty_idle_state :: PoolIdleState where
  "empty_idle_state = \<lparr>entries = [], queue = []\<rparr>"

definition im_init :: InMemoryPoolStateStore where
  "im_init = \<lparr>default_idle_ttl = seconds (24 * 3600), idle_ttl_by_pool = Map.empty,
              destroy_state_by_pool = Map.empty, pools = Map.empty\<rparr>"

abbreviation set_pool :: "string \<Rightarrow> PoolIdleState \<Rightarrow> InMemoryPoolStateStore \<Rightarrow> InMemoryPoolStateStore" where
  "set_pool p st s \<equiv> s\<lparr>pools := (pools s)(p \<mapsto> st)\<rparr>"

section \<open>Operations\<close>

definition im_get_destroy_state :: "datetime \<Rightarrow> string \<Rightarrow> PoolDestroyState im" where
  "im_get_destroy_state now p s =
     (case destroy_state_by_pool s p of
        None \<Rightarrow> (Inr ACTIVE, s)
      | Some e \<Rightarrow>
          (case de_expires_at e of
             Some t \<Rightarrow>
               if t \<le> now
               then (Inr ACTIVE, s\<lparr>destroy_state_by_pool := (destroy_state_by_pool s)(p := None)\<rparr>)
               else (Inr (de_state e), s)
           | None \<Rightarrow> (Inr (de_state e), s)))"

definition namespace_is :: "PoolDestroyState \<Rightarrow> string \<Rightarrow> string" where
  "namespace_is d p = ''Pool namespace is '' @ PoolDestroyState_value d @ '': pool_name='' @ p"

definition im_reject_if_destroyed_locked :: "datetime \<Rightarrow> string \<Rightarrow> unit im" where
  "im_reject_if_destroyed_locked now p =
     bindM (im_get_destroy_state now p) (\<lambda>d.
       if d \<noteq> ACTIVE then raiseM (PoolDestroyedException (namespace_is d p)) else returnM ())"

text \<open>The loop \<open>while state.queue\<close> of \<open>try_take_idle\<close>.\<close>

fun take_loop :: "datetime \<Rightarrow> (string \<times> IdleEntry) list \<Rightarrow> string list \<Rightarrow> string option \<times> PoolIdleState" where
  "take_loop now es [] = (None, \<lparr>entries = es, queue = []\<rparr>)"
| "take_loop now es (x # q) =
     (case map_of es x of
        None \<Rightarrow> take_loop now es q
      | Some e \<Rightarrow>
          if now < expires_at e then (Some x, \<lparr>entries = AList.delete x es, queue = q\<rparr>)
          else take_loop now (AList.delete x es) q)"

definition im_try_take_idle :: "datetime \<Rightarrow> string \<Rightarrow> string option im" where
  "im_try_take_idle now p s =
     (case pools s p of
        None \<Rightarrow> (Inr None, s)
      | Some st \<Rightarrow>
          (case take_loop now (entries st) (queue st) of (r, st') \<Rightarrow> (Inr r, set_pool p st' s)))"

fun take_min_loop ::
  "datetime \<Rightarrow> datetime \<Rightarrow> string list \<Rightarrow> (string \<times> IdleEntry) list \<Rightarrow> string list \<Rightarrow>
     TakeIdleResult \<times> PoolIdleState" where
  "take_min_loop now cutoff disc es [] =
     (\<lparr>taken_id = None, discarded_alive_sandbox_ids = disc\<rparr>, \<lparr>entries = es, queue = []\<rparr>)"
| "take_min_loop now cutoff disc es (x # q) =
     (case map_of es x of
        None \<Rightarrow> take_min_loop now cutoff disc es q
      | Some e \<Rightarrow>
          let es' = AList.delete x es in
          if cutoff < expires_at e
          then (\<lparr>taken_id = Some x, discarded_alive_sandbox_ids = disc\<rparr>,
                \<lparr>entries = es', queue = q\<rparr>)
          else if now < expires_at e
          then take_min_loop now cutoff (disc @ [x]) es' q
          else take_min_loop now cutoff disc es' q)"

definition im_try_take_idle_min_ttl :: "datetime \<Rightarrow> string \<Rightarrow> timedelta \<Rightarrow> TakeIdleResult im" where
  "im_try_take_idle_min_ttl now p min_ttl =
     (if min_ttl \<le> 0
      then bindM (im_try_take_idle now p) (\<lambda>r.
             returnM \<lparr>taken_id = r, discarded_alive_sandbox_ids = []\<rparr>)
      else (\<lambda>s. case pools s p of
                  None \<Rightarrow> (Inr \<lparr>taken_id = None, discarded_alive_sandbox_ids = []\<rparr>, s)
                | Some st \<Rightarrow>
                    (case take_min_loop now (now + min_ttl) [] (entries st) (queue st) of
                       (r, st') \<Rightarrow> (Inr r, set_pool p st' s))))"

definition im_resolve_idle_ttl :: "InMemoryPoolStateStore \<Rightarrow> string \<Rightarrow> timedelta" where
  "im_resolve_idle_ttl s p = (case idle_ttl_by_pool s p of None \<Rightarrow> default_idle_ttl s | Some t \<Rightarrow> t)"

definition put_entry :: "string \<Rightarrow> datetime \<Rightarrow> PoolIdleState \<Rightarrow> PoolIdleState" where
  "put_entry x t st =
     (if map_of (entries st) x = None
      then \<lparr>entries = entries st @ [(x, \<lparr>ent_sandbox_id = x, expires_at = t\<rparr>)],
            queue = queue st @ [x]\<rparr>
      else st)"

definition im_put_idle :: "datetime \<Rightarrow> datetime \<Rightarrow> string \<Rightarrow> string \<Rightarrow> unit im" where
  "im_put_idle now1 now2 p x =
     (if is_blank x then raiseM (ValueError ''sandbox_id must not be blank'')
      else thenM (im_reject_if_destroyed_locked now1 p)
             (modifyM (\<lambda>s.
                let st = (case pools s p of None \<Rightarrow> empty_idle_state | Some st \<Rightarrow> st)
                in set_pool p (put_entry x (now2 + im_resolve_idle_ttl s p) st) s)))"

definition im_remove_idle :: "string \<Rightarrow> string \<Rightarrow> unit im" where
  "im_remove_idle p x =
     modifyM (\<lambda>s. case pools s p of
                    None \<Rightarrow> s
                  | Some st \<Rightarrow> set_pool p (st\<lparr>entries := AList.delete x (entries st)\<rparr>) s)"

definition im_try_acquire_primary_lock ::
  "datetime \<Rightarrow> string \<Rightarrow> string \<Rightarrow> timedelta \<Rightarrow> bool im" where
  "im_try_acquire_primary_lock now p owner ttl =
     bindM (im_get_destroy_state now p) (\<lambda>d. returnM (d = ACTIVE))"

definition im_renew_primary_lock ::
  "datetime \<Rightarrow> string \<Rightarrow> string \<Rightarrow> timedelta \<Rightarrow> bool im" where
  "im_renew_primary_lock now p owner ttl =
     bindM (im_get_destroy_state now p) (\<lambda>d. returnM (d = ACTIVE))"

definition im_release_primary_lock :: "string \<Rightarrow> string \<Rightarrow> unit im" where
  "im_release_primary_lock p owner = returnM ()"

definition in_entries :: "(string \<times> IdleEntry) list \<Rightarrow> string \<Rightarrow> bool" where
  "in_entries es x \<longleftrightarrow> map_of es x \<noteq> None"

definition reap_entries :: "datetime \<Rightarrow> PoolIdleState \<Rightarrow> PoolIdleState" where
  "reap_entries now st =
     (let expired = map fst (filter (\<lambda>(_, e). expires_at e \<le> now) (entries st));
          es = fold AList.delete expired (entries st)
      in if expired = [] then st
         else \<lparr>entries = es, queue = filter (in_entries es) (queue st)\<rparr>)"

definition im_reap_locked :: "string \<Rightarrow> datetime \<Rightarrow> unit im" where
  "im_reap_locked p now =
     modifyM (\<lambda>s. case pools s p of None \<Rightarrow> s | Some st \<Rightarrow> set_pool p (reap_entries now st) s)"

definition im_reap_expired_idle :: "string \<Rightarrow> datetime \<Rightarrow> unit im" where
  "im_reap_expired_idle p now = im_reap_locked p now"

text \<open>The loop over \<open>list(state.entries.items())\<close>: the items are a copy, the dictionary shrinks.\<close>

fun reap_min_loop ::
  "datetime \<Rightarrow> datetime \<Rightarrow> (string \<times> IdleEntry) list \<Rightarrow> (string \<times> IdleEntry) list \<Rightarrow> string list \<Rightarrow>
     (string \<times> IdleEntry) list \<times> string list" where
  "reap_min_loop now cutoff [] es disc = (es, disc)"
| "reap_min_loop now cutoff ((x, e) # items) es disc =
     (if cutoff < expires_at e then reap_min_loop now cutoff items es disc
      else reap_min_loop now cutoff items (AList.delete x es)
             (if now < expires_at e then disc @ [x] else disc))"

definition im_reap_expired_idle_min_ttl ::
  "string \<Rightarrow> datetime \<Rightarrow> timedelta \<Rightarrow> string list im" where
  "im_reap_expired_idle_min_ttl p now min_ttl =
     (if min_ttl \<le> 0 then thenM (im_reap_expired_idle p now) (returnM [])
      else (\<lambda>s. case pools s p of
                  None \<Rightarrow> (Inr [], s)
                | Some st \<Rightarrow>
                    (case reap_min_loop now (now + min_ttl) (entries st) (entries st) [] of
                       (es, disc) \<Rightarrow>
                         (Inr disc,
                          set_pool p \<lparr>entries = es, queue = filter (in_entries es) (queue st)\<rparr> s))))"

definition im_snapshot_counters :: "datetime \<Rightarrow> string \<Rightarrow> StoreCounters im" where
  "im_snapshot_counters now p =
     thenM (im_reap_locked p now)
       (getM (\<lambda>s. \<lparr>idle_count =
                (case pools s p of None \<Rightarrow> 0 | Some st \<Rightarrow> length (entries st))\<rparr>))"

definition im_snapshot_idle_entries :: "datetime \<Rightarrow> string \<Rightarrow> IdleEntry list im" where
  "im_snapshot_idle_entries now p =
     thenM (im_reap_locked p now)
       (getM (\<lambda>s. case pools s p of
                    None \<Rightarrow> []
                  | Some st \<Rightarrow> List.map_filter (map_of (entries st)) (queue st)))"

definition im_get_max_idle :: "string \<Rightarrow> int option im" where
  "im_get_max_idle p = returnM None"

definition im_set_max_idle :: "datetime \<Rightarrow> string \<Rightarrow> int \<Rightarrow> unit im" where
  "im_set_max_idle now p n = im_reject_if_destroyed_locked now p"

definition im_set_idle_entry_ttl :: "datetime \<Rightarrow> string \<Rightarrow> timedelta \<Rightarrow> unit im" where
  "im_set_idle_entry_ttl now p ttl =
     (if ttl \<le> 0 then raiseM (ValueError ''idle_ttl must be positive'')
      else thenM (im_reject_if_destroyed_locked now p)
             (modifyM (\<lambda>s. s\<lparr>idle_ttl_by_pool := (idle_ttl_by_pool s)(p \<mapsto> ttl)\<rparr>)))"

definition im_begin_destroy :: "datetime \<Rightarrow> string \<Rightarrow> string \<Rightarrow> unit im" where
  "im_begin_destroy now p owner =
     (if is_blank owner then raiseM (ValueError ''owner_id must not be blank'')
      else bindM (im_get_destroy_state now p) (\<lambda>d.
             if d = DESTROYED
             then raiseM (PoolDestroyedException
                    (''Pool namespace is already DESTROYED: pool_name='' @ p))
             else modifyM (\<lambda>s. s\<lparr>destroy_state_by_pool := (destroy_state_by_pool s)
                    (p \<mapsto> \<lparr>de_state = DESTROYING, de_expires_at = None, de_owner_id = owner\<rparr>)\<rparr>)))"

definition im_clear_pool_state :: "string \<Rightarrow> unit im" where
  "im_clear_pool_state p =
     modifyM (\<lambda>s. s\<lparr>pools := (pools s)(p := None),
                     idle_ttl_by_pool := (idle_ttl_by_pool s)(p := None)\<rparr>)"

definition im_mark_destroyed :: "datetime \<Rightarrow> string \<Rightarrow> string \<Rightarrow> timedelta option \<Rightarrow> unit im" where
  "im_mark_destroyed now p owner ttl =
     (if is_blank owner then raiseM (ValueError ''owner_id must not be blank'')
      else if (case ttl of None \<Rightarrow> False | Some t \<Rightarrow> t \<le> 0)
      then raiseM (ValueError ''tombstone_ttl must be positive'')
      else modifyM (\<lambda>s. s\<lparr>destroy_state_by_pool := (destroy_state_by_pool s)
             (p \<mapsto> \<lparr>de_state = DESTROYED,
                    de_expires_at = (case ttl of None \<Rightarrow> None | Some t \<Rightarrow> Some (now + t)),
                    de_owner_id = owner\<rparr>)\<rparr>))"

section \<open>Abstraction: the FIFO list of idle sandboxes\<close>

text \<open>
  The abstract state of a pool namespace is the list of idle sandboxes with their expiry, oldest
  first. A queue slot whose id has no entry (left behind by \<open>remove_idle\<close>) contributes nothing,
  and of several slots of one id the first counts: it is the one a take would pop.
\<close>

fun abs_queue :: "string list \<Rightarrow> (string \<rightharpoonup> IdleEntry) \<Rightarrow> idle_list" where
  "abs_queue [] m = []"
| "abs_queue (x # q) m =
     (case m x of None \<Rightarrow> abs_queue q m | Some e \<Rightarrow> (x, expires_at e) # abs_queue q (m(x := None)))"

definition idle_of :: "PoolIdleState \<Rightarrow> idle_list" where
  "idle_of st = abs_queue (queue st) (map_of (entries st))"

definition im_idle :: "InMemoryPoolStateStore \<Rightarrow> string \<Rightarrow> idle_list" where
  "im_idle s p = (case pools s p of None \<Rightarrow> [] | Some st \<Rightarrow> idle_of st)"

text \<open>The representation invariant: one entry per id, stored under its own id, and queued.\<close>

definition idle_inv :: "PoolIdleState \<Rightarrow> bool" where
  "idle_inv st \<longleftrightarrow>
     distinct (map fst (entries st)) \<and>
     (\<forall>(x, e) \<in> set (entries st). ent_sandbox_id e = x) \<and>
     fst ` set (entries st) \<subseteq> set (queue st)"

definition im_inv :: "InMemoryPoolStateStore \<Rightarrow> bool" where
  "im_inv s \<longleftrightarrow> (\<forall>p st. pools s p = Some st \<longrightarrow> idle_inv st)"

lemma abs_queue_cong: "(\<And>x. x \<in> set q \<Longrightarrow> m x = n x) \<Longrightarrow> abs_queue q m = abs_queue q n"
proof (induction q arbitrary: m n)
  case (Cons x q)
  have "abs_queue q m = abs_queue q n" by (rule Cons.IH) (simp add: Cons.prems)
  moreover have "abs_queue q (m(x := None)) = abs_queue q (n(x := None))"
    by (rule Cons.IH) (simp add: Cons.prems)
  ultimately show ?case using Cons.prems [of x] by (simp split: option.splits)
qed simp

lemma abs_queue_append:
  "abs_queue (q @ r) m = abs_queue q m @ abs_queue r (\<lambda>x. if x \<in> set q then None else m x)"
proof (induction q arbitrary: m)
  case (Cons x q)
  show ?case
  proof (cases "m x")
    case None
    then have "(\<lambda>y. if y \<in> set (x # q) then None else m y) = (\<lambda>y. if y \<in> set q then None else m y)"
      by auto
    with None Cons.IH [of m] show ?thesis by simp
  next
    case (Some e)
    have "(\<lambda>y. if y \<in> set (x # q) then None else m y)
        = (\<lambda>y. if y \<in> set q then None else (m(x := None)) y)"
      by auto
    with Some Cons.IH [of "m(x := None)"] show ?thesis by (simp del: fun_upd_apply)
  qed
qed simp

definition keep_if :: "(string \<Rightarrow> datetime \<Rightarrow> bool) \<Rightarrow> (string \<rightharpoonup> IdleEntry) \<Rightarrow> (string \<rightharpoonup> IdleEntry)" where
  "keep_if P m x = (case m x of None \<Rightarrow> None | Some e \<Rightarrow> if P x (expires_at e) then Some e else None)"

lemma keep_if_upd: "keep_if P (m(x := None)) = (keep_if P m)(x := None)"
  by (rule ext) (simp add: keep_if_def)

lemma abs_queue_keep_if: "abs_queue q (keep_if P m) = filter (\<lambda>(x, t). P x t) (abs_queue q m)"
proof (induction q arbitrary: m)
  case (Cons x q)
  show ?case
  proof (cases "m x")
    case None
    then have "keep_if P m x = None" by (simp add: keep_if_def)
    with None show ?thesis by (simp add: Cons.IH)
  next
    case (Some e)
    show ?thesis
    proof (cases "P x (expires_at e)")
      case True
      with Some have "keep_if P m x = Some e" by (simp add: keep_if_def)
      with Some True Cons.IH [of "m(x := None)"] show ?thesis
        by (simp add: keep_if_upd del: fun_upd_apply)
    next
      case False
      with Some have none: "keep_if P m x = None" by (simp add: keep_if_def)
      then have "(keep_if P m)(x := None) = keep_if P m" by (simp add: fun_upd_idem)
      with Some False none Cons.IH [of "m(x := None)"] show ?thesis
        by (simp add: keep_if_upd del: fun_upd_apply)
    qed
  qed
qed simp

lemma abs_queue_delete: "abs_queue q (m(x := None)) = filter (\<lambda>(y, t). y \<noteq> x) (abs_queue q m)"
  unfolding abs_queue_keep_if [symmetric] by (rule abs_queue_cong) (simp add: keep_if_def split: option.splits)

lemma abs_queue_drop_unknown:
  "(\<And>x. x \<in> set q \<Longrightarrow> \<not> P x \<Longrightarrow> m x = None) \<Longrightarrow> abs_queue (filter P q) m = abs_queue q m"
  by (induction q arbitrary: m) (auto split: option.splits)

lemma in_abs_queue:
  "(x, t) \<in> set (abs_queue q m) \<longleftrightarrow> x \<in> set q \<and> (\<exists>e. m x = Some e \<and> t = expires_at e)"
  by (induction q arbitrary: m) (auto split: option.splits if_splits)

lemma distinct_abs_queue: "distinct (map fst (abs_queue q m))"
  by (induction q arbitrary: m) (auto simp: in_abs_queue split: option.splits)

lemma distinct_im_idle: "distinct (map fst (im_idle s p))"
  by (simp add: im_idle_def idle_of_def distinct_abs_queue split: option.splits)

lemma fst_abs_queue: "fst ` set (abs_queue q m) = set q \<inter> dom m"
proof (rule set_eqI)
  fix x
  show "x \<in> fst ` set (abs_queue q m) \<longleftrightarrow> x \<in> set q \<inter> dom m"
    using in_abs_queue [of x _ q m] by (auto simp: image_iff Bex_def)
qed

lemma fst_idle_of: "idle_inv st \<Longrightarrow> fst ` set (idle_of st) = fst ` set (entries st)"
  by (auto simp: idle_of_def fst_abs_queue dom_map_of idle_inv_def)

lemma length_idle_of:
  assumes "idle_inv st"
  shows "length (idle_of st) = length (entries st)"
proof -
  have "distinct (map fst (idle_of st))" by (simp add: idle_of_def distinct_abs_queue)
  moreover have "distinct (map fst (entries st))" using assms by (simp add: idle_inv_def)
  moreover have "set (map fst (idle_of st)) = set (map fst (entries st))"
    using fst_idle_of [OF assms] by simp
  ultimately have "length (map fst (idle_of st)) = length (map fst (entries st))"
    by (metis distinct_card)
  then show ?thesis by simp
qed

section \<open>The loops refine the abstract operations\<close>

lemma take_loop_refines:
  "take_loop now es q = (r, st') \<Longrightarrow> take_spec now (abs_queue q (map_of es)) = (r, idle_of st')"
proof (induction now es q rule: take_loop.induct)
  case (2 now es x q)
  show ?case
  proof (cases "map_of es x")
    case None
    with "2.IH"(1) "2.prems" show ?thesis by simp
  next
    case (Some e)
    with "2.IH"(2) "2.prems" show ?thesis
      by (auto simp: alive_def idle_of_def simp del: fun_upd_apply split: if_splits)
  qed
qed (auto simp: idle_of_def)

definition prepend_discarded :: "string list \<Rightarrow> TakeIdleResult \<Rightarrow> TakeIdleResult" where
  "prepend_discarded d r = r\<lparr>discarded_alive_sandbox_ids := d @ discarded_alive_sandbox_ids r\<rparr>"

lemma take_min_loop_refines:
  "take_min_loop now c d es q = (r, st') \<Longrightarrow>
   \<exists>r0. take_min_spec now c (abs_queue q (map_of es)) = (r0, idle_of st') \<and> r = prepend_discarded d r0"
proof (induction now c d es q rule: take_min_loop.induct)
  case (2 now c d es x q)
  show ?case
  proof (cases "map_of es x")
    case None
    with "2.IH"(1) "2.prems" show ?thesis by simp
  next
    case (Some e)
    note IH = "2.IH"(2,3) [OF Some refl]
    let ?es = "AList.delete x es"
    consider (take) "c < expires_at e"
      | (short) "\<not> c < expires_at e" "now < expires_at e"
      | (dead) "\<not> c < expires_at e" "\<not> now < expires_at e" by blast
    then show ?thesis
    proof cases
      case take
      with Some "2.prems" show ?thesis
        by (auto simp: alive_def idle_of_def prepend_discarded_def simp del: fun_upd_apply)
    next
      case short
      with Some "2.prems" have "take_min_loop now c (d @ [x]) ?es q = (r, st')" by simp
      from IH(1) [OF short this] obtain r0 where
        "take_min_spec now c (abs_queue q (map_of ?es)) = (r0, idle_of st')" "r = prepend_discarded (d @ [x]) r0"
        by blast
      with Some short show ?thesis
        by (simp add: alive_def prepend_discarded_def del: fun_upd_apply)
    next
      case dead
      with Some "2.prems" have "take_min_loop now c d ?es q = (r, st')" by simp
      from IH(2) [OF dead this] obtain r0 where
        "take_min_spec now c (abs_queue q (map_of ?es)) = (r0, idle_of st')" "r = prepend_discarded d r0"
        by blast
      with Some dead show ?thesis
        by (simp add: alive_def prepend_discarded_def del: fun_upd_apply)
    qed
  qed
qed (auto simp: idle_of_def prepend_discarded_def)

lemma put_entry_fresh:
  "map_of (entries st) x = None \<Longrightarrow> x \<notin> set (queue st) \<Longrightarrow>
   idle_of (put_entry x t st) = idle_of st @ [(x, t)]"
proof -
  assume none: "map_of (entries st) x = None" and fresh: "x \<notin> set (queue st)"
  let ?e = "\<lparr>ent_sandbox_id = x, expires_at = t\<rparr>"
  have "map_of (entries st @ [(x, ?e)]) = (map_of (entries st))(x \<mapsto> ?e)"
    using none by (auto simp: map_add_def fun_eq_iff split: option.splits)
  moreover have "abs_queue (queue st) ((map_of (entries st))(x \<mapsto> ?e)) = abs_queue (queue st) (map_of (entries st))"
    using fresh by (intro abs_queue_cong) auto
  ultimately show ?thesis
    using none fresh by (simp add: put_entry_def idle_of_def abs_queue_append)
qed

lemma put_entry_present: "map_of (entries st) x = Some e \<Longrightarrow> put_entry x t st = st"
  by (simp add: put_entry_def)

lemma idle_of_remove:
  "idle_of (st\<lparr>entries := AList.delete x (entries st)\<rparr>) = filter (\<lambda>(y, t). y \<noteq> x) (idle_of st)"
  by (simp add: idle_of_def abs_queue_delete del: fun_upd_apply)

lemma map_of_fold_delete: "map_of (fold AList.delete ks es) x = (if x \<in> set ks then None else map_of es x)"
  by (induction ks arbitrary: es) auto

lemma fold_delete_keep_if:
  assumes "distinct (map fst es)"
  shows "map_of (fold AList.delete (map fst (filter (\<lambda>(_, e). \<not> P (expires_at e)) es)) es) =
    keep_if (\<lambda>_ t. P t) (map_of es)"
proof (rule ext)
  fix x
  have "x \<in> set (map fst (filter (\<lambda>(_, e). \<not> P (expires_at e)) es)) \<longleftrightarrow>
      (\<exists>e. map_of es x = Some e \<and> \<not> P (expires_at e))"
    using assms by (auto simp: image_iff map_of_eq_Some_iff)
  then show "map_of (fold AList.delete (map fst (filter (\<lambda>(_, e). \<not> P (expires_at e)) es)) es) x =
      keep_if (\<lambda>_ t. P t) (map_of es) x"
    by (auto simp: map_of_fold_delete keep_if_def simp del: set_map set_filter split: option.splits)
qed

lemma idle_of_filtered:
  assumes "distinct (map fst (entries st))"
    and "es = fold AList.delete (map fst (filter (\<lambda>(_, e). \<not> P (expires_at e)) (entries st))) (entries st)"
  shows "idle_of \<lparr>entries = es, queue = filter (in_entries es) (queue st)\<rparr> =
    filter (\<lambda>(_, t). P t) (idle_of st)"
proof -
  have m: "map_of es = keep_if (\<lambda>_ t. P t) (map_of (entries st))"
    unfolding assms(2) by (rule fold_delete_keep_if [OF assms(1)])
  have "abs_queue (filter (in_entries es) (queue st)) (map_of es) = abs_queue (queue st) (map_of es)"
    by (rule abs_queue_drop_unknown) (simp add: in_entries_def)
  then show ?thesis by (simp add: idle_of_def m abs_queue_keep_if)
qed

lemma idle_of_reap:
  assumes "idle_inv st"
  shows "idle_of (reap_entries now st) = filter (alive now) (idle_of st)"
proof -
  let ?k = "map fst (filter (\<lambda>(_, e). \<not> now < expires_at e) (entries st))"
  have d: "distinct (map fst (entries st))" using assms by (simp add: idle_inv_def)
  have k: "map fst (filter (\<lambda>(_, e). expires_at e \<le> now) (entries st)) = ?k"
    by (simp add: not_less)
  have al: "(\<lambda>(_, t). now < t) = alive now" by (auto simp: alive_def)
  show ?thesis
  proof (cases "?k = []")
    case True
    then have "map_of (entries st) = keep_if (\<lambda>_ t. now < t) (map_of (entries st))"
      using fold_delete_keep_if [OF d, of "\<lambda>t. now < t"] by simp
    then have "idle_of st = filter (alive now) (idle_of st)"
      unfolding al [symmetric] idle_of_def using abs_queue_keep_if [of "queue st" "\<lambda>_ t. now < t"] by metis
    with True show ?thesis by (simp only: reap_entries_def k Let_def if_True simp_thms)
  next
    case False
    then show ?thesis
      using idle_of_filtered [OF d refl, of "\<lambda>t. now < t"]
      by (simp only: reap_entries_def k Let_def if_False simp_thms al)
  qed
qed

lemma reap_min_loop_eq:
  "reap_min_loop now c items es d =
     (fold AList.delete (map fst (filter (\<lambda>(_, e). \<not> c < expires_at e) items)) es,
      d @ map fst (filter (\<lambda>(_, e). \<not> c < expires_at e \<and> now < expires_at e) items))"
  by (induction now c items es d rule: reap_min_loop.induct) auto

section \<open>The representation invariant\<close>

lemma fst_set_delete: "fst ` set (AList.delete x es) = fst ` set es - {x}"
  by (auto simp: AList.delete_eq image_iff)

lemma set_fold_delete: "set (fold AList.delete ks es) = {p \<in> set es. fst p \<notin> set ks}"
  by (induction ks arbitrary: es) (auto simp: AList.delete_eq)

lemma distinct_fold_delete:
  "distinct (map fst es) \<Longrightarrow> distinct (map fst (fold AList.delete ks es))"
  by (induction ks arbitrary: es) (auto simp: distinct_delete)

lemma idle_inv_empty [simp]: "idle_inv empty_idle_state"
  by (simp add: idle_inv_def empty_idle_state_def)

lemma idle_inv_delete:
  "idle_inv st \<Longrightarrow> idle_inv (st\<lparr>entries := AList.delete x (entries st)\<rparr>)"
  by (auto simp: idle_inv_def AList.delete_eq distinct_map_filter)

lemma idle_inv_pop:
  "idle_inv \<lparr>entries = es, queue = x # q\<rparr> \<Longrightarrow> idle_inv \<lparr>entries = AList.delete x es, queue = q\<rparr>"
  by (auto simp: idle_inv_def AList.delete_eq distinct_map_filter)

lemma idle_inv_skip:
  "idle_inv \<lparr>entries = es, queue = x # q\<rparr> \<Longrightarrow> map_of es x = None \<Longrightarrow> idle_inv \<lparr>entries = es, queue = q\<rparr>"
  by (auto simp: idle_inv_def map_of_eq_None_iff)

lemma take_loop_inv:
  "idle_inv \<lparr>entries = es, queue = q\<rparr> \<Longrightarrow> take_loop now es q = (r, st') \<Longrightarrow> idle_inv st'"
  by (induction now es q rule: take_loop.induct)
     (auto split: option.splits if_splits dest: idle_inv_pop idle_inv_skip)

lemma take_min_loop_inv:
  "idle_inv \<lparr>entries = es, queue = q\<rparr> \<Longrightarrow> take_min_loop now c d es q = (r, st') \<Longrightarrow> idle_inv st'"
  by (induction now c d es q rule: take_min_loop.induct)
     (auto simp: Let_def split: option.splits if_splits dest: idle_inv_pop idle_inv_skip)

lemma idle_inv_eta: "idle_inv st \<Longrightarrow> idle_inv \<lparr>entries = entries st, queue = queue st\<rparr>"
  by (cases st) simp

lemma put_entry_inv: "idle_inv st \<Longrightarrow> idle_inv (put_entry x t st)"
  by (auto simp: idle_inv_def put_entry_def map_of_eq_None_iff image_iff)

lemma idle_inv_filtered:
  "idle_inv st \<Longrightarrow> es = fold AList.delete ks (entries st) \<Longrightarrow>
   idle_inv \<lparr>entries = es, queue = filter (in_entries es) (queue st)\<rparr>"
  by (auto simp: idle_inv_def distinct_fold_delete set_fold_delete in_entries_def map_of_eq_None_iff image_iff)

lemma reap_entries_inv: "idle_inv st \<Longrightarrow> idle_inv (reap_entries now st)"
  by (simp add: reap_entries_def Let_def idle_inv_filtered)

lemma im_inv_set_pool: "im_inv s \<Longrightarrow> idle_inv st \<Longrightarrow> im_inv (set_pool p st s)"
  by (simp add: im_inv_def)

lemma im_inv_pool: "im_inv s \<Longrightarrow> pools s p = Some st \<Longrightarrow> idle_inv st"
  by (simp add: im_inv_def)

lemma im_inv_pools_cong: "pools s' = pools s \<Longrightarrow> im_inv s \<Longrightarrow> im_inv s'"
  by (simp add: im_inv_def)

lemma keeps_get_destroy_state [keeps_intros]:
  "keeps (im_get_destroy_state now p) pools"
  "keeps (im_get_destroy_state now p) idle_ttl_by_pool"
  "keeps (im_get_destroy_state now p) default_idle_ttl"
  by (auto simp: keeps_def im_get_destroy_state_def split: option.splits)

lemma keeps_reject_if_destroyed [keeps_intros]:
  "keeps (im_reject_if_destroyed_locked now p) pools"
  unfolding im_reject_if_destroyed_locked_def by (intro keeps_intros)

lemma keeps_pools_im_inv: "keeps m pools \<Longrightarrow> preserves m im_inv"
  by (auto simp: keeps_def preserves_def intro: im_inv_pools_cong)

lemma preserves_reject [preserves_intros]: "preserves (im_reject_if_destroyed_locked now p) im_inv"
  by (intro keeps_pools_im_inv keeps_intros)

lemma preserves_get_destroy_state [preserves_intros]: "preserves (im_get_destroy_state now p) im_inv"
  by (intro keeps_pools_im_inv keeps_intros)

lemma preserves_reap_locked [preserves_intros]: "preserves (im_reap_locked p now) im_inv"
  unfolding im_reap_locked_def
  by (intro preserves_intros) (auto split: option.splits intro!: im_inv_set_pool reap_entries_inv dest: im_inv_pool)

lemma preserves_take [preserves_intros]: "preserves (im_try_take_idle now p) im_inv"
  by (auto simp: preserves_def im_try_take_idle_def split: option.splits prod.splits
      intro!: im_inv_set_pool dest: im_inv_pool take_loop_inv [OF idle_inv_eta])

lemma preserves_take_min [preserves_intros]: "preserves (im_try_take_idle_min_ttl now p m) im_inv"
proof (cases "m \<le> 0")
  case True
  then show ?thesis unfolding im_try_take_idle_min_ttl_def by (auto intro: preserves_intros)
next
  case False
  then show ?thesis
    by (auto simp: preserves_def im_try_take_idle_min_ttl_def split: option.splits prod.splits
        intro!: im_inv_set_pool dest: im_inv_pool take_min_loop_inv [OF idle_inv_eta])
qed

lemma preserves_put [preserves_intros]: "preserves (im_put_idle t1 t2 p x) im_inv"
  unfolding im_put_idle_def Let_def
  by (intro preserves_intros)
     (auto split: option.splits intro!: im_inv_set_pool put_entry_inv dest: im_inv_pool)

lemma preserves_remove [preserves_intros]: "preserves (im_remove_idle p x) im_inv"
  unfolding im_remove_idle_def
  by (intro preserves_intros)
     (auto split: option.splits intro!: im_inv_set_pool idle_inv_delete dest: im_inv_pool)

lemma preserves_reap_min [preserves_intros]: "preserves (im_reap_expired_idle_min_ttl p now m) im_inv"
proof (cases "m \<le> 0")
  case True
  then show ?thesis
    unfolding im_reap_expired_idle_min_ttl_def im_reap_expired_idle_def by (auto intro: preserves_intros)
next
  case False
  then show ?thesis
    by (auto simp: preserves_def im_reap_expired_idle_min_ttl_def reap_min_loop_eq split: option.splits
        intro!: im_inv_set_pool idle_inv_filtered dest: im_inv_pool)
qed

lemma preserves_clear [preserves_intros]: "preserves (im_clear_pool_state p) im_inv"
  unfolding im_clear_pool_state_def by (intro preserves_intros) (auto simp: im_inv_def)

text \<open>One rule per public method; the arguments and the clock readings are arbitrary.\<close>

inductive im_step :: "InMemoryPoolStateStore \<Rightarrow> InMemoryPoolStateStore \<Rightarrow> bool" where
  take: "im_step s (snd (im_try_take_idle now p s))"
| take_min: "im_step s (snd (im_try_take_idle_min_ttl now p m s))"
| put: "im_step s (snd (im_put_idle now now' p x s))"
| remove: "im_step s (snd (im_remove_idle p x s))"
| lock: "im_step s (snd (im_try_acquire_primary_lock now p w ttl s))"
| renew: "im_step s (snd (im_renew_primary_lock now p w ttl s))"
| release: "im_step s (snd (im_release_primary_lock p w s))"
| reap: "im_step s (snd (im_reap_expired_idle p now s))"
| reap_min: "im_step s (snd (im_reap_expired_idle_min_ttl p now m s))"
| counters: "im_step s (snd (im_snapshot_counters now p s))"
| entries: "im_step s (snd (im_snapshot_idle_entries now p s))"
| get_max: "im_step s (snd (im_get_max_idle p s))"
| set_max: "im_step s (snd (im_set_max_idle now p n s))"
| set_ttl: "im_step s (snd (im_set_idle_entry_ttl now p ttl s))"
| get_destroy: "im_step s (snd (im_get_destroy_state now p s))"
| begin_destroy: "im_step s (snd (im_begin_destroy now p w s))"
| clear: "im_step s (snd (im_clear_pool_state p s))"
| mark: "im_step s (snd (im_mark_destroyed now p w tomb s))"

inductive im_reachable :: "InMemoryPoolStateStore \<Rightarrow> bool" where
  init: "im_reachable im_init"
| step: "im_reachable s \<Longrightarrow> im_step s t \<Longrightarrow> im_reachable t"

lemmas im_frame_defs =
  im_try_acquire_primary_lock_def im_renew_primary_lock_def im_release_primary_lock_def
  im_reap_expired_idle_def im_snapshot_counters_def im_snapshot_idle_entries_def im_get_max_idle_def
  im_set_max_idle_def im_set_idle_entry_ttl_def im_begin_destroy_def im_mark_destroyed_def

lemma im_step_inv: "im_step s t \<Longrightarrow> im_inv s \<Longrightarrow> im_inv t"
  by (induction rule: im_step.induct)
     (erule preservesD [rotated], (unfold im_frame_defs)?,
      intro preserves_intros; simp add: im_inv_def)+

lemma im_reachable_inv: "im_reachable s \<Longrightarrow> im_inv s"
proof (induction rule: im_reachable.induct)
  case init
  show ?case by (simp add: im_inv_def im_init_def)
qed (rule im_step_inv)

section \<open>Properties of the in-memory store\<close>

lemma im_idle_set_pool: "im_idle (set_pool p st s) = (im_idle s)(p := idle_of st)"
  by (auto simp: im_idle_def)

lemma im_idle_none: "pools s p = None \<Longrightarrow> im_idle s p = []"
  and im_idle_some: "pools s p = Some st \<Longrightarrow> im_idle s p = idle_of st"
  by (simp_all add: im_idle_def)

lemma im_take_refines:
  "\<exists>s'. im_try_take_idle now p s = (Inr (fst (take_spec now (im_idle s p))), s') \<and>
        im_idle s' = (im_idle s)(p := snd (take_spec now (im_idle s p)))"
proof (cases "pools s p")
  case None
  then show ?thesis by (simp add: im_try_take_idle_def im_idle_none fun_upd_idem)
next
  case (Some st)
  obtain r st' where t: "take_loop now (entries st) (queue st) = (r, st')" by fastforce
  with take_loop_refines [OF t] Some show ?thesis
    by (auto simp: im_try_take_idle_def im_idle_some im_idle_set_pool simp flip: idle_of_def)
qed

lemma im_take_min_refines:
  assumes "0 < m"
  shows "\<exists>s'. im_try_take_idle_min_ttl now p m s =
      (Inr (fst (take_min_spec now (now + m) (im_idle s p))), s') \<and>
      im_idle s' = (im_idle s)(p := snd (take_min_spec now (now + m) (im_idle s p)))"
proof (cases "pools s p")
  case None
  with assms show ?thesis by (simp add: im_try_take_idle_min_ttl_def im_idle_none fun_upd_idem)
next
  case (Some st)
  obtain r st' where t: "take_min_loop now (now + m) [] (entries st) (queue st) = (r, st')" by fastforce
  with take_min_loop_refines [OF t] Some assms show ?thesis
    by (auto simp: im_try_take_idle_min_ttl_def im_idle_some im_idle_set_pool prepend_discarded_def
        simp flip: idle_of_def)
qed

lemma im_remove_refines:
  "\<exists>s'. im_remove_idle p x s = (Inr (), s') \<and>
        im_idle s' = (im_idle s)(p := filter (\<lambda>(y, t). y \<noteq> x) (im_idle s p))"
proof (cases "pools s p")
  case None
  then show ?thesis by (simp add: im_remove_idle_def im_idle_none fun_upd_idem)
next
  case (Some st)
  then show ?thesis
    by (simp add: im_remove_idle_def im_idle_some im_idle_set_pool idle_of_remove del: fun_upd_apply)
qed

lemma im_reap_refines:
  assumes "im_inv s"
  shows "\<exists>s'. im_reap_locked p now s = (Inr (), s') \<and>
        im_idle s' = (im_idle s)(p := filter (alive now) (im_idle s p))"
proof (cases "pools s p")
  case None
  then show ?thesis by (simp add: im_reap_locked_def im_idle_none fun_upd_idem)
next
  case (Some st)
  with im_inv_pool [OF assms Some] show ?thesis
    by (simp add: im_reap_locked_def im_idle_some im_idle_set_pool idle_of_reap del: fun_upd_apply)
qed

lemma im_get_destroy_state_Inr: "\<exists>d s'. im_get_destroy_state now p s = (Inr d, s')"
  by (auto simp: im_get_destroy_state_def split: option.splits)

lemma im_idle_pools_cong: "pools s' = pools s \<Longrightarrow> im_idle s' = im_idle s"
  by (simp add: im_idle_def fun_eq_iff)


lemma im_snapshot_counters_run:
  assumes "im_inv s"
  shows "\<exists>s'. im_snapshot_counters now p s =
      (Inr \<lparr>idle_count = length (filter (alive now) (im_idle s p))\<rparr>, s') \<and>
      im_idle s' = (im_idle s)(p := filter (alive now) (im_idle s p))"
proof -
  obtain s' where r: "im_reap_locked p now s = (Inr (), s')"
    and i: "im_idle s' = (im_idle s)(p := filter (alive now) (im_idle s p))"
    using im_reap_refines [OF assms] by blast
  have "im_inv s'" using preserves_run [OF preserves_reap_locked assms r] .
  then have "(case pools s' p of None \<Rightarrow> 0 | Some st \<Rightarrow> length (entries st)) = length (im_idle s' p)"
    by (auto simp: im_idle_def length_idle_of dest: im_inv_pool split: option.splits)
  with r i show ?thesis by (simp add: im_snapshot_counters_def thenM_run)
qed

text \<open>
  Claim C24. In every state the store can reach, through any sequence of its public methods with
  any arguments and clock readings, each idle sandbox has exactly one entry, filed under its own
  id, and that id is queued, so \<open>snapshot_counters\<close> reports exactly the number of idle sandboxes
  that have not expired and drops the expired ones.
\<close>

theorem im_reachable_counts_alive:
  assumes "im_reachable s"
  shows "im_inv s \<and>
    (\<exists>s'. im_snapshot_counters now p s =
        (Inr \<lparr>idle_count = length (filter (alive now) (im_idle s p))\<rparr>, s') \<and>
        im_idle s' = (im_idle s)(p := filter (alive now) (im_idle s p)))"
  using im_reachable_inv [OF assms] im_snapshot_counters_run by blast


lemma im_demo_reachable: "im_reachable (snd (im_put_idle 0 0 p x im_init))"
  by (rule im_reachable.step [OF im_reachable.init im_step.put])

lemmas im_eval =
  im_put_idle_def im_reject_if_destroyed_locked_def im_get_destroy_state_def im_init_def put_entry_def
  im_resolve_idle_ttl_def empty_idle_state_def im_idle_def idle_of_def is_blank_def py_strip_def
  py_lstrip_def py_isspace_def bindM_run thenM_run

lemma im_demo_idle [simp]:
  "im_idle (snd (im_put_idle 0 0 ''p'' ''a'' im_init)) ''p'' = [(''a'', 86400000000)]"
  by (simp add: im_eval)

theorem im_reachable_counts_alive_witness:
  "\<exists>s'. im_snapshot_counters 5 ''p'' (snd (im_put_idle 0 0 ''p'' ''a'' im_init)) = (Inr \<lparr>idle_count = 1\<rparr>, s')"
  using im_reachable_counts_alive [OF im_demo_reachable [of "''p''" "''a''"], where now = 5 and p = "''p''"]
  by (auto simp: alive_def)


text \<open>
  Claim C26. A take with a positive minimum TTL never loses a live sandbox: the one it returns outlives
  \<open>now + min_ttl\<close>, every id it reports as discarded is still alive on the server but too close to its
  expiry, and every idle sandbox that has not expired is returned, reported or still idle afterwards.
\<close>

theorem im_take_min_ttl_accounts_for_live:
  assumes "im_try_take_idle_min_ttl now p m s = (Inr r, s')" and "0 < m"
  shows "(\<forall>x. taken_id r = Some x \<longrightarrow> (\<exists>t. (x, t) \<in> set (im_idle s p) \<and> now + m < t)) \<and>
    (\<forall>x\<in>set (discarded_alive_sandbox_ids r). \<exists>t. (x, t) \<in> set (im_idle s p) \<and> now < t \<and> t \<le> now + m) \<and>
    (\<forall>x t. (x, t) \<in> set (im_idle s p) \<and> now < t \<longrightarrow>
       taken_id r = Some x \<or> x \<in> set (discarded_alive_sandbox_ids r) \<or> (x, t) \<in> set (im_idle s' p))"
proof -
  let ?xs = "im_idle s p"
  define ys where "ys = snd (take_min_spec now (now + m) ?xs)"
  have spec: "take_min_spec now (now + m) ?xs = (r, ys)" and idle: "im_idle s' p = ys"
    using im_take_min_refines [OF assms(2), of now p s] assms(1) by (auto simp: ys_def)
  from take_min_spec_split [OF spec] obtain sk where sk: "\<forall>x\<in>set sk. \<not> alive (now + m) x"
    and d: "discarded_alive_sandbox_ids r = map fst (filter (alive now) sk)"
    and c: "(taken_id r = None \<and> ys = [] \<and> ?xs = sk) \<or>
      (\<exists>y. taken_id r = Some (fst y) \<and> alive (now + m) y \<and> ?xs = sk @ y # ys)"
    by blast
  have disc: "x \<in> set (discarded_alive_sandbox_ids r) \<longleftrightarrow> (\<exists>t. (x, t) \<in> set sk \<and> now < t)" for x
    by (force simp: d alive_def image_iff)
  have sk': "t \<le> now + m" if "(x, t) \<in> set sk" for x t using sk that by (force simp: alive_def)
  from c show ?thesis
  proof
    assume "taken_id r = None \<and> ys = [] \<and> ?xs = sk"
    then show ?thesis using disc sk' by fastforce
  next
    assume "\<exists>y. taken_id r = Some (fst y) \<and> alive (now + m) y \<and> ?xs = sk @ y # ys"
    then show ?thesis using disc sk' idle by (fastforce simp: alive_def)
  qed
qed

theorem im_take_min_ttl_accounts_for_live_witness:
  "\<exists>r s'. im_try_take_idle_min_ttl 5 ''p'' 7 (snd (im_put_idle 0 0 ''p'' ''a'' im_init)) = (Inr r, s') \<and>
     (\<exists>t. (''a'', t) \<in> set (im_idle (snd (im_put_idle 0 0 ''p'' ''a'' im_init)) ''p'') \<and> 12 < t)"
proof -
  let ?s = "snd (im_put_idle 0 0 ''p'' ''a'' im_init)"
  obtain s' where r: "im_try_take_idle_min_ttl 5 ''p'' 7 ?s =
      (Inr (fst (take_min_spec 5 12 (im_idle ?s ''p''))), s')"
    using im_take_min_refines [of 7 5 "''p''" ?s] by auto
  have a: "taken_id (fst (take_min_spec 5 12 (im_idle ?s ''p''))) = Some ''a''"
    by (simp add: alive_def)
  show ?thesis
    using im_take_min_ttl_accounts_for_live [OF r] r a by (auto simp del: take_min_spec_simps im_demo_idle)
qed

definition queued :: "InMemoryPoolStateStore \<Rightarrow> string \<Rightarrow> string set" where
  "queued s p = (case pools s p of None \<Rightarrow> {} | Some st \<Rightarrow> set (queue st))"

lemma im_put_active:
  assumes "im_inv s" and "\<not> is_blank x" and "im_get_destroy_state t1 p s = (Inr ACTIVE, s1)"
  shows "\<exists>s'. im_put_idle t1 t2 p x s = (Inr (), s') \<and>
    (x \<in> fst ` set (im_idle s p) \<longrightarrow> im_idle s' = im_idle s) \<and>
    (x \<notin> queued s p \<longrightarrow>
       im_idle s' = (im_idle s)(p := im_idle s p @ [(x, t2 + im_resolve_idle_ttl s p)]))"
proof -
  define st where "st = (case pools s p of None \<Rightarrow> empty_idle_state | Some st \<Rightarrow> st)"
  have p1: "pools s1 = pools s"
    using keeps_get_destroy_state(1) assms(3) by (rule keeps_run)
  have "idle_ttl_by_pool s1 = idle_ttl_by_pool s" and "default_idle_ttl s1 = default_idle_ttl s"
    using keeps_get_destroy_state(2) assms(3) by (rule keeps_run)
       (use keeps_get_destroy_state(3) assms(3) in \<open>rule keeps_run\<close>)
  then have ttl: "im_resolve_idle_ttl s1 p = im_resolve_idle_ttl s p" by (simp add: im_resolve_idle_ttl_def split: option.splits)
  have run: "im_put_idle t1 t2 p x s =
      (Inr (), set_pool p (put_entry x (t2 + im_resolve_idle_ttl s p) st) s1)"
    using assms(2,3) by (simp add: im_put_idle_def im_reject_if_destroyed_locked_def thenM_run bindM_run
        p1 ttl st_def)
  have inv: "idle_inv st" using assms(1) by (auto simp: st_def im_inv_def split: option.splits)
  have idle: "im_idle s p = idle_of st" and q: "queued s p = set (queue st)"
    by (auto simp: im_idle_def st_def queued_def empty_idle_state_def idle_of_def split: option.splits)
  have s1: "im_idle s1 = im_idle s" using p1 by (rule im_idle_pools_cong)
  have "im_idle s' = im_idle s" if "x \<in> fst ` set (im_idle s p)"
    and "s' = set_pool p (put_entry x (t2 + im_resolve_idle_ttl s p) st) s1" for s'
  proof -
    from that(1) have "x \<in> dom (map_of (entries st))"
      unfolding idle fst_idle_of [OF inv] dom_map_of .
    then obtain e where "map_of (entries st) x = Some e" by blast
    then show ?thesis using that(2) by (simp add: put_entry_present im_idle_set_pool s1 flip: idle)
  qed
  moreover have "im_idle s' = (im_idle s)(p := im_idle s p @ [(x, t2 + im_resolve_idle_ttl s p)])"
    if "x \<notin> queued s p" and "s' = set_pool p (put_entry x (t2 + im_resolve_idle_ttl s p) st) s1" for s'
  proof -
    have "map_of (entries st) x = None"
      using that(1) inv by (auto simp: q idle_inv_def map_of_eq_None_iff)
    with that show ?thesis by (simp add: q idle im_idle_set_pool s1 put_entry_fresh)
  qed
  ultimately show ?thesis using run by blast
qed

text \<open>
  Every branch of \<open>put_idle\<close>: a blank id is a \<open>ValueError\<close> and changes nothing; in a
  namespace that is being or has been destroyed it raises \<open>PoolDestroyedException\<close> and the idle lists
  are unchanged; otherwise it succeeds, leaves an id that is already idle (with its old expiry) where it
  is, and appends a new id at the end of the FIFO with expiry now plus the pool's idle TTL.
\<close>

theorem im_put_idle_branches:
  assumes "im_reachable s" and "im_get_destroy_state t1 p s = (Inr d, s1)"
  shows "(is_blank x \<longrightarrow> im_put_idle t1 t2 p x s = (Inl (ValueError ''sandbox_id must not be blank''), s)) \<and>
    (\<not> is_blank x \<and> d \<noteq> ACTIVE \<longrightarrow>
       im_put_idle t1 t2 p x s = (Inl (PoolDestroyedException (namespace_is d p)), s1) \<and>
       im_idle s1 = im_idle s) \<and>
    (\<not> is_blank x \<and> d = ACTIVE \<longrightarrow>
       (\<exists>s'. im_put_idle t1 t2 p x s = (Inr (), s') \<and>
         (x \<in> fst ` set (im_idle s p) \<longrightarrow> im_idle s' = im_idle s) \<and>
         (x \<notin> queued s p \<longrightarrow>
            im_idle s' = (im_idle s)(p := im_idle s p @ [(x, t2 + im_resolve_idle_ttl s p)]))))"
proof (intro conjI impI)
  show "im_put_idle t1 t2 p x s = (Inl (ValueError ''sandbox_id must not be blank''), s)" if "is_blank x"
    using that by (simp add: im_put_idle_def)
next
  assume "\<not> is_blank x \<and> d \<noteq> ACTIVE"
  then show "im_put_idle t1 t2 p x s = (Inl (PoolDestroyedException (namespace_is d p)), s1)"
    using assms(2) by (simp add: im_put_idle_def im_reject_if_destroyed_locked_def thenM_run bindM_run)
  show "im_idle s1 = im_idle s"
    using keeps_run [OF keeps_get_destroy_state(1) assms(2)] by (rule im_idle_pools_cong)
next
  assume "\<not> is_blank x \<and> d = ACTIVE"
  then show "\<exists>s'. im_put_idle t1 t2 p x s = (Inr (), s') \<and>
         (x \<in> fst ` set (im_idle s p) \<longrightarrow> im_idle s' = im_idle s) \<and>
         (x \<notin> queued s p \<longrightarrow>
            im_idle s' = (im_idle s)(p := im_idle s p @ [(x, t2 + im_resolve_idle_ttl s p)]))"
    using im_put_active [OF im_reachable_inv [OF assms(1)]] assms(2) by blast
qed

theorem im_put_idle_branches_witness:
  "\<exists>s'. im_put_idle 0 3 ''p'' ''b'' (snd (im_put_idle 0 0 ''p'' ''a'' im_init)) = (Inr (), s') \<and>
        im_idle s' ''p'' = [(''a'', 86400000000), (''b'', 86400000003)]"
proof -
  let ?s = "snd (im_put_idle 0 0 ''p'' ''a'' im_init)"
  have d: "im_get_destroy_state 0 ''p'' ?s = (Inr ACTIVE, ?s)" by (simp add: im_eval)
  have "\<not> is_blank ''b''" and "''b'' \<notin> queued ?s ''p''" and "im_resolve_idle_ttl ?s ''p'' = 86400000000"
    by (simp_all add: im_eval queued_def)
  then show ?thesis
    using im_put_idle_branches [OF im_demo_reachable d, where x = "''b''" and ?t2.0 = 3] by auto
qed

text \<open>
  Two behaviours that the Redis store does not share. An id that was removed and is put again is queued
  twice, so \<open>snapshot_idle_entries\<close> lists it twice while the counter says one; and a put of an id whose
  entry has expired reports success but leaves the expired entry, so the sandbox cannot be taken.
\<close>

lemma im_readded_id_listed_twice:
  "let s = snd (im_put_idle 0 0 ''p'' ''a'' (snd (im_remove_idle ''p'' ''a''
             (snd (im_put_idle 0 0 ''p'' ''a'' im_init)))))
   in fst (im_snapshot_counters 5 ''p'' s) = Inr \<lparr>idle_count = 1\<rparr> \<and>
      map_sum id (map ent_sandbox_id) (fst (im_snapshot_idle_entries 5 ''p'' s)) = Inr [''a'', ''a'']"
  by code_simp

lemma im_put_keeps_expired_entry:
  "let now = seconds (25 * 3600); s = snd (im_put_idle 0 0 ''p'' ''a'' im_init)
   in fst (im_put_idle now now ''p'' ''a'' s) = Inr () \<and>
      fst (im_try_take_idle now ''p'' (snd (im_put_idle now now ''p'' ''a'' s))) = Inr None"
  by code_simp

section \<open>The store as an object with a clock\<close>

text \<open>
  The operations with the clock they read: the readings are an arbitrary sequence, consumed in order.
\<close>

record ClockedStore =
  cs_store :: InMemoryPoolStateStore
  cs_readings :: "nat \<Rightarrow> datetime"
  cs_next :: nat

definition cs_now :: "(ClockedStore, datetime) M" where
  "cs_now w = (Inr (cs_readings w (cs_next w)), w\<lparr>cs_next := Suc (cs_next w)\<rparr>)"

abbreviation on_store :: "'a im \<Rightarrow> (ClockedStore, 'a) M" where
  "on_store m \<equiv> zoom (cs_store, cs_store_update) m"

definition im_store :: "ClockedStore PoolStateStore" where
  "im_store =
     \<lparr>st_try_take_idle = (\<lambda>p. bindM cs_now (\<lambda>t. on_store (im_try_take_idle t p))),
      st_try_take_idle_min_ttl = Some (\<lambda>p m. bindM cs_now (\<lambda>t. on_store (im_try_take_idle_min_ttl t p m))),
      st_put_idle = (\<lambda>p x. bindM cs_now (\<lambda>t. bindM cs_now (\<lambda>u. on_store (im_put_idle t u p x)))),
      st_remove_idle = (\<lambda>p x. on_store (im_remove_idle p x)),
      st_try_acquire_primary_lock =
        (\<lambda>p w d. bindM cs_now (\<lambda>t. on_store (im_try_acquire_primary_lock t p w d))),
      st_renew_primary_lock = (\<lambda>p w d. bindM cs_now (\<lambda>t. on_store (im_renew_primary_lock t p w d))),
      st_release_primary_lock = (\<lambda>p w. on_store (im_release_primary_lock p w)),
      st_reap_expired_idle = (\<lambda>p t. on_store (im_reap_expired_idle p t)),
      st_reap_expired_idle_min_ttl =
        Some (\<lambda>p t m. bindM (on_store (im_reap_expired_idle_min_ttl p t m)) (\<lambda>ids. returnM (Some ids))),
      st_snapshot_counters = (\<lambda>p. bindM cs_now (\<lambda>t. on_store (im_snapshot_counters t p))),
      st_snapshot_idle_entries = (\<lambda>p. bindM cs_now (\<lambda>t. on_store (im_snapshot_idle_entries t p))),
      st_get_max_idle = (\<lambda>p. on_store (im_get_max_idle p)),
      st_set_max_idle = (\<lambda>p n. bindM cs_now (\<lambda>t. on_store (im_set_max_idle t p n))),
      st_set_idle_entry_ttl = (\<lambda>p d. bindM cs_now (\<lambda>t. on_store (im_set_idle_entry_ttl t p d))),
      st_get_destroy_state = (\<lambda>p. bindM cs_now (\<lambda>t. on_store (im_get_destroy_state t p))),
      st_begin_destroy = (\<lambda>p w. bindM cs_now (\<lambda>t. on_store (im_begin_destroy t p w))),
      st_clear_pool_state = (\<lambda>p. on_store (im_clear_pool_state p)),
      st_mark_destroyed = (\<lambda>p w d. bindM cs_now (\<lambda>t. on_store (im_mark_destroyed t p w d)))\<rparr>"

definition cs_idle :: "ClockedStore \<Rightarrow> string \<Rightarrow> idle_list" where
  "cs_idle w = im_idle (cs_store w)"

definition cs_ok :: "ClockedStore \<Rightarrow> bool" where
  "cs_ok w \<longleftrightarrow> im_inv (cs_store w)"

lemma length_idle_of_card: "length (idle_of st) = card (fst ` set (idle_of st))"
  unfolding idle_of_def using distinct_card [OF distinct_abs_queue] by (metis length_map set_map)

lemma put_entry_idle:
  assumes "idle_inv st"
  shows "fst ` set (idle_of (put_entry x t st)) = insert x (fst ` set (idle_of st))"
    and "length (idle_of (put_entry x t st)) \<le> Suc (length (idle_of st))"
proof -
  show *: "fst ` set (idle_of (put_entry x t st)) = insert x (fst ` set (idle_of st))"
    unfolding fst_idle_of [OF assms] fst_idle_of [OF put_entry_inv [OF assms]]
    by (auto simp: put_entry_def map_of_eq_None_iff dest: map_of_SomeD)
  show "length (idle_of (put_entry x t st)) \<le> Suc (length (idle_of st))"
    unfolding length_idle_of_card * by (simp add: card_insert_le_m1 card_insert_if)
qed

lemma im_put_laws:
  assumes "im_inv s" and "im_put_idle t u p x s = (Inr (), s')"
  shows "fst ` set (im_idle s' p) = insert x (fst ` set (im_idle s p))"
    and "length (im_idle s' p) \<le> Suc (length (im_idle s p))" and "q \<noteq> p \<Longrightarrow> im_idle s' q = im_idle s q"
proof -
  obtain s1 v where s1: "pools s1 = pools s"
    and s': "s' = set_pool p (put_entry x v (case pools s p of None \<Rightarrow> empty_idle_state | Some st \<Rightarrow> st)) s1"
    using assms(2) keeps_run [OF keeps_reject_if_destroyed(1)]
    by (fastforce simp: im_put_idle_def thenM_run split: if_splits prod.splits sum.splits)
  define st where "st = (case pools s p of None \<Rightarrow> empty_idle_state | Some st \<Rightarrow> st)"
  have st: "idle_inv st" using assms(1) by (auto simp: st_def im_inv_def split: option.splits)
  have i: "im_idle s p = idle_of st"
    by (auto simp: im_idle_def st_def empty_idle_state_def idle_of_def split: option.splits)
  have "im_idle s' = (im_idle s)(p := idle_of (put_entry x v st))"
    using im_idle_set_pool im_idle_pools_cong [OF s1] by (simp add: s' st_def)
  then show "fst ` set (im_idle s' p) = insert x (fst ` set (im_idle s p))"
    and "length (im_idle s' p) \<le> Suc (length (im_idle s p))" and "q \<noteq> p \<Longrightarrow> im_idle s' q = im_idle s q"
    using put_entry_idle [OF st] by (simp_all add: i)
qed

lemmas cs_defs = im_store_def cs_now_def zoom_def bindM_run cs_idle_def cs_ok_def

lemma cs_step:
  assumes "zoom (cs_store, cs_store_update) m w = (r, w')"
  shows "m (cs_store w) = (r, cs_store w')"
  using assms by (auto simp: zoom_def split: prod.splits)

lemma im_store_sel:
  "st_try_take_idle im_store p = bindM cs_now (\<lambda>t. on_store (im_try_take_idle t p))"
  "st_put_idle im_store p x = bindM cs_now (\<lambda>t. bindM cs_now (\<lambda>u. on_store (im_put_idle t u p x)))"
  "st_remove_idle im_store p x = on_store (im_remove_idle p x)"
  "st_snapshot_counters im_store p = bindM cs_now (\<lambda>t. on_store (im_snapshot_counters t p))"
  by (simp_all add: im_store_def)

lemma cs_now_step:
  assumes "bindM cs_now f w = (r, w')"
  obtains t w1 where "f t w1 = (r, w')" and "cs_store w1 = cs_store w"
  using assms by (auto simp: bindM_run cs_now_def)

lemma cs_take_laws:
  assumes "st_try_take_idle im_store p w = (r, w')"
  shows "\<exists>now. r = Inr (fst (take_spec now (cs_idle w p))) \<and>
    cs_idle w' = (cs_idle w)(p := snd (take_spec now (cs_idle w p))) \<and> (cs_ok w \<longrightarrow> cs_ok w')"
proof -
  from assms obtain t w1 where "on_store (im_try_take_idle t p) w1 = (r, w')" and w1: "cs_store w1 = cs_store w"
    unfolding im_store_sel by (rule cs_now_step)
  then have m: "im_try_take_idle t p (cs_store w) = (r, cs_store w')" using cs_step by fastforce
  show ?thesis
    using im_take_refines [of t p "cs_store w"] m preserves_run [OF preserves_take _ m]
    by (intro exI [of _ t]) (auto simp: cs_idle_def cs_ok_def)
qed

interpretation cs: reliable_idle_store im_store cs_idle cs_ok
proof
  fix w w' p
  assume ok: "cs_ok w" and take: "st_try_take_idle im_store p w = (Inr None, w')"
  obtain now where f: "fst (take_spec now (cs_idle w p)) = None"
    and i: "cs_idle w' = (cs_idle w)(p := snd (take_spec now (cs_idle w p)))" and ok': "cs_ok w'"
    using cs_take_laws [OF take] ok by (metis sum.inject(2))
  from take_spec_split [OF prod.collapse [symmetric], of now "cs_idle w p"] f
  have "snd (take_spec now (cs_idle w p)) = []" by auto
  with i ok' show "cs_ok w' \<and> cs_idle w' = (cs_idle w)(p := [])" by simp
next
  fix w w' p x
  assume ok: "cs_ok w" and take: "st_try_take_idle im_store p w = (Inr (Some x), w')"
  obtain now where f: "fst (take_spec now (cs_idle w p)) = Some x"
    and i: "cs_idle w' = (cs_idle w)(p := snd (take_spec now (cs_idle w p)))" and ok': "cs_ok w'"
    using cs_take_laws [OF take] ok by (metis sum.inject(2))
  from take_spec_split [OF prod.collapse [symmetric], of now "cs_idle w p"] f
  obtain sk t where "cs_idle w p = sk @ (x, t) # snd (take_spec now (cs_idle w p))" by auto
  with i ok' show "cs_ok w' \<and> (\<exists>sk t ys. cs_idle w p = sk @ (x, t) # ys \<and> cs_idle w' = (cs_idle w)(p := ys))"
    by blast
next
  fix w w' p x
  assume ok: "cs_ok w" and put: "st_put_idle im_store p x w = (Inr (), w')"
  from put obtain t w0 where "bindM cs_now (\<lambda>u. on_store (im_put_idle t u p x)) w0 = (Inr (), w')"
    and w0: "cs_store w0 = cs_store w"
    unfolding im_store_sel by (rule cs_now_step)
  from this(1) obtain u w1 where "on_store (im_put_idle t u p x) w1 = (Inr (), w')" and "cs_store w1 = cs_store w"
    using w0 by (auto elim: cs_now_step)
  then have m: "im_put_idle t u p x (cs_store w) = (Inr (), cs_store w')" using cs_step by fastforce
  show "cs_ok w' \<and> x \<in> fst ` set (cs_idle w' p) \<and>
      fst ` set (cs_idle w' p) \<subseteq> insert x (fst ` set (cs_idle w p)) \<and>
      length (cs_idle w' p) \<le> Suc (length (cs_idle w p)) \<and> (\<forall>q. q \<noteq> p \<longrightarrow> cs_idle w' q = cs_idle w q)"
    using im_put_laws [OF _ m] preserves_run [OF preserves_put _ m] ok by (simp add: cs_idle_def cs_ok_def)
next
  fix w w' p n
  assume ok: "cs_ok w" and snap: "st_snapshot_counters im_store p w = (Inr n, w')"
  from snap obtain t w1 where "on_store (im_snapshot_counters t p) w1 = (Inr n, w')" and "cs_store w1 = cs_store w"
    unfolding im_store_sel by (rule cs_now_step)
  then have m: "im_snapshot_counters t p (cs_store w) = (Inr n, cs_store w')" using cs_step by fastforce
  have "preserves (im_snapshot_counters t p) im_inv"
    unfolding im_snapshot_counters_def by (intro preserves_intros)
  with ok m have "cs_ok w'" by (auto simp: cs_ok_def dest: preserves_run)
  with im_snapshot_counters_run [of "cs_store w" t p] m ok
  show "cs_ok w' \<and> idle_count n = length (cs_idle w' p) \<and> set (cs_idle w' p) \<subseteq> set (cs_idle w p) \<and>
      (\<forall>q. q \<noteq> p \<longrightarrow> cs_idle w' q = cs_idle w q)"
    by (auto simp: cs_ok_def cs_idle_def)
next
  fix w w' p x
  assume ok: "cs_ok w" and "st_remove_idle im_store p x w = (Inr (), w')"
  then have m: "im_remove_idle p x (cs_store w) = (Inr (), cs_store w')"
    unfolding im_store_sel by (auto dest: cs_step)
  then show "cs_ok w' \<and> cs_idle w' = (cs_idle w)(p := filter (\<lambda>(y, t). y \<noteq> x) (cs_idle w p))"
    using im_remove_refines [of p x "cs_store w"] preserves_run [OF preserves_remove _ m] ok
    by (simp add: cs_ok_def cs_idle_def)
next
  fix w p
  obtain r w' where take: "st_try_take_idle im_store p w = (r, w')" by (cases "st_try_take_idle im_store p w")
  then obtain a where "r = Inr a" using cs_take_laws [OF take] by blast
  with take show "\<exists>r w'. st_try_take_idle im_store p w = (Inr r, w')" by blast
qed

end
