(* ===== verification/Pool_Reconciler.thy ===== *)
theory Pool_Reconciler
  imports Pool_Store
begin

text \<open>
  The reconciliation of a pool (\<open>opensandbox/_pool_reconciler.py\<close>): the health and back-off state, the
  tick that reaps, shrinks or replenishes the idle buffer under the primary lock. The state \<open>'s\<close> is
  whatever the store, the clock and the callbacks act on; \<open>reconcile_state\<close> is the object the tick
  mutates, so it is a reference into \<open>'s\<close>. A task submitted to the warm-up executor and waited for is
  the computation \<open>submit\<close>, which raises when the executor refuses the task and otherwise returns
  the outcome the future holds; the futures of a tick are run one after the other, in submission order.
\<close>

section \<open>Health and back-off\<close>

record ReconcileState =
  rs_degraded_threshold :: int
  backoff_base :: timedelta
  backoff_max :: timedelta
  failure_count :: int
  rs_state :: PoolState
  last_error :: "string option"
  backoff_until :: "datetime option"
  backoff_attempts :: int

definition ReconcileState_init :: "int \<Rightarrow> ReconcileState" where
  "ReconcileState_init threshold =
     \<lparr>rs_degraded_threshold = threshold, backoff_base = seconds 30, backoff_max = seconds 86400,
      failure_count = 0, rs_state = HEALTHY, last_error = None, backoff_until = None,
      backoff_attempts = 0\<rparr>"

definition record_success :: "ReconcileState \<Rightarrow> ReconcileState" where
  "record_success r =
     r\<lparr>failure_count := 0,
       rs_state := (if rs_state r = DEGRADED then HEALTHY else rs_state r),
       backoff_until := None, backoff_attempts := 0, last_error := None\<rparr>"

text \<open>\<open>min(base.total_seconds() * (1 << exponent), max.total_seconds())\<close> as a \<open>timedelta\<close>.\<close>

definition backoff_delay :: "ReconcileState \<Rightarrow> timedelta" where
  "backoff_delay r =
     (let exponent = min (backoff_attempts r - 1) 30;
          delay = min (fl (total_seconds (backoff_base r) * 2 ^ nat exponent)) (total_seconds (backoff_max r))
      in timedelta_seconds delay)"

definition record_failures ::
  "('s, datetime) M \<Rightarrow> ('s, ReconcileState) ref \<Rightarrow> int \<Rightarrow> string option \<Rightarrow> ('s, unit) M" where
  "record_failures now_utc rs count error_message =
     (if count \<le> 0 then returnM ()
      else thenM (updR rs (\<lambda>r. r\<lparr>failure_count := failure_count r + count, last_error := error_message\<rparr>))
        (bindM (readR rs) (\<lambda>r.
           if rs_degraded_threshold r \<le> failure_count r
           then thenM (updR rs (\<lambda>r. r\<lparr>rs_state := DEGRADED, backoff_attempts := backoff_attempts r + 1\<rparr>))
                  (bindM (readR rs) (\<lambda>r.
                   bindM now_utc (\<lambda>t.
                     updR rs (\<lambda>r'. r'\<lparr>backoff_until := Some (t + backoff_delay r)\<rparr>))))
           else returnM ())))"

definition record_failure ::
  "('s, datetime) M \<Rightarrow> ('s, ReconcileState) ref \<Rightarrow> string option \<Rightarrow> ('s, unit) M" where
  "record_failure now_utc rs error_message = record_failures now_utc rs 1 error_message"

definition is_backoff_active :: "ReconcileState \<Rightarrow> datetime \<Rightarrow> bool" where
  "is_backoff_active r now =
     (case backoff_until r of None \<Rightarrow> False | Some until \<Rightarrow> rs_state r = DEGRADED \<and> now < until)"

section \<open>The tick\<close>

definition discard :: "(string \<Rightarrow> ('s, unit) M) \<Rightarrow> string \<Rightarrow> ('s, unit) M" where
  "discard on_discard_sandbox sandbox_id = best_effort (on_discard_sandbox sandbox_id)"

text \<open>\<open>str(config.owner_id)\<close> and \<open>int(config.warmup_concurrency or 1)\<close>.\<close>

definition owner_of :: "PoolConfig \<Rightarrow> string" where
  "owner_of c = (case owner_id c of None \<Rightarrow> ''None'' | Some w \<Rightarrow> w)"

definition warmup_of :: "PoolConfig \<Rightarrow> int" where
  "warmup_of c = (case warmup_concurrency c of None \<Rightarrow> 1 | Some n \<Rightarrow> if n = 0 then 1 else n)"

definition renew_lock :: "PoolConfig \<Rightarrow> 's PoolStateStore \<Rightarrow> ('s, bool) M" where
  "renew_lock c store = st_renew_primary_lock store (pool_name c) (owner_of c) (primary_lock_ttl c)"

text \<open>The loop of \<open>_shrink_excess_idle\<close>; it ends in a renewal only when every iteration removed one.\<close>

fun shrink_excess_idle ::
  "PoolConfig \<Rightarrow> 's PoolStateStore \<Rightarrow> (string \<Rightarrow> ('s, unit) M) \<Rightarrow> nat \<Rightarrow> ('s, unit) M" where
  "shrink_excess_idle c store on_discard 0 = thenM (renew_lock c store) (returnM ())"
| "shrink_excess_idle c store on_discard (Suc n) =
     bindM (renew_lock c store) (\<lambda>held.
       if \<not> held then returnM ()
       else bindM (st_try_take_idle store (pool_name c)) (\<lambda>taken.
              case taken of
                None \<Rightarrow> returnM ()
              | Some x \<Rightarrow> thenM (discard on_discard x) (shrink_excess_idle c store on_discard n)))"

text \<open>
  The loop over the finished futures: a task that returned no sandbox, or raised an \<open>Exception\<close>, is a
  failure; another \<open>BaseException\<close> leaves the tick.
\<close>

fun collect_results ::
  "string option result list \<Rightarrow> string list \<Rightarrow> int \<Rightarrow> string option \<Rightarrow> (string list \<times> int \<times> string option) result" where
  "collect_results [] ids failures err = Inr (ids, failures, err)"
| "collect_results (Inr (Some x) # rs) ids failures err = collect_results rs (ids @ [x]) failures err"
| "collect_results (Inr None # rs) ids failures err = collect_results rs ids (failures + 1) None"
| "collect_results (Inl e # rs) ids failures err =
     (if is_Exception e then collect_results rs ids (failures + 1) (Some (exn_str e)) else Inl e)"

fun put_created ::
  "PoolConfig \<Rightarrow> 's PoolStateStore \<Rightarrow> ('s, datetime) M \<Rightarrow> (string \<Rightarrow> ('s, unit) M) \<Rightarrow>
   ('s, ReconcileState) ref \<Rightarrow> string list \<Rightarrow> ('s, unit) M" where
  "put_created c store now_utc on_discard rs [] = returnM ()"
| "put_created c store now_utc on_discard rs (x # xs) =
     bindM (renew_lock c store) (\<lambda>held.
       if \<not> held then forM (x # xs) (discard on_discard)
       else bindM
              (exceptM
                 (thenM (st_put_idle store (pool_name c) x) (thenM (updR rs record_success) (returnM True)))
                 (\<lambda>e. thenM (record_failure now_utc rs (Some (exn_str e)))
                        (thenM (forM (x # xs) (\<lambda>y.
                            thenM (best_effort (st_remove_idle store (pool_name c) y)) (discard on_discard y)))
                         (returnM False))))
              (\<lambda>stored. if stored then put_created c store now_utc on_discard rs xs else returnM ()))"

definition replenish ::
  "PoolConfig \<Rightarrow> 's PoolStateStore \<Rightarrow> ('s, datetime) M \<Rightarrow> ('s, string option result) M \<Rightarrow>
   (string \<Rightarrow> ('s, unit) M) \<Rightarrow> ('s, ReconcileState) ref \<Rightarrow> nat \<Rightarrow> ('s, unit) M" where
  "replenish c store now_utc submit on_discard rs to_create =
     bindM (replicateM to_create submit) (\<lambda>futures.
     bindM (liftE (collect_results futures [] 0 None)) (\<lambda>(created_ids, failures, err).
     thenM (record_failures now_utc rs failures err)
       (put_created c store now_utc on_discard rs created_ids)))"

text \<open>\<open>_run_primary_replenish_once\<close> from the moment the counters are read.\<close>

definition shrink_or_replenish ::
  "PoolConfig \<Rightarrow> 's PoolStateStore \<Rightarrow> ('s, datetime) M \<Rightarrow> ('s, string option result) M \<Rightarrow>
   (string \<Rightarrow> ('s, unit) M) \<Rightarrow> ('s, ReconcileState) ref \<Rightarrow> datetime \<Rightarrow> StoreCounters \<Rightarrow> ('s, unit) M" where
  "shrink_or_replenish c store now_utc submit on_discard rs now counters =
     (let excess = max 0 (int (idle_count counters) - max_idle c);
          to_remove = min excess (warmup_of c)
      in if 0 < to_remove then shrink_excess_idle c store on_discard (nat to_remove)
         else
           let deficit = max 0 (max_idle c - int (idle_count counters));
               to_create = min deficit (warmup_of c)
           in bindM (readR rs) (\<lambda>r.
                if to_create = 0 \<or> is_backoff_active r now
                then thenM (renew_lock c store) (returnM ())
                else bindM (renew_lock c store) (\<lambda>held.
                       if \<not> held then returnM ()
                       else replenish c store now_utc submit on_discard rs (nat to_create))))"

definition run_primary_replenish_once ::
  "PoolConfig \<Rightarrow> 's PoolStateStore \<Rightarrow> ('s, datetime) M \<Rightarrow> ('s, string option result) M \<Rightarrow>
   (string \<Rightarrow> ('s, unit) M) \<Rightarrow> ('s, ReconcileState) ref \<Rightarrow> ('s, unit) M" where
  "run_primary_replenish_once c store now_utc submit on_discard rs =
     bindM now_utc (\<lambda>now.
     bindM (reap_expired_idle_with_min_ttl store (pool_name c) now (acquire_min_remaining_ttl c)) (\<lambda>discarded_alive.
     thenM (forM discarded_alive on_discard)
     (bindM (st_snapshot_counters store (pool_name c)) (\<lambda>counters.
        shrink_or_replenish c store now_utc submit on_discard rs now counters))))"

definition run_reconcile_tick ::
  "PoolConfig \<Rightarrow> 's PoolStateStore \<Rightarrow> ('s, datetime) M \<Rightarrow> ('s, string option result) M \<Rightarrow>
   (string \<Rightarrow> ('s, unit) M) \<Rightarrow> ('s, ReconcileState) ref \<Rightarrow> ('s, unit) M" where
  "run_reconcile_tick c store now_utc submit on_discard rs =
     bindM (st_try_acquire_primary_lock store (pool_name c) (owner_of c) (primary_lock_ttl c)) (\<lambda>held.
       if \<not> held then returnM ()
       else run_primary_replenish_once c store now_utc submit on_discard rs)"

section \<open>What a tick asks of its environment\<close>

text \<open>
  The tick, run with an arbitrary store, clock, executor and callback whose requests are logged.
\<close>

definition traced_submit :: "('s, string option result) M \<Rightarrow> ('s \<times> event list, string option result) M" where
  "traced_submit submit = traced (\<lambda>r. EvCreate (case r of Inl e \<Rightarrow> Inl e | Inr f \<Rightarrow> f)) submit"

definition traced_discard :: "(string \<Rightarrow> ('s, unit) M) \<Rightarrow> string \<Rightarrow> ('s \<times> event list, unit) M" where
  "traced_discard on_discard x = traced (\<lambda>_. EvDiscard x) (on_discard x)"

definition traced_tick ::
  "PoolConfig \<Rightarrow> 's PoolStateStore \<Rightarrow> ('s, datetime) M \<Rightarrow> ('s, string option result) M \<Rightarrow>
   (string \<Rightarrow> ('s, unit) M) \<Rightarrow> ('s, ReconcileState) ref \<Rightarrow> ('s \<times> event list, unit) M" where
  "traced_tick c store now_utc submit on_discard rs =
     run_reconcile_tick c (traced_store store) (silent now_utc) (traced_submit submit)
       (traced_discard on_discard) (ref_traced rs)"

definition created :: "event list \<Rightarrow> string set" where
  "created l = {x. EvCreate (Inr (Some x)) \<in> set l}"

definition evicted :: "event list \<Rightarrow> string set" where
  "evicted l = {x. \<exists>p. EvTake p (Inr (Some x)) \<in> set l \<or> (\<exists>ids. EvReap p (Inr (Some ids)) \<in> set l \<and> x \<in> set ids)}"

definition stored :: "event list \<Rightarrow> string set" where
  "stored l = {x. \<exists>p. EvPut p x (Inr ()) \<in> set l}"

definition discarded :: "event list \<Rightarrow> string set" where
  "discarded l = {x. EvDiscard x \<in> set l}"

definition accounted :: "event list \<Rightarrow> bool" where
  "accounted l \<longleftrightarrow> created l \<subseteq> stored l \<union> discarded l \<and> evicted l \<subseteq> discarded l"

fun is_write :: "event \<Rightarrow> bool" where
  "is_write (EvPut _ _ _) = True"
| "is_write (EvTake _ _) = True"
| "is_write _ = False"

fun is_held :: "PoolConfig \<Rightarrow> event \<Rightarrow> bool" where
  "is_held c (EvRenewLock p w (Inr b)) \<longleftrightarrow> b \<and> p = pool_name c \<and> w = owner_of c"
| "is_held c _ \<longleftrightarrow> False"

fun gated_from :: "PoolConfig \<Rightarrow> bool \<Rightarrow> event list \<Rightarrow> bool" where
  "gated_from c held [] \<longleftrightarrow> True"
| "gated_from c held (e # l) \<longleftrightarrow> (is_write e \<longrightarrow> held) \<and> gated_from c (is_held c e) l"

abbreviation gated :: "PoolConfig \<Rightarrow> event list \<Rightarrow> bool" where
  "gated c \<equiv> gated_from c False"

fun is_create :: "event \<Rightarrow> bool" where
  "is_create (EvCreate _) = True"
| "is_create _ = False"

fun is_take :: "event \<Rightarrow> bool" where
  "is_take (EvTake _ _) = True"
| "is_take _ = False"

definition creates :: "event list \<Rightarrow> nat" where
  "creates l = length (filter is_create l)"

definition takes :: "event list \<Rightarrow> nat" where
  "takes l = length (filter is_take l)"

lemma log_Nil [simp]:
  "created [] = {}" "evicted [] = {}" "stored [] = {}" "discarded [] = {}" "creates [] = 0" "takes [] = 0"
  by (simp_all add: created_def evicted_def stored_def discarded_def creates_def takes_def)

lemma log_append [simp]:
  "created (a @ b) = created a \<union> created b" "evicted (a @ b) = evicted a \<union> evicted b"
  "stored (a @ b) = stored a \<union> stored b" "discarded (a @ b) = discarded a \<union> discarded b"
  "creates (a @ b) = creates a + creates b" "takes (a @ b) = takes a + takes b"
  by (auto simp: created_def evicted_def stored_def discarded_def creates_def takes_def)

lemma log_Cons [simp]:
  "created (e # l) = (case e of EvCreate (Inr (Some x)) \<Rightarrow> {x} | _ \<Rightarrow> {}) \<union> created l"
  "evicted (e # l) =
     (case e of EvTake _ (Inr (Some x)) \<Rightarrow> {x} | EvReap _ (Inr (Some ids)) \<Rightarrow> set ids | _ \<Rightarrow> {}) \<union> evicted l"
  "stored (e # l) = (case e of EvPut _ x (Inr _) \<Rightarrow> {x} | _ \<Rightarrow> {}) \<union> stored l"
  "discarded (e # l) = (case e of EvDiscard x \<Rightarrow> {x} | _ \<Rightarrow> {}) \<union> discarded l"
  "creates (e # l) = (if is_create e then 1 else 0) + creates l"
  "takes (e # l) = (if is_take e then 1 else 0) + takes l"
  by (auto simp: created_def evicted_def stored_def discarded_def creates_def takes_def
      split: event.splits sum.splits option.splits)

lemma gated_from_weaken: "gated c l \<Longrightarrow> gated_from c h l"
  by (cases l) simp_all

lemma gated_from_append: "gated_from c h a \<Longrightarrow> gated c b \<Longrightarrow> gated_from c h (a @ b)"
  by (induction a arbitrary: h) (auto intro: gated_from_weaken)

definition cleanup :: "event list \<Rightarrow> bool" where
  "cleanup m \<longleftrightarrow> (\<forall>e\<in>set m. (\<exists>x. e = EvDiscard x) \<or> (\<exists>p x r. e = EvRemove p x r))"

lemma cleanup_simps [simp]:
  "cleanup []" "cleanup (a @ b) \<longleftrightarrow> cleanup a \<and> cleanup b"
  "cleanup (EvDiscard x # l) \<longleftrightarrow> cleanup l" "cleanup (EvRemove p x r # l) \<longleftrightarrow> cleanup l"
  by (auto simp: cleanup_def)

lemma cleanup_facts:
  assumes "cleanup m"
  shows "gated c m" "created m = {}" "evicted m = {}" "creates m = 0" "takes m = 0"
proof -
  have "gated_from c h m" for h
    using assms by (induction m arbitrary: h) (auto simp: cleanup_def)
  then show "gated c m" .
  show "created m = {}" "evicted m = {}" "creates m = 0" "takes m = 0"
    using assms by (auto simp: cleanup_def created_def evicted_def creates_def takes_def filter_empty_conv)
qed

lemma wp_discard:
  "wp (discard (traced_discard d) x) (\<lambda>_. grows l (\<lambda>m. m = [EvDiscard x])) (\<lambda>_. grows l cleanup) (s, l)"
  by (auto simp: discard_def traced_discard_def wp_simps intro!: wp_any)

lemma wp_discard_all:
  "wp (forM xs (discard (traced_discard d))) (\<lambda>_. grows l (\<lambda>m. cleanup m \<and> set xs \<subseteq> discarded m))
     (\<lambda>_. grows l cleanup) (s, l)"
proof (induction xs arbitrary: l s)
  case (Cons x xs)
  have *: "wp (forM xs (discard (traced_discard d))) (\<lambda>_. grows l (\<lambda>m. cleanup m \<and> set (x # xs) \<subseteq> discarded m))
     (\<lambda>_. grows l cleanup) (s, l @ [EvDiscard x])" for s
    by (rule wp_grows_step [OF Cons.IH]) (auto simp: discarded_def)
  show ?case
    by (simp add: wp_simps) (rule wp_mono [OF wp_discard [of _ _ l]]; use * in \<open>auto simp: grows_def\<close>)
qed (auto simp: wp_simps grows_def)

lemma wp_cleanup_all:
  "wp (forM xs (\<lambda>y. thenM (best_effort (traced (EvRemove p y) (rm y))) (discard (traced_discard d) y)))
     (\<lambda>_. grows l (\<lambda>m. cleanup m \<and> set xs \<subseteq> discarded m)) (\<lambda>_. grows l cleanup) (s, l)"
proof (induction xs arbitrary: l s)
  case (Cons x xs)
  let ?L = "forM xs (\<lambda>y. thenM (best_effort (traced (EvRemove p y) (rm y))) (discard (traced_discard d) y))"
  have *: "wp ?L (\<lambda>_. grows l (\<lambda>m. cleanup m \<and> set (x # xs) \<subseteq> discarded m))
     (\<lambda>_. grows l cleanup) (s, l @ [EvRemove p x r, EvDiscard x])" for s r
    by (rule wp_grows_step [OF Cons.IH]) (auto simp: discarded_def)
  have **: "wp (discard (traced_discard d) x)
     (\<lambda>_. wp ?L (\<lambda>_. grows l (\<lambda>m. cleanup m \<and> set (x # xs) \<subseteq> discarded m)) (\<lambda>_. grows l cleanup))
     (\<lambda>_. grows l cleanup) (s, l @ [EvRemove p x r])" for s r
    by (rule wp_mono [OF wp_discard [of _ _ "l @ [EvRemove p x r]"]]; use * in \<open>auto simp: grows_def\<close>)
  show ?case
    by (simp add: wp_simps) (rule wp_any; use ** in simp)
qed (auto simp: wp_simps)

text \<open>What a piece of the tick may have asked for when it raised, and when it returned.\<close>

definition bounded :: "PoolConfig \<Rightarrow> nat \<Rightarrow> nat \<Rightarrow> event list \<Rightarrow> bool" where
  "bounded c nc nt m \<longleftrightarrow> gated c m \<and> creates m \<le> nc \<and> takes m \<le> nt"

lemma cleanup_bounded: "cleanup m \<Longrightarrow> bounded c nc nt m"
  by (simp add: bounded_def cleanup_facts)

lemma wp_updR_traced [wp_simps]:
  "wp (updR (ref_traced rs) f) Q E (s, l) = Q () (snd rs f s, l)"
  by (simp add: wp_simps ref_traced_def)

lemma wp_readR_traced [wp_simps]: "wp (readR (ref_traced rs)) Q E (s, l) = Q (fst rs s) (s, l)"
  by (simp add: wp_simps ref_traced_def)

lemma wp_record_failures:
  assumes "\<And>s'. Q () (s', l)" and "\<And>e s'. E e (s', l)"
  shows "wp (record_failures (silent nw) (ref_traced rs) n err) Q E (s, l)"
  unfolding record_failures_def using assms
  by (auto simp: wp_bindM wp_thenM wp_if wp_returnM wp_updR_traced wp_readR_traced intro!: wp_silent_any)

lemma wp_put_created:
  "wp (put_created c (traced_store st) (silent nw) (traced_discard d) (ref_traced rs) xs)
     (\<lambda>_. grows l (\<lambda>m. bounded c 0 0 m \<and> created m = {} \<and> evicted m = {} \<and> set xs \<subseteq> stored m \<union> discarded m))
     (\<lambda>_. grows l (bounded c 0 0)) (s, l)"
proof (induction xs arbitrary: l s)
  case (Cons x xs)
  let ?Q = "grows l (\<lambda>m. bounded c 0 0 m \<and> created m = {} \<and> evicted m = {} \<and>
     set (x # xs) \<subseteq> stored m \<union> discarded m)"
  let ?ren = "\<lambda>r. EvRenewLock (pool_name c) (owner_of c) r" and ?put = "\<lambda>r. EvPut (pool_name c) x r"
  have lost: "wp (forM (x # xs) (discard (traced_discard d))) (\<lambda>_. ?Q) (\<lambda>_. grows l (bounded c 0 0))
     (s, l @ [?ren (Inr False)])" for s
    by (rule wp_grows_step [OF wp_discard_all]) (auto simp: bounded_def cleanup_facts)
  have failed: "wp (forM (x # xs) (\<lambda>y. thenM (best_effort (st_remove_idle (traced_store st) (pool_name c) y))
       (discard (traced_discard d) y)))
     (\<lambda>_. ?Q) (\<lambda>_. grows l (bounded c 0 0)) (s, l @ [?ren (Inr True), ?put (Inl e)])" for s e
    unfolding traced_store_sel
    by (rule wp_grows_step [OF wp_cleanup_all]) (auto simp: bounded_def cleanup_facts)
  have next_one: "wp (put_created c (traced_store st) (silent nw) (traced_discard d) (ref_traced rs) xs)
     (\<lambda>_. ?Q) (\<lambda>_. grows l (bounded c 0 0)) (s, l @ [?ren (Inr True), ?put (Inr ())])" for s
    by (rule wp_grows_step [OF Cons.IH]) (auto simp: bounded_def stored_def)
  have put: "wp (exceptM
        (thenM (st_put_idle (traced_store st) (pool_name c) x) (thenM (updR (ref_traced rs) record_success) (returnM True)))
        (\<lambda>e. thenM (record_failure (silent nw) (ref_traced rs) (Some (exn_str e)))
           (thenM (forM (x # xs) (\<lambda>y. thenM (best_effort (st_remove_idle (traced_store st) (pool_name c) y))
              (discard (traced_discard d) y))) (returnM False))))
     (\<lambda>ok. wp (if ok then put_created c (traced_store st) (silent nw) (traced_discard d) (ref_traced rs) xs
        else returnM ()) (\<lambda>_. ?Q) (\<lambda>_. grows l (bounded c 0 0)))
     (\<lambda>_. grows l (bounded c 0 0)) (s, l @ [?ren (Inr True)])" for s
    unfolding wp_exceptM wp_thenM traced_store_sel(3)
    using next_one failed
    by (intro wp_traced_any)
       (auto simp: wp_if wp_returnM wp_updR_traced record_failure_def wp_thenM bounded_def
          simp del: forM.simps intro!: wp_record_failures)
  show ?case
    unfolding put_created.simps renew_lock_def traced_store_sel(6) wp_bindM
  proof (rule wp_traced_any, goal_cases)
    case (1 held s')
    then show ?case
      by (cases held) (simp_all only: not_True_eq_False not_False_eq_True if_True if_False lost put wp_bindM)
  qed (simp add: bounded_def)
qed (auto simp: wp_simps bounded_def)

lemma wp_shrink:
  "wp (shrink_excess_idle c (traced_store st) (traced_discard d) n)
     (\<lambda>_. grows l (\<lambda>m. bounded c 0 n m \<and> created m = {} \<and> evicted m \<subseteq> discarded m))
     (\<lambda>_. grows l (bounded c 0 n)) (s, l)"
proof (induction n arbitrary: l s)
  case (Suc n)
  let ?Q = "grows l (\<lambda>m. bounded c 0 (Suc n) m \<and> created m = {} \<and> evicted m \<subseteq> discarded m)"
  let ?E = "grows l (bounded c 0 (Suc n))"
  let ?L = "shrink_excess_idle c (traced_store st) (traced_discard d) n"
  let ?pre = "\<lambda>x. l @ [EvRenewLock (pool_name c) (owner_of c) (Inr True), EvTake (pool_name c) (Inr (Some x))]"
  have rest: "wp ?L (\<lambda>_. ?Q) (\<lambda>_. ?E) (s, (?pre x) @ [EvDiscard x])" for s x
    unfolding append_assoc
    by (rule wp_grows_step [OF Suc.IH]) (auto simp: bounded_def)
  have one: "wp (discard (traced_discard d) x) (\<lambda>_. wp ?L (\<lambda>_. ?Q) (\<lambda>_. ?E)) (\<lambda>_. ?E) (s, ?pre x)" for s x
  proof (rule wp_mono [OF wp_discard [of _ _ "?pre x"]])
    fix u and sl :: "'a \<times> event list"
    assume "grows (?pre x) (\<lambda>m. m = [EvDiscard x]) sl"
    then show "wp ?L (\<lambda>_. ?Q) (\<lambda>_. ?E) sl"
      using rest by (cases sl) (simp add: grows_def)
  next
    fix e and sl :: "'a \<times> event list"
    assume "grows (?pre x) cleanup sl"
    then show "?E sl" by (rule grows_step) (simp add: bounded_def cleanup_facts)
  qed
  show ?case
    unfolding shrink_excess_idle.simps renew_lock_def traced_store_sel(1,6) wp_bindM
    using one
    by (intro wp_traced_any)
       (auto simp: wp_if wp_returnM wp_bindM wp_option wp_thenM bounded_def
          intro!: wp_traced_any split: option.splits)
qed (auto simp: wp_simps renew_lock_def bounded_def intro!: wp_any)

lemma collect_results_ids:
  "collect_results rs ids f err = Inr (ids', f', err') \<Longrightarrow> set ids' = set ids \<union> created (map EvCreate rs)"
  by (induction rs ids f err rule: collect_results.induct) (auto split: if_splits)

lemma gated_creates: "gated c (map EvCreate rs)" "creates (map EvCreate rs) = length rs" "takes (map EvCreate rs) = 0"
  "evicted (map EvCreate rs) = {}" "stored (map EvCreate rs) = {}" "discarded (map EvCreate rs) = {}"
proof -
  have "gated_from c h (map EvCreate rs)" for h by (induction rs arbitrary: h) auto
  then show "gated c (map EvCreate rs)" .
qed (induction rs; auto)+

lemma wp_submit_all:
  "wp (replicateM n (traced_submit submit))
     (\<lambda>rs. grows l (\<lambda>m. m = map EvCreate rs \<and> length rs = n)) (\<lambda>_. grows l (bounded c n 0)) (s, l)"
proof -
  have "wp (replicateM n (traced_submit submit))
     (\<lambda>rs sl. snd sl = l @ map EvCreate rs \<and> length rs = n) (\<lambda>_. grows l (bounded c n 0)) (s, l)"
  proof (rule wp_replicateM)
    fix rs and sl :: "'a \<times> event list"
    assume "snd sl = l @ map EvCreate rs" and "length rs < n"
    then show "wp (traced_submit submit) (\<lambda>r sl. snd sl = l @ map EvCreate (rs @ [r]))
        (\<lambda>_. grows l (bounded c n 0)) sl"
      by (cases sl) (auto simp: traced_submit_def bounded_def gated_from_append gated_creates intro!: wp_traced_any)
  qed simp
  then show ?thesis by (rule wp_mono) (auto simp: grows_def)
qed

lemma wp_replenish:
  "wp (replenish c (traced_store st) (silent nw) (traced_submit submit) (traced_discard d) (ref_traced rs) n)
     (\<lambda>_. grows l (\<lambda>m. bounded c n 0 m \<and> accounted m)) (\<lambda>_. grows l (bounded c n 0)) (s, l)"
  unfolding replenish_def wp_bindM
proof (rule wp_mono [OF wp_submit_all])
  fix rs' and sl :: "'a \<times> event list"
  assume "grows l (\<lambda>m. m = map EvCreate rs' \<and> length rs' = n) sl"
  then obtain s' where sl: "sl = (s', l @ map EvCreate rs')" and n: "length rs' = n"
    by (cases sl) (auto simp: grows_def)
  let ?Q = "grows l (\<lambda>m. bounded c n 0 m \<and> accounted m)" and ?E = "grows l (bounded c n 0)"
  have put: "wp (put_created c (traced_store st) (silent nw) (traced_discard d) (ref_traced rs) ids)
      (\<lambda>_. ?Q) (\<lambda>_. ?E) (s'', l @ map EvCreate rs')"
    if "collect_results rs' [] 0 None = Inr (ids, f, err)" for ids f err s''
    using collect_results_ids [OF that] n
    by (intro wp_grows_step [OF wp_put_created])
       (auto simp: bounded_def accounted_def gated_from_append gated_creates)
  show "wp (liftE (collect_results rs' [] 0 None)) (\<lambda>a. wp (case a of (created_ids, failures, err) \<Rightarrow>
      thenM (record_failures (silent nw) (ref_traced rs) failures err)
        (put_created c (traced_store st) (silent nw) (traced_discard d) (ref_traced rs) created_ids))
      (\<lambda>_. ?Q) (\<lambda>_. ?E)) (\<lambda>_. ?E) sl"
  proof (cases "collect_results rs' [] 0 None")
    case (Inl e)
    with n show ?thesis by (simp add: sl wp_liftE bounded_def gated_creates)
  next
    case (Inr a)
    obtain ids f err where a: "a = (ids, f, err)" by (cases a)
    have "wp (record_failures (silent nw) (ref_traced rs) f err)
        (\<lambda>_. wp (put_created c (traced_store st) (silent nw) (traced_discard d) (ref_traced rs) ids) (\<lambda>_. ?Q) (\<lambda>_. ?E))
        (\<lambda>_. ?E) (s', l @ map EvCreate rs')"
      using put [of ids f err] Inr n
      by (intro wp_record_failures) (simp_all add: a bounded_def gated_creates)
    with Inr show ?thesis by (simp add: sl wp_liftE a wp_thenM)
  qed
qed

text \<open>The whole tick: how much it may ask for is fixed by the count it read.\<close>

definition within_budget :: "PoolConfig \<Rightarrow> event list \<Rightarrow> bool" where
  "within_budget c l \<longleftrightarrow>
     (creates l = 0 \<and> takes l = 0) \<or>
     (\<exists>n. EvCounters (pool_name c) (Inr \<lparr>idle_count = n\<rparr>) \<in> set l \<and>
        int (creates l) \<le> min (max 0 (max_idle c - int n)) (max 0 (warmup_of c)) \<and>
        int (takes l) \<le> min (max 0 (int n - max_idle c)) (max 0 (warmup_of c)))"

lemma wp_reap:
  "wp (reap_expired_idle_with_min_ttl (traced_store st) p t mt)
     (\<lambda>ids. grows l (\<lambda>m. \<exists>r. m = [EvReap p (Inr r)] \<and> ids = (case r of None \<Rightarrow> [] | Some i \<Rightarrow> i)))
     (\<lambda>_. grows l (\<lambda>m. \<exists>e. m = [EvReap p (Inl e)])) (s, l)"
  by (cases "st_reap_expired_idle_min_ttl st"; cases mt)
     (auto simp: reap_expired_idle_with_min_ttl_def Let_def wp_if wp_bindM wp_thenM wp_returnM intro!: wp_traced_any)

lemma wp_traced_discard:
  assumes "\<And>s'. Q () (s', l @ [EvDiscard x])" and "\<And>e s'. E e (s', l @ [EvDiscard x])"
  shows "wp (traced_discard d x) Q E (s, l)"
  unfolding traced_discard_def using assms by (intro wp_traced_any) auto

lemma wp_on_discard_all:
  "wp (forM xs (traced_discard d)) (\<lambda>_. grows l (\<lambda>m. cleanup m \<and> set xs \<subseteq> discarded m))
     (\<lambda>_. grows l cleanup) (s, l)"
proof (induction xs arbitrary: l s)
  case (Cons x xs)
  have *: "wp (forM xs (traced_discard d)) (\<lambda>_. grows l (\<lambda>m. cleanup m \<and> set (x # xs) \<subseteq> discarded m))
     (\<lambda>_. grows l cleanup) (s, l @ [EvDiscard x])" for s
    by (rule wp_grows_step [OF Cons.IH]) auto
  then show ?case
    by (simp add: wp_thenM) (rule wp_traced_discard; simp)
qed (auto simp: wp_simps)

abbreviation tick_post :: "PoolConfig \<Rightarrow> event list \<Rightarrow> bool" where
  "tick_post c m \<equiv> gated c m \<and> within_budget c m"

definition prefix_ok :: "PoolConfig \<Rightarrow> event list \<Rightarrow> bool" where
  "prefix_ok c m \<longleftrightarrow> gated c m \<and> creates m = 0 \<and> takes m = 0 \<and> created m = {} \<and> evicted m \<subseteq> discarded m"

lemma prefix_ok_append: "prefix_ok c a \<Longrightarrow> prefix_ok c b \<Longrightarrow> prefix_ok c (a @ b)"
  by (auto simp: prefix_ok_def gated_from_append)

lemma prefix_ok_post: "prefix_ok c m \<Longrightarrow> accounted m \<and> tick_post c m"
  by (auto simp: prefix_ok_def accounted_def within_budget_def)

lemma prefix_ok_reap:
  "cleanup m \<Longrightarrow> set (case r of None \<Rightarrow> [] | Some i \<Rightarrow> i) \<subseteq> discarded m \<Longrightarrow> prefix_ok c (EvReap p (Inr r) # m)"
  by (auto simp: prefix_ok_def cleanup_facts split: option.splits)

lemma prefix_ok_single [simp]:
  "prefix_ok c [EvCounters p r]" "prefix_ok c [EvRenewLock p w b]" "prefix_ok c [EvAcquireLock p w b]"
  by (simp_all add: prefix_ok_def)

lemma budget_cases:
  assumes "prefix_ok c a" and "EvCounters (pool_name c) (Inr \<lparr>idle_count = n\<rparr>) \<in> set a"
    and "bounded c nc nt m"
    and "int nc \<le> min (max 0 (max_idle c - int n)) (max 0 (warmup_of c))"
    and "int nt \<le> min (max 0 (int n - max_idle c)) (max 0 (warmup_of c))"
  shows "tick_post c (a @ m)"
proof
  show "gated c (a @ m)" using assms(1,3) by (simp add: prefix_ok_def bounded_def gated_from_append)
  have "creates (a @ m) \<le> nc" and "takes (a @ m) \<le> nt"
    using assms(1,3) by (simp_all add: prefix_ok_def bounded_def)
  with assms(2,4,5) show "within_budget c (a @ m)"
    unfolding within_budget_def by (intro disjI2 exI [of _ n]) auto
qed

lemma wp_shrink_or_replenish:
  assumes "prefix_ok c a" and "EvCounters (pool_name c) (Inr cnt) \<in> set a"
  shows "wp (shrink_or_replenish c (traced_store st) (silent nw) (traced_submit submit) (traced_discard d)
      (ref_traced rs) now cnt)
    (\<lambda>_. grows l (\<lambda>m. accounted m \<and> tick_post c m)) (\<lambda>_. grows l (tick_post c)) (s, l @ a)"
    (is "wp _ (\<lambda>_. ?Q) (\<lambda>_. ?E) _")
proof -
  obtain n where n: "cnt = \<lparr>idle_count = n\<rparr>" by (cases cnt) auto
  let ?rm = "min (max 0 (int n - max_idle c)) (warmup_of c)"
  let ?cr = "min (max 0 (max_idle c - int n)) (warmup_of c)"
  let ?renew = "\<lambda>b. EvRenewLock (pool_name c) (owner_of c) b"
  have ev: "EvCounters (pool_name c) (Inr \<lparr>idle_count = n\<rparr>) \<in> set a" using assms(2) n by simp
  have shrink: "wp (shrink_excess_idle c (traced_store st) (traced_discard d) (nat ?rm)) (\<lambda>_. ?Q) (\<lambda>_. ?E) (s, l @ a)"
    if "0 < ?rm"
  proof (rule wp_grows_step [OF wp_shrink])
    have *: "tick_post c (a @ m)" if "bounded c 0 (nat ?rm) m" for m
      using \<open>0 < ?rm\<close> by (intro budget_cases [OF assms(1) ev that]) auto
    then show "tick_post c (a @ m)" if "bounded c 0 (nat ?rm) m" for m using that .
    show "accounted (a @ m) \<and> tick_post c (a @ m)"
      if "bounded c 0 (nat ?rm) m \<and> created m = {} \<and> evicted m \<subseteq> discarded m" for m
      using that * assms(1) by (auto simp: accounted_def prefix_ok_def)
  qed
  have a': "prefix_ok c (a @ [?renew b])" for b using assms(1) by (rule prefix_ok_append) simp
  have repl: "wp (replenish c (traced_store st) (silent nw) (traced_submit submit) (traced_discard d) (ref_traced rs)
      (nat ?cr)) (\<lambda>_. ?Q) (\<lambda>_. ?E) (s', l @ b)" if b: "b = a @ [?renew (Inr True)]" for s' b
  proof (rule wp_grows_step [OF wp_replenish])
    have ok: "prefix_ok c b" and evb: "EvCounters (pool_name c) (Inr \<lparr>idle_count = n\<rparr>) \<in> set b"
      using a' ev by (simp_all add: b)
    have *: "tick_post c (b @ m)" if "bounded c (nat ?cr) 0 m" for m
      by (intro budget_cases [OF ok evb that]) auto
    then show "tick_post c (b @ m)" if "bounded c (nat ?cr) 0 m" for m using that .
    show "accounted (b @ m) \<and> tick_post c (b @ m)" if "bounded c (nat ?cr) 0 m \<and> accounted m" for m
      using that * ok by (auto simp: accounted_def prefix_ok_def)
  qed
  have renewed: "?Q (s', l @ a @ [?renew b])" "?E (s', l @ a @ [?renew b])" for s' b
    using prefix_ok_post [OF a'] by simp_all
  show ?thesis
    unfolding shrink_or_replenish_def Let_def n
    using shrink repl [OF refl] renewed
    by (auto simp: wp_if wp_bindM wp_readR_traced renew_lock_def wp_thenM wp_returnM intro!: wp_traced_any)
qed

lemma wp_run_primary:
  "wp (run_primary_replenish_once c (traced_store st) (silent nw) (traced_submit submit) (traced_discard d) (ref_traced rs))
     (\<lambda>_. grows l (\<lambda>m. accounted m \<and> tick_post c m)) (\<lambda>_. grows l (tick_post c)) (s, l)"
    (is "wp _ (\<lambda>_. ?Q) (\<lambda>_. ?E) _")
  unfolding run_primary_replenish_once_def wp_bindM
proof (rule wp_silent_any)
  fix now s1
  let ?rest = "bindM (st_snapshot_counters (traced_store st) (pool_name c)) (\<lambda>counters.
        shrink_or_replenish c (traced_store st) (silent nw) (traced_submit submit) (traced_discard d)
          (ref_traced rs) now counters)"
  have count: "wp ?rest (\<lambda>_. ?Q) (\<lambda>_. ?E) (s', l @ a)" if "prefix_ok c a" for s' a
  proof -
    have ok: "prefix_ok c (a @ [EvCounters (pool_name c) r])" for r using that by (rule prefix_ok_append) simp
    have "wp (shrink_or_replenish c (traced_store st) (silent nw) (traced_submit submit) (traced_discard d)
          (ref_traced rs) now cnt) (\<lambda>_. ?Q) (\<lambda>_. ?E) (s, l @ a @ [EvCounters (pool_name c) (Inr cnt)])" for cnt s
      by (rule wp_shrink_or_replenish [OF ok]) simp
    with prefix_ok_post [OF ok] show ?thesis by (simp add: wp_bindM) (rule wp_traced_any; simp)
  qed
  have discards: "wp (forM (case r of None \<Rightarrow> [] | Some i \<Rightarrow> i) (traced_discard d)) (\<lambda>_. wp ?rest (\<lambda>_. ?Q) (\<lambda>_. ?E)) (\<lambda>_. ?E)
      (s', l @ [EvReap (pool_name c) (Inr r)])" for r s'
  proof (rule wp_mono [OF wp_on_discard_all])
    fix u and sl :: "'a \<times> event list"
    assume "grows (l @ [EvReap (pool_name c) (Inr r)])
        (\<lambda>m. cleanup m \<and> set (case r of None \<Rightarrow> [] | Some i \<Rightarrow> i) \<subseteq> discarded m) sl"
    then show "wp ?rest (\<lambda>_. ?Q) (\<lambda>_. ?E) sl"
      using count [OF prefix_ok_reap] by (cases sl) (auto simp: grows_def)
  next
    fix e and sl :: "'a \<times> event list"
    assume "grows (l @ [EvReap (pool_name c) (Inr r)]) cleanup sl"
    then show "?E sl" by (rule grows_step) (simp add: cleanup_facts within_budget_def)
  qed
  show "wp (reap_expired_idle_with_min_ttl (traced_store st) (pool_name c) now (acquire_min_remaining_ttl c))
      (\<lambda>ids. wp (thenM (forM ids (traced_discard d)) ?rest) (\<lambda>_. ?Q) (\<lambda>_. ?E)) (\<lambda>_. ?E) (s1, l)"
  proof (rule wp_mono [OF wp_reap [where l = l]])
    fix ids and sl :: "'a \<times> event list"
    assume "grows l (\<lambda>m. \<exists>r. m = [EvReap (pool_name c) (Inr r)] \<and> ids = (case r of None \<Rightarrow> [] | Some i \<Rightarrow> i)) sl"
    then show "wp (thenM (forM ids (traced_discard d)) ?rest) (\<lambda>_. ?Q) (\<lambda>_. ?E) sl"
      using discards by (cases sl) (auto simp: grows_def wp_thenM)
  qed (auto simp: grows_def within_budget_def)
qed (simp add: within_budget_def)

lemma wp_tick:
  "wp (traced_tick c store now_utc submit on_discard rs)
     (\<lambda>_. grows [] (\<lambda>m. accounted m \<and> tick_post c m)) (\<lambda>_. grows [] (tick_post c)) (s, [])"
proof -
  have "wp (run_primary_replenish_once c (traced_store store) (silent now_utc) (traced_submit submit)
        (traced_discard on_discard) (ref_traced rs))
     (\<lambda>_. grows [] (\<lambda>m. accounted m \<and> tick_post c m)) (\<lambda>_. grows [] (tick_post c))
     (s, [] @ [EvAcquireLock (pool_name c) (owner_of c) r])" for s r
    by (rule wp_grows_step [OF wp_run_primary]) (auto simp: accounted_def within_budget_def)
  then show ?thesis
    unfolding traced_tick_def run_reconcile_tick_def wp_bindM traced_store_sel
    by (intro wp_traced_any) (auto simp: wp_if wp_returnM prefix_ok_post grows_def accounted_def within_budget_def)
qed

text \<open>
  Claim C21. The reconciler loses no sandbox. For any store, clock, executor and callback, whatever they
  return or raise: when a tick returns, every sandbox its warm-up tasks created was either accepted by
  \<open>put_idle\<close> or handed to the discard callback, and every sandbox it reaped as near-expiry or took out
  of the idle buffer was handed to the discard callback.
\<close>

theorem tick_orphans_no_sandbox:
  assumes "traced_tick c store now_utc submit on_discard rs (s, []) = (Inr (), (s', l))"
  shows "created l \<subseteq> stored l \<union> discarded l \<and> evicted l \<subseteq> discarded l"
  using wp_run [OF wp_tick assms] by (simp add: grows_def accounted_def)

text \<open>
  Claim C22. Maintenance writes are leader-gated and rate-limited. For any store, clock, executor and
  callback, and also when the tick raises: each \<open>put_idle\<close> and each take of an excess sandbox directly
  follows a successful renewal of this pool's lock by this owner; the number of sandboxes created (taken)
  is at most the deficit (excess) against the idle count the tick read, and at most the warm-up
  concurrency; a node that does not get the primary lock asks the store nothing else.
\<close>

theorem tick_is_gated_and_bounded:
  "let l = snd (snd (traced_tick c store now_utc submit on_discard rs (s, [])))
   in gated_from c False l \<and> within_budget c l \<and>
      (\<forall>s'. st_try_acquire_primary_lock store (pool_name c) (owner_of c) (primary_lock_ttl c) s = (Inr False, s') \<longrightarrow>
         traced_tick c store now_utc submit on_discard rs (s, []) =
           (Inr (), (s', [EvAcquireLock (pool_name c) (owner_of c) (Inr False)])))"
proof -
  let ?t = "traced_tick c store now_utc submit on_discard rs (s, [])"
  have "wp (traced_tick c store now_utc submit on_discard rs)
     (\<lambda>_ sl. tick_post c (snd sl)) (\<lambda>_ sl. tick_post c (snd sl)) (s, [])"
    using wp_tick by (rule wp_mono) (auto simp: grows_def)
  then have "tick_post c (snd (snd ?t))"
    by (auto simp: wp_def split: prod.splits sum.splits)
  moreover have "?t = (Inr (), (s', [EvAcquireLock (pool_name c) (owner_of c) (Inr False)]))"
    if "st_try_acquire_primary_lock store (pool_name c) (owner_of c) (primary_lock_ttl c) s = (Inr False, s')" for s'
    by (simp add: traced_tick_def run_reconcile_tick_def bindM_run traced_def that)
  ultimately show ?thesis by (simp add: Let_def)
qed

section \<open>The back-off schedule\<close>








section \<open>Examples\<close>

text \<open>A reconciler over the in-memory store: the store and the health object side by side.\<close>

type_synonym local_state = "ClockedStore \<times> ReconcileState"

definition local_store :: "local_state PoolStateStore" where
  "local_store = zoom_store (fst, apfst) im_store"

definition local_init :: local_state where
  "local_init = (\<lparr>cs_store = im_init, cs_readings = \<lambda>_. 0, cs_next = 0\<rparr>, ReconcileState_init 3)"

definition local_config :: PoolConfig where
  "local_config = demo_config\<lparr>max_idle := 1, warmup_concurrency := Some 2, acquire_min_remaining_ttl := Some (seconds 60)\<rparr>"

definition local_tick :: "(local_state, string option result) M \<Rightarrow> (local_state \<times> event list, unit) M" where
  "local_tick submit = traced_tick local_config local_store (returnM 0) submit (\<lambda>x. returnM ()) (snd, apsnd)"

lemma local_tick_runs:
  "fst (local_tick (returnM (Inr (Some ''a''))) (local_init, [])) = Inr ()"
  "snd (snd (local_tick (returnM (Inr (Some ''a''))) (local_init, []))) =
     [EvAcquireLock ''p'' ''o'' (Inr True), EvReap ''p'' (Inr (Some [])), EvCounters ''p'' (Inr \<lparr>idle_count = 0\<rparr>),
      EvRenewLock ''p'' ''o'' (Inr True), EvCreate (Inr (Some ''a'')), EvRenewLock ''p'' ''o'' (Inr True),
      EvPut ''p'' ''a'' (Inr ())]"
  by code_simp+

theorem tick_orphans_no_sandbox_witness:
  "\<exists>s' l. local_tick (returnM (Inr (Some ''a''))) (local_init, []) = (Inr (), (s', l)) \<and>
     ''a'' \<in> created l \<and> ''a'' \<in> stored l \<union> discarded l"
proof -
  let ?t = "local_tick (returnM (Inr (Some ''a''))) (local_init, [])"
  have t: "?t = (Inr (), (fst (snd ?t), snd (snd ?t)))"
    using local_tick_runs(1) by (metis prod.collapse)
  have "''a'' \<in> created (snd (snd ?t))" unfolding local_tick_runs by simp
  with t tick_orphans_no_sandbox [OF t [unfolded local_tick_def]] show ?thesis
    unfolding local_tick_def by blast
qed

theorem tick_is_gated_and_bounded_witness:
  "let l = snd (snd (local_tick (returnM (Inr (Some ''a''))) (local_init, [])))
   in EvPut ''p'' ''a'' (Inr ()) \<in> set l \<and> gated_from local_config False l \<and> within_budget local_config l"
  using tick_is_gated_and_bounded [of local_config local_store "returnM 0" "returnM (Inr (Some ''a''))"
      "\<lambda>x. returnM ()" "(snd, apsnd)" local_init]
  unfolding Let_def local_tick_def [symmetric] local_tick_runs by (elim conjE, intro conjI, simp) assumption+


text \<open>
  A store that becomes unreachable while the warm-up tasks run. The renewal before \<open>put_idle\<close> then raises, the
  tick ends with that exception, and the sandbox it created is neither stored nor discarded.
\<close>

definition outage :: exn where
  "outage = PoolStateStoreUnavailableException ''down'' None"

definition flaky_store :: "local_state PoolStateStore" where
  "flaky_store = local_store
     \<lparr>st_renew_primary_lock := (\<lambda>p w t s. if 1000 \<le> cs_next (fst s) then (Inl outage, s) else (Inr True, s))\<rparr>"

definition flaky_submit :: "(local_state, string option result) M" where
  "flaky_submit = thenM (modifyM (apfst (cs_next_update (\<lambda>_. 1000)))) (returnM (Inr (Some ''a'')))"

lemma renew_outage_orphans_created:
  "let (r, _, l) = traced_tick local_config flaky_store (returnM 0) flaky_submit (\<lambda>x. returnM ()) (snd, apsnd) (local_init, [])
   in r = Inl outage \<and> EvCreate (Inr (Some ''a'')) \<in> set l \<and>
      (\<forall>e\<in>set l. case e of EvPut _ _ _ \<Rightarrow> False | EvDiscard _ \<Rightarrow> False | _ \<Rightarrow> True)"
  by code_simp

end
