(* ===== verification/Sandbox_Pool.thy ===== *)
theory Sandbox_Pool
  imports Pool_Reconciler
begin

text \<open>
  The synchronous pool \<open>SandboxPoolSync\<close> (\<open>opensandbox/sync/pool.py\<close>). \<open>SandboxPool\<close> holds the mutable
  attributes of the object; the state \<open>'s\<close> is everything its methods act on, and \<open>pe_self\<close> says where the object
  lives in it. What the pool is given (store, sandbox and manager factories, creator, preparer, clocks) are
  fields of \<open>PoolEnv\<close>: arbitrary computations on \<open>'s\<close>, so that they may also change the object, as another
  thread may while a call is in progress. \<open>ThreadPoolExecutor\<close> is a queue of the submitted kill tasks, run
  later by \<open>run_executor_task\<close>; the locks make a method's reads and writes of the attributes atomic and have no
  other effect here. Sandbox and manager objects are handles.
\<close>

section \<open>State and environment\<close>

record ThreadPool =
  tp_shutdown :: bool
  tp_tasks :: "string list list"

record SandboxPool =
  lifecycle_state :: PoolLifecycleState
  in_flight :: int
  current_max_idle :: int
  pool_reconcile_state :: ReconcileState
  stop_event :: bool
  scheduler_thread :: bool
  warmup_executor :: "ThreadPool option"
  sandbox_manager :: "nat option"

record Sandbox =
  sandbox_id :: string
  sandbox_handle :: nat

record ConnectionConfig =
  conn_transport :: "nat option"
  owns_transport :: bool

record 's PoolEnv =
  pe_self :: "('s, SandboxPool) ref"
  pe_config :: PoolConfig
  pe_store :: "'s PoolStateStore"
  pe_connection :: ConnectionConfig
  pe_now :: "('s, datetime) M"
  pe_monotonic :: "('s, rat) M"
  pe_wait :: "rat \<Rightarrow> ('s, unit) M"
  pe_wait_stop :: "rat \<Rightarrow> ('s, bool) M"
  pe_connect :: "ConnectionConfig \<Rightarrow> string \<Rightarrow> timedelta \<Rightarrow> timedelta \<Rightarrow> bool \<Rightarrow> ('s, Sandbox) M"
  pe_create :: "ConnectionConfig \<Rightarrow> timedelta \<Rightarrow> timedelta \<Rightarrow> timedelta \<Rightarrow> bool \<Rightarrow> ('s, Sandbox) M"
  pe_creator :: "(ConnectionConfig \<Rightarrow> PooledSandboxCreateContext \<Rightarrow> ('s, Sandbox) M) option"
  pe_preparer :: "(Sandbox \<Rightarrow> ('s, unit) M) option"
  pe_renew :: "Sandbox \<Rightarrow> timedelta \<Rightarrow> ('s, unit) M"
  pe_kill :: "Sandbox \<Rightarrow> ('s, unit) M"
  pe_close :: "Sandbox \<Rightarrow> ('s, unit) M"
  pe_manager_create :: "ConnectionConfig \<Rightarrow> ('s, nat) M"
  pe_manager_kill :: "nat \<Rightarrow> string \<Rightarrow> ('s, unit) M"
  pe_manager_close :: "nat \<Rightarrow> ('s, unit) M"

abbreviation selfM :: "'s PoolEnv \<Rightarrow> (SandboxPool \<Rightarrow> 'a) \<Rightarrow> ('s, 'a) M" where
  "selfM env f \<equiv> getM (\<lambda>s. f (fst (pe_self env) s))"

abbreviation setM :: "'s PoolEnv \<Rightarrow> (SandboxPool \<Rightarrow> SandboxPool) \<Rightarrow> ('s, unit) M" where
  "setM env f \<equiv> modifyM (snd (pe_self env) f)"

abbreviation pe_pool_name :: "'s PoolEnv \<Rightarrow> string" where
  "pe_pool_name env \<equiv> pool_name (pe_config env)"

definition SandboxPool_init :: "string \<Rightarrow> PoolConfig \<Rightarrow> (PoolConfig \<times> SandboxPool) result" where
  "SandboxPool_init uuid args =
     bindE (PoolConfig_post_init uuid args) (\<lambda>config.
       Inr (config,
         \<lparr>lifecycle_state = L_NOT_STARTED, in_flight = 0, current_max_idle = max_idle args,
          pool_reconcile_state = ReconcileState_init (degraded_threshold args), stop_event = False,
          scheduler_thread = False, warmup_executor = None, sandbox_manager = None\<rparr>))"

definition reconcile_ref :: "'s PoolEnv \<Rightarrow> ('s, ReconcileState) ref" where
  "reconcile_ref env =
     (\<lambda>s. pool_reconcile_state (fst (pe_self env) s), \<lambda>f. snd (pe_self env) (pool_reconcile_state_update f))"

section \<open>Helpers\<close>

definition connection_for_pool_resource :: "ConnectionConfig \<Rightarrow> ConnectionConfig" where
  "connection_for_pool_resource c =
     (if conn_transport c \<noteq> None \<and> \<not> owns_transport c then c
      else c\<lparr>conn_transport := None, owns_transport := True\<rparr>)"

abbreviation pe_resource :: "'s PoolEnv \<Rightarrow> ConnectionConfig" where
  "pe_resource env \<equiv> connection_for_pool_resource (pe_connection env)"

definition ensure_pool_namespace_active :: "'s PoolEnv \<Rightarrow> ('s, unit) M" where
  "ensure_pool_namespace_active env =
     bindM (st_get_destroy_state (pe_store env) (pe_pool_name env)) (\<lambda>d.
       if d \<noteq> ACTIVE then raiseM (PoolDestroyedException (namespace_is d (pe_pool_name env)))
       else returnM ())"

definition ensure_pool_namespace_active_for_acquire :: "'s PoolEnv \<Rightarrow> AcquirePolicy \<Rightarrow> ('s, unit) M" where
  "ensure_pool_namespace_active_for_acquire env policy =
     catch_ifM is_outage_exn (ensure_pool_namespace_active env) (\<lambda>e.
       if \<not> policy_falls_through_to_direct_create policy then raiseM e else returnM ())"

definition raise_if_pool_namespace_destroyed :: "'s PoolEnv \<Rightarrow> ('s, unit) M" where
  "raise_if_pool_namespace_destroyed env =
     catchM (ensure_pool_namespace_active env) (\<lambda>e.
       if is_destroyed_exn e then raiseM e else if is_Exception e then returnM () else raiseM e)"

text \<open>The best-effort \<open>kill()\<close> then \<open>close()\<close> of the fence checks.\<close>

definition dispose :: "'s PoolEnv \<Rightarrow> Sandbox \<Rightarrow> ('s, unit) M" where
  "dispose env sb = thenM (best_effort (pe_kill env sb)) (best_effort (pe_close env sb))"

definition ensure_pool_namespace_active_after_create ::
  "'s PoolEnv \<Rightarrow> Sandbox \<Rightarrow> AcquirePolicy option \<Rightarrow> ('s, unit) M" where
  "ensure_pool_namespace_active_after_create env sb policy =
     catchM (ensure_pool_namespace_active env) (\<lambda>e.
       if is_outage_exn e \<and> (case policy of None \<Rightarrow> False | Some p \<Rightarrow> policy_falls_through_to_direct_create p)
       then returnM ()
       else thenM (dispose env sb) (raiseM e))"

definition kill_sandbox_best_effort :: "'s PoolEnv \<Rightarrow> string \<Rightarrow> ('s, bool) M" where
  "kill_sandbox_best_effort env x =
     bindM (selfM env sandbox_manager) (\<lambda>m.
       case m of
         None \<Rightarrow> returnM False
       | Some h \<Rightarrow> exceptM (thenM (pe_manager_kill env h x) (returnM True)) (\<lambda>_. returnM False))"

definition discard_sandbox_callback :: "'s PoolEnv \<Rightarrow> string \<Rightarrow> ('s, unit) M" where
  "discard_sandbox_callback env x = thenM (kill_sandbox_best_effort env x) (returnM ())"

definition kill_discarded_alive :: "'s PoolEnv \<Rightarrow> string list \<Rightarrow> ('s, unit) M" where
  "kill_discarded_alive env ids =
     forM ids (\<lambda>x. thenM (kill_sandbox_best_effort env x) (returnM ()))"

text \<open>\<open>executor.submit\<close> of a kill task: refused after \<open>shutdown\<close>.\<close>

definition submit_kill :: "'s PoolEnv \<Rightarrow> string list \<Rightarrow> ('s, unit) M" where
  "submit_kill env ids =
     bindM (selfM env warmup_executor) (\<lambda>ex.
       case ex of
         None \<Rightarrow> raiseM (OtherException ''no executor'')
       | Some t \<Rightarrow>
           if tp_shutdown t then raiseM (OtherException ''cannot schedule new futures after shutdown'')
           else setM env (\<lambda>p. p\<lparr>warmup_executor := Some (t\<lparr>tp_tasks := tp_tasks t @ [ids]\<rparr>)\<rparr>))"

definition schedule_kill_discarded_alive :: "'s PoolEnv \<Rightarrow> string list \<Rightarrow> ('s, unit) M" where
  "schedule_kill_discarded_alive env ids =
     (if ids = [] then returnM ()
      else bindM (selfM env warmup_executor) (\<lambda>ex.
             case ex of
               None \<Rightarrow> kill_discarded_alive env ids
             | Some _ \<Rightarrow> exceptM (submit_kill env ids) (\<lambda>_. kill_discarded_alive env ids)))"

text \<open>A worker thread runs the oldest task; what the task raises stays in its future.\<close>

definition run_executor_task :: "'s PoolEnv \<Rightarrow> ('s, unit) M" where
  "run_executor_task env =
     bindM (selfM env warmup_executor) (\<lambda>ex.
       case ex of
         Some t \<Rightarrow>
           (case tp_tasks t of
              [] \<Rightarrow> returnM ()
            | ids # rest \<Rightarrow>
                thenM (setM env (\<lambda>p. p\<lparr>warmup_executor := Some (t\<lparr>tp_tasks := rest\<rparr>)\<rparr>))
                  (thenM (tryM (kill_discarded_alive env ids)) (returnM ())))
       | None \<Rightarrow> returnM ())"

definition begin_operation :: "'s PoolEnv \<Rightarrow> ('s, unit) M" where
  "begin_operation env = setM env (\<lambda>p. p\<lparr>in_flight := in_flight p + 1\<rparr>)"

definition end_operation :: "'s PoolEnv \<Rightarrow> ('s, unit) M" where
  "end_operation env =
     setM env (\<lambda>p. p\<lparr>in_flight := (if in_flight p - 1 \<le> 0 then 0 else in_flight p - 1)\<rparr>)"

definition release_primary_lock_best_effort :: "'s PoolEnv \<Rightarrow> ('s, unit) M" where
  "release_primary_lock_best_effort env =
     best_effort (st_release_primary_lock (pe_store env) (pe_pool_name env) (owner_of (pe_config env)))"

definition close_provider :: "'s PoolEnv \<Rightarrow> ('s, unit) M" where
  "close_provider env =
     bindM (selfM env sandbox_manager) (\<lambda>m.
       case m of
         None \<Rightarrow> returnM ()
       | Some h \<Rightarrow> thenM (pe_manager_close env h) (setM env (\<lambda>p. p\<lparr>sandbox_manager := None\<rparr>)))"

text \<open>
  \<open>_stop_reconcile\<close>: \<open>shutdown(wait=False, cancel_futures=True)\<close> drops the tasks still queued; the joins
  only wait.
\<close>

definition stop_reconcile :: "'s PoolEnv \<Rightarrow> bool \<Rightarrow> ('s, unit) M" where
  "stop_reconcile env join_scheduler =
     thenM (setM env (\<lambda>p. p\<lparr>stop_event := True\<rparr>))
     (thenM (setM env (\<lambda>p. if join_scheduler then p\<lparr>scheduler_thread := False\<rparr> else p))
     (thenM (setM env (\<lambda>p. p\<lparr>warmup_executor := None\<rparr>))
            (release_primary_lock_best_effort env)))"

section \<open>Acquire\<close>

definition build_sandbox_from_creator ::
  "'s PoolEnv \<Rightarrow> (ConnectionConfig \<Rightarrow> PooledSandboxCreateContext \<Rightarrow> ('s, Sandbox) M) \<Rightarrow>
   PooledSandboxCreateReason \<Rightarrow> timedelta \<Rightarrow> timedelta \<Rightarrow> bool \<Rightarrow> ('s, Sandbox) M" where
  "build_sandbox_from_creator env creator reason ready polling skip =
     creator (pe_resource env)
       \<lparr>ctx_pool_name = pe_pool_name env, ctx_owner_id = owner_of (pe_config env),
        ctx_idle_timeout = idle_timeout (pe_config env), ctx_reason = reason, ctx_ready_timeout = ready,
        ctx_health_check_polling_interval = polling, ctx_skip_health_check = skip\<rparr>"

text \<open>The sandbox of \<open>_direct_create\<close> and the one of \<open>_build_warmup_sandbox\<close>.\<close>

definition build_direct_sandbox :: "'s PoolEnv \<Rightarrow> ('s, Sandbox) M" where
  "build_direct_sandbox env =
     (let c = pe_config env
      in case pe_creator env of
           Some creator \<Rightarrow>
             build_sandbox_from_creator env creator R_DIRECT_CREATE (acquire_ready_timeout c)
               (acquire_health_check_polling_interval c) (acquire_skip_health_check c)
         | None \<Rightarrow>
             pe_create env (pe_resource env) (idle_timeout c) (acquire_ready_timeout c)
               (acquire_health_check_polling_interval c) (acquire_skip_health_check c))"

definition build_warmup_sandbox :: "'s PoolEnv \<Rightarrow> ('s, Sandbox) M" where
  "build_warmup_sandbox env =
     (let c = pe_config env
      in case pe_creator env of
           Some creator \<Rightarrow>
             build_sandbox_from_creator env creator WARMUP (warmup_ready_timeout c)
               (warmup_health_check_polling_interval c) (warmup_skip_health_check c)
         | None \<Rightarrow>
             pe_create env (pe_resource env) (idle_timeout c) (warmup_ready_timeout c)
               (warmup_health_check_polling_interval c) (warmup_skip_health_check c))"

definition direct_create :: "'s PoolEnv \<Rightarrow> timedelta option \<Rightarrow> AcquirePolicy \<Rightarrow> ('s, Sandbox) M" where
  "direct_create env timeout policy =
     thenM (ensure_pool_namespace_active_for_acquire env policy)
     (bindM (build_direct_sandbox env) (\<lambda>sb.
      thenM (case timeout of
               None \<Rightarrow> returnM ()
             | Some t \<Rightarrow>
                 catchM (pe_renew env sb t) (\<lambda>e.
                   thenM (finallyM (pe_kill env sb) (pe_close env sb)) (raiseM e)))
      (thenM (ensure_pool_namespace_active_after_create env sb (Some policy))
             (returnM sb))))"

record AcquireVars =
  pending_kill :: "string list"
  last_sandbox_id :: "string option"
  last_idle_connect_failure :: "exn option"
  attempted_any :: bool
  loop_exhausted :: bool

definition acquire_vars :: AcquireVars where
  "acquire_vars = \<lparr>pending_kill = [], last_sandbox_id = None, last_idle_connect_failure = None,
     attempted_any = False, loop_exhausted = True\<rparr>"

definition cannot_acquire :: "PoolLifecycleState \<Rightarrow> exn" where
  "cannot_acquire st =
     PoolNotRunningException (''Cannot acquire when pool state is '' @ PoolLifecycleState_value st)"

text \<open>The handler of a failed \<open>connect\<close>: it returns when the loop may try the next idle sandbox.\<close>

definition connect_failed :: "'s PoolEnv \<Rightarrow> string \<Rightarrow> string list \<Rightarrow> ('s, unit) M" where
  "connect_failed env x pending =
     thenM (st_remove_idle (pe_store env) (pe_pool_name env) x)
     (thenM (schedule_kill_discarded_alive env [x])
     (bindM (selfM env lifecycle_state) (\<lambda>st.
        if st \<noteq> L_RUNNING
        then thenM (raise_if_pool_namespace_destroyed env)
               (thenM (schedule_kill_discarded_alive env pending) (raiseM (cannot_acquire st)))
        else ensure_pool_namespace_active env)))"

text \<open>The part after a successful \<open>connect\<close>: renew, fence check, clean-up.\<close>

definition use_connected :: "'s PoolEnv \<Rightarrow> timedelta option \<Rightarrow> Sandbox \<Rightarrow> string list \<Rightarrow> ('s, Sandbox) M" where
  "use_connected env timeout sb pending =
     bindM (tryM (thenM (case timeout of None \<Rightarrow> returnM () | Some t \<Rightarrow> pe_renew env sb t)
                        (ensure_pool_namespace_active_after_create env sb None))) (\<lambda>r.
       case r of
         Inr _ \<Rightarrow> thenM (schedule_kill_discarded_alive env pending) (returnM sb)
       | Inl e \<Rightarrow>
           if is_destroyed_exn e then thenM (schedule_kill_discarded_alive env pending) (raiseM e)
           else if is_Exception e
           then thenM (best_effort (pe_kill env sb))
                 (thenM (best_effort (pe_close env sb))
                   (thenM (schedule_kill_discarded_alive env pending) (raiseM e)))
           else raiseM e)"

text \<open>
  The loop \<open>while attempt < max_attempts\<close>; \<open>n\<close> attempts are left. \<open>Inl\<close> is the sandbox that \<open>acquire\<close> returns,
  \<open>Inr\<close> the local variables when the loop ends without one.
\<close>

fun acquire_loop ::
  "'s PoolEnv \<Rightarrow> timedelta option \<Rightarrow> AcquirePolicy \<Rightarrow> nat \<Rightarrow> AcquireVars \<Rightarrow> ('s, Sandbox + AcquireVars) M" where
  "acquire_loop env timeout policy 0 v = returnM (Inr v)"
| "acquire_loop env timeout policy (Suc n) v =
     bindM (tryM (try_take_idle_with_min_ttl (pe_store env) (pe_pool_name env)
                    (acquire_min_remaining_ttl (pe_config env)))) (\<lambda>take_result.
       case take_result of
         Inl e \<Rightarrow>
           if \<not> is_outage_exn e then raiseM e
           else if \<not> policy_falls_through_to_direct_create policy
           then thenM (schedule_kill_discarded_alive env (pending_kill v)) (raiseM e)
           else returnM (Inr (v\<lparr>loop_exhausted := False\<rparr>))
       | Inr r \<Rightarrow>
           let pending = pending_kill v @ discarded_alive_sandbox_ids r
           in case taken_id r of
                None \<Rightarrow> returnM (Inr (v\<lparr>pending_kill := pending, loop_exhausted := False\<rparr>))
              | Some x \<Rightarrow>
                  let c = pe_config env;
                      v' = v\<lparr>pending_kill := pending, last_sandbox_id := Some x, attempted_any := True\<rparr>
                  in bindM (tryM (pe_connect env (pe_resource env) x (acquire_ready_timeout c)
                        (acquire_health_check_polling_interval c) (acquire_skip_health_check c))) (\<lambda>connected.
                       case connected of
                         Inr sb \<Rightarrow> bindM (use_connected env timeout sb pending) (\<lambda>sb. returnM (Inl sb))
                       | Inl e \<Rightarrow>
                           if is_destroyed_exn e
                           then thenM (schedule_kill_discarded_alive env pending) (raiseM e)
                           else if is_Exception e
                           then thenM (connect_failed env x pending)
                                  (acquire_loop env timeout policy n (v'\<lparr>last_idle_connect_failure := Some e\<rparr>))
                           else raiseM e))"

definition opt_str :: "string option \<Rightarrow> string" where
  "opt_str x = (case x of None \<Rightarrow> ''None'' | Some s \<Rightarrow> s)"

definition acquire_reason :: "AcquireVars \<Rightarrow> int \<Rightarrow> string" where
  "acquire_reason v max_attempts =
     (if \<not> attempted_any v then ''idle buffer empty''
      else if loop_exhausted v
      then ''idle connect failed for '' @ str_of_int max_attempts @ '' candidate(s); last sandbox_id='' @
             opt_str (last_sandbox_id v) @ '' (stale or unreachable)''
      else ''idle connect failed for sandbox_id='' @ opt_str (last_sandbox_id v) @
             ''; idle buffer drained before reaching max_acquire_retries='' @ str_of_int max_attempts)"

definition acquire_body :: "'s PoolEnv \<Rightarrow> timedelta option \<Rightarrow> AcquirePolicy \<Rightarrow> ('s, Sandbox) M" where
  "acquire_body env timeout policy =
     thenM (ensure_pool_namespace_active_for_acquire env policy)
     (let max_attempts = effective_max_idle_attempts policy (max_acquire_retries (pe_config env))
      in bindM (acquire_loop env timeout policy (nat max_attempts) acquire_vars) (\<lambda>r.
           case r of
             Inl sb \<Rightarrow> returnM sb
           | Inr v \<Rightarrow>
               thenM (schedule_kill_discarded_alive env (pending_kill v))
               (let message = ''Cannot acquire: '' @ acquire_reason v max_attempts @ ''; policy is '' @
                      AcquirePolicy_value policy
                in if \<not> policy_falls_through_to_direct_create policy
                   then if attempted_any v
                        then raiseM (PoolAcquireFailedException message (last_idle_connect_failure v))
                        else raiseM (PoolEmptyException message)
                   else direct_create env timeout policy)))"

definition reject_if_not_running :: "'s PoolEnv \<Rightarrow> ('s, unit) M" where
  "reject_if_not_running env =
     bindM (selfM env lifecycle_state) (\<lambda>st.
       if st \<noteq> L_RUNNING
       then thenM (raise_if_pool_namespace_destroyed env) (raiseM (cannot_acquire st))
       else returnM ())"

definition acquire :: "'s PoolEnv \<Rightarrow> timedelta option \<Rightarrow> AcquirePolicy \<Rightarrow> ('s, Sandbox) M" where
  "acquire env timeout policy =
     thenM (reject_if_not_running env)
     (thenM (begin_operation env)
       (finallyM (thenM (reject_if_not_running env) (acquire_body env timeout policy))
                 (end_operation env)))"

section \<open>Lifecycle\<close>

definition start :: "'s PoolEnv \<Rightarrow> ('s, unit) M" where
  "start env =
     bindM (selfM env lifecycle_state) (\<lambda>st.
       if st = L_RUNNING \<or> st = L_STARTING then returnM ()
       else thenM (setM env (\<lambda>p. p\<lparr>lifecycle_state := L_STARTING\<rparr>))
         (exceptM
            (thenM (ensure_pool_namespace_active env)
            (bindM (pe_manager_create env (pe_resource env)) (\<lambda>m.
             thenM (setM env (\<lambda>p. p\<lparr>sandbox_manager := Some m\<rparr>))
            (thenM (st_set_idle_entry_ttl (pe_store env) (pe_pool_name env) (idle_timeout (pe_config env)))
            (thenM (st_set_max_idle (pe_store env) (pe_pool_name env) (max_idle (pe_config env)))
                   (setM env (\<lambda>p. p\<lparr>warmup_executor := Some \<lparr>tp_shutdown = False, tp_tasks = []\<rparr>,
                      stop_event := False, scheduler_thread := True, lifecycle_state := L_RUNNING\<rparr>)))))))
            (\<lambda>e. thenM (stop_reconcile env True)
                   (thenM (close_provider env)
                     (thenM (setM env (\<lambda>p. p\<lparr>lifecycle_state := L_STOPPED\<rparr>)) (raiseM e))))))"

text \<open>
  \<open>_await_in_flight_drain\<close>: \<open>pe_wait\<close> is the wait on the condition, during which other threads run. \<open>None\<close> means
  that the fuel ran out.
\<close>

fun await_drain_loop :: "'s PoolEnv \<Rightarrow> rat \<Rightarrow> nat \<Rightarrow> ('s, bool option) M" where
  "await_drain_loop env deadline 0 = returnM None"
| "await_drain_loop env deadline (Suc fuel) =
     bindM (selfM env in_flight) (\<lambda>n.
       if n \<le> 0 then returnM (Some True)
       else bindM (pe_monotonic env) (\<lambda>now.
              let remaining = fl (deadline - now)
              in if remaining \<le> 0 then returnM (Some False)
                 else thenM (pe_wait env remaining) (await_drain_loop env deadline fuel)))"

definition await_in_flight_drain :: "'s PoolEnv \<Rightarrow> timedelta \<Rightarrow> nat \<Rightarrow> ('s, bool option) M" where
  "await_in_flight_drain env timeout fuel =
     bindM (pe_monotonic env) (\<lambda>now. await_drain_loop env (fl (now + total_seconds timeout)) fuel)"

definition shutdown :: "'s PoolEnv \<Rightarrow> bool \<Rightarrow> nat \<Rightarrow> ('s, unit option) M" where
  "shutdown env graceful fuel =
     bindM (selfM env lifecycle_state) (\<lambda>st.
       if st = L_STOPPED then returnM (Some ())
       else if \<not> graceful
       then thenM (stop_reconcile env True)
              (thenM (setM env (\<lambda>p. p\<lparr>lifecycle_state := L_STOPPED\<rparr>))
                (thenM (close_provider env) (returnM (Some ()))))
       else thenM (setM env (\<lambda>p. p\<lparr>lifecycle_state := L_DRAINING\<rparr>))
             (thenM (stop_reconcile env True)
               (bindM (await_in_flight_drain env (drain_timeout (pe_config env)) fuel) (\<lambda>drained.
                  case drained of
                    None \<Rightarrow> returnM None
                  | Some _ \<Rightarrow>
                      thenM (setM env (\<lambda>p. p\<lparr>lifecycle_state := L_STOPPED\<rparr>))
                        (thenM (close_provider env) (returnM (Some ())))))))"

definition stop_after_pool_namespace_destroyed :: "'s PoolEnv \<Rightarrow> ('s, unit) M" where
  "stop_after_pool_namespace_destroyed env =
     bindM (selfM env lifecycle_state) (\<lambda>st.
       if st = L_STOPPED then returnM ()
       else thenM (stop_reconcile env False)
              (thenM (setM env (\<lambda>p. p\<lparr>lifecycle_state := L_STOPPED\<rparr>)) (close_provider env)))"

definition resolve_max_idle :: "'s PoolEnv \<Rightarrow> ('s, int) M" where
  "resolve_max_idle env =
     bindM (st_get_max_idle (pe_store env) (pe_pool_name env)) (\<lambda>shared.
       case shared of None \<Rightarrow> selfM env current_max_idle | Some n \<Rightarrow> returnM n)"

definition resize :: "'s PoolEnv \<Rightarrow> int \<Rightarrow> ('s, unit) M" where
  "resize env n =
     (if n < 0 then raiseM (ValueError ''max_idle must be >= 0'')
      else thenM (ensure_pool_namespace_active env)
             (thenM (st_set_max_idle (pe_store env) (pe_pool_name env) n)
                    (setM env (\<lambda>p. p\<lparr>current_max_idle := n\<rparr>))))"

text \<open>\<open>is_backoff_active()\<close> without an argument: the clock is read only in the last test.\<close>

definition backoff_active_now :: "'s PoolEnv \<Rightarrow> ('s, bool) M" where
  "backoff_active_now env =
     bindM (readR (reconcile_ref env)) (\<lambda>r.
       if backoff_until r = None \<or> rs_state r \<noteq> DEGRADED then returnM False
       else bindM (pe_now env) (\<lambda>now. returnM (is_backoff_active r now)))"

definition snapshot :: "'s PoolEnv \<Rightarrow> ('s, PoolSnapshot) M" where
  "snapshot env =
     bindM (selfM env lifecycle_state) (\<lambda>ls.
     bindM (readR (reconcile_ref env)) (\<lambda>r0.
     let st = (if ls = L_NOT_STARTED \<or> ls = L_STOPPED then STOPPED
               else if ls = L_DRAINING then DRAINING else rs_state r0)
     in bindM (st_snapshot_counters (pe_store env) (pe_pool_name env)) (\<lambda>counters.
        bindM (resolve_max_idle env) (\<lambda>n.
        bindM (readR (reconcile_ref env)) (\<lambda>r.
        bindM (backoff_active_now env) (\<lambda>active.
        bindM (readR (reconcile_ref env)) (\<lambda>r'.
        bindM (selfM env in_flight) (\<lambda>flights.
          returnM \<lparr>snap_state = st, snap_lifecycle_state = ls, snap_idle_count = idle_count counters,
                   snap_max_idle = n, snap_failure_count = failure_count r, snap_backoff_active = active,
                   snap_last_error = last_error r', snap_in_flight_operations = flights\<rparr>))))))))"

definition snapshot_idle_entries :: "'s PoolEnv \<Rightarrow> ('s, IdleEntry list) M" where
  "snapshot_idle_entries env = st_snapshot_idle_entries (pe_store env) (pe_pool_name env)"

section \<open>Warm-up and reconciliation\<close>

definition create_one_sandbox :: "'s PoolEnv \<Rightarrow> ('s, string option) M" where
  "create_one_sandbox env =
     thenM (begin_operation env)
     (finallyM
        (thenM (ensure_pool_namespace_active env)
        (bindM (build_warmup_sandbox env) (\<lambda>sb.
           finallyM
             (exceptM
                (thenM (case pe_preparer env of None \<Rightarrow> returnM () | Some prepare \<Rightarrow> prepare sb)
                (bindM (selfM env lifecycle_state) (\<lambda>st.
                   if st \<noteq> L_RUNNING
                   then thenM (best_effort (pe_kill env sb)) (returnM None)
                   else thenM (pe_renew env sb (idle_timeout (pe_config env)))
                         (thenM (ensure_pool_namespace_active_after_create env sb None)
                                (returnM (Some (sandbox_id sb)))))))
                (\<lambda>e. thenM (best_effort (pe_kill env sb)) (raiseM e)))
             (pe_close env sb))))
        (end_operation env))"

text \<open>A warm-up task submitted to the executor and waited for.\<close>

definition submit_create :: "'s PoolEnv \<Rightarrow> ('s, string option result) M" where
  "submit_create env =
     bindM (selfM env warmup_executor) (\<lambda>ex.
       case ex of
         None \<Rightarrow> raiseM (OtherException ''cannot schedule new futures after shutdown'')
       | Some t \<Rightarrow>
           if tp_shutdown t then raiseM (OtherException ''cannot schedule new futures after shutdown'')
           else tryM (create_one_sandbox env))"

definition run_reconcile_tick_locked :: "'s PoolEnv \<Rightarrow> string \<Rightarrow> ('s, unit) M" where
  "run_reconcile_tick_locked env uuid =
     bindM (selfM env lifecycle_state) (\<lambda>st.
       if st \<noteq> L_RUNNING then returnM ()
       else thenM (begin_operation env)
         (finallyM
            (exceptM
               (bindM (selfM env lifecycle_state) (\<lambda>st.
                  if st \<noteq> L_RUNNING then returnM ()
                  else bindM (st_get_destroy_state (pe_store env) (pe_pool_name env)) (\<lambda>d.
                         if d \<noteq> ACTIVE then stop_after_pool_namespace_destroyed env
                         else bindM (resolve_max_idle env) (\<lambda>n.
                              bindM (liftE (with_max_idle uuid (pe_config env) n)) (\<lambda>config.
                                Pool_Reconciler.run_reconcile_tick config (pe_store env) (pe_now env)
                                  (submit_create env) (discard_sandbox_callback env) (reconcile_ref env))))))
               (\<lambda>_. returnM ()))
            (end_operation env)))"

definition run_reconcile_tick :: "'s PoolEnv \<Rightarrow> string \<Rightarrow> ('s, unit) M" where
  "run_reconcile_tick env uuid =
     bindM (selfM env lifecycle_state) (\<lambda>st.
       if st \<noteq> L_RUNNING then returnM ()
       else bindM (selfM env warmup_executor) (\<lambda>ex.
              if ex = None then returnM () else run_reconcile_tick_locked env uuid))"

text \<open>
  The scheduler thread: \<open>pe_wait_stop\<close> waits for the stop event and says whether it is set. \<open>None\<close> means that the
  fuel ran out.
\<close>

fun scheduler_loop :: "'s PoolEnv \<Rightarrow> string \<Rightarrow> nat \<Rightarrow> ('s, unit option) M" where
  "scheduler_loop env uuid 0 = returnM None"
| "scheduler_loop env uuid (Suc fuel) =
     bindM (selfM env stop_event) (\<lambda>stopped.
       if stopped then returnM (Some ())
       else thenM (run_reconcile_tick env uuid)
              (bindM (pe_wait_stop env (total_seconds (reconcile_interval (pe_config env)))) (\<lambda>set.
                 if set then returnM (Some ()) else scheduler_loop env uuid fuel)))"

definition run_scheduler :: "'s PoolEnv \<Rightarrow> string \<Rightarrow> nat \<Rightarrow> ('s, unit option) M" where
  "run_scheduler env uuid fuel =
     (let initial_delay = (if 0 < max_idle (pe_config env) then 0
                           else total_seconds (reconcile_interval (pe_config env)))
      in if 0 < initial_delay
         then bindM (pe_wait_stop env initial_delay) (\<lambda>set.
                if set then returnM (Some ()) else scheduler_loop env uuid fuel)
         else scheduler_loop env uuid fuel)"

section \<open>Releasing the idle buffer\<close>

text \<open>
  The loop of \<open>release_all_idle\<close> with its local variables \<open>temporary_manager\<close> and \<open>count\<close>; \<open>None\<close> means that the
  fuel ran out. The temporary manager is part of the result also when a take raises, for the \<open>finally\<close>.
\<close>

definition kill_released :: "'s PoolEnv \<Rightarrow> nat option \<Rightarrow> string \<Rightarrow> ('s, nat option \<times> unit result) M" where
  "kill_released env tmp x =
     bindM (selfM env sandbox_manager) (\<lambda>m.
     let manager = (case m of Some h \<Rightarrow> Some h | None \<Rightarrow> tmp)
     in case manager of
          Some h \<Rightarrow> bindM (tryM (best_effort (pe_manager_kill env h x))) (\<lambda>k. returnM (tmp, k))
        | None \<Rightarrow>
            bindM (tryM (pe_manager_create env (pe_resource env))) (\<lambda>r.
              case r of
                Inr h \<Rightarrow> bindM (tryM (best_effort (pe_manager_kill env h x))) (\<lambda>k. returnM (Some h, k))
              | Inl e \<Rightarrow> returnM (tmp, if is_Exception e then Inr () else Inl e)))"

fun release_loop ::
  "'s PoolEnv \<Rightarrow> nat \<Rightarrow> nat option \<Rightarrow> nat \<Rightarrow> ('s, nat option \<times> nat result option) M" where
  "release_loop env 0 tmp count = returnM (tmp, None)"
| "release_loop env (Suc fuel) tmp count =
     bindM (tryM (st_try_take_idle (pe_store env) (pe_pool_name env))) (\<lambda>r.
       case r of
         Inl e \<Rightarrow> returnM (tmp, Some (Inl e))
       | Inr None \<Rightarrow> returnM (tmp, Some (Inr count))
       | Inr (Some x) \<Rightarrow>
           bindM (kill_released env tmp x) (\<lambda>(tmp', k).
             case k of
               Inl e \<Rightarrow> returnM (tmp', Some (Inl e))
             | Inr _ \<Rightarrow> release_loop env fuel tmp' (count + 1)))"

definition release_all_idle :: "'s PoolEnv \<Rightarrow> nat \<Rightarrow> ('s, nat option) M" where
  "release_all_idle env fuel =
     bindM (release_loop env fuel None 0) (\<lambda>(tmp, outcome).
       case outcome of
         None \<Rightarrow> returnM None
       | Some r \<Rightarrow>
           finallyM (bindM (liftE r) (\<lambda>n. returnM (Some n)))
             (case tmp of None \<Rightarrow> returnM () | Some h \<Rightarrow> pe_manager_close env h))"

text \<open>
  The draining loop of \<open>release_all_idle_parallel\<close>: it stops at an empty buffer or at the first \<open>Exception\<close>, which is
  raised after the drained sandboxes were killed. The kills run in the executor's threads, in any order; here in
  the order of submission.
\<close>

fun drain_ids :: "'s PoolEnv \<Rightarrow> nat \<Rightarrow> string list \<Rightarrow> ('s, (string list \<times> exn option) option) M" where
  "drain_ids env 0 ids = returnM None"
| "drain_ids env (Suc fuel) ids =
     bindM (tryM (st_try_take_idle (pe_store env) (pe_pool_name env))) (\<lambda>r.
       case r of
         Inl e \<Rightarrow> if is_Exception e then returnM (Some (ids, Some e)) else raiseM e
       | Inr None \<Rightarrow> returnM (Some (ids, None))
       | Inr (Some x) \<Rightarrow> drain_ids env fuel (ids @ [x]))"

definition release_all_idle_parallel :: "'s PoolEnv \<Rightarrow> int \<Rightarrow> nat \<Rightarrow> ('s, nat option) M" where
  "release_all_idle_parallel env max_workers fuel =
     (if max_workers \<le> 0 then raiseM (ValueError ''max_workers must be positive'')
      else bindM (drain_ids env fuel []) (\<lambda>drained.
        case drained of
          None \<Rightarrow> returnM None
        | Some (ids, drain_error) \<Rightarrow>
            thenM
              (if ids = [] then returnM ()
               else bindM (selfM env sandbox_manager) (\<lambda>m.
                 case m of
                   Some h \<Rightarrow> forM ids (\<lambda>x. best_effort (pe_manager_kill env h x))
                 | None \<Rightarrow>
                     bindM (tryM (pe_manager_create env (pe_resource env))) (\<lambda>r.
                       case r of
                         Inl e \<Rightarrow> if is_Exception e then returnM () else raiseM e
                       | Inr h \<Rightarrow>
                           finallyM (forM ids (\<lambda>x. best_effort (pe_manager_kill env h x)))
                             (pe_manager_close env h))))
              (case drain_error of None \<Rightarrow> returnM (Some (length ids)) | Some e \<Rightarrow> raiseM e)))"

end
