(* ===== verification/Pool_Acquire.thy ===== *)
theory Pool_Acquire
  imports Sandbox_Pool
begin

text \<open>
  Properties of \<open>acquire\<close> (\<open>sync/pool.py\<close>): how often it asks the store, which policies may create a sandbox,
  what happens during a store outage and in a destroyed namespace, and that no sandbox taken out of the idle
  buffer is forgotten.
\<close>

section \<open>Frames\<close>

text \<open>No operation the pool is given touches the part \<open>f\<close> of the state.\<close>

definition env_keeps :: "'s PoolEnv \<Rightarrow> ('s \<Rightarrow> 'b) \<Rightarrow> bool" where
  "env_keeps env f \<longleftrightarrow>
     store_keeps (pe_store env) f \<and> keeps (pe_now env) f \<and> keeps (pe_monotonic env) f \<and>
     (\<forall>r. keeps (pe_wait env r) f) \<and> (\<forall>r. keeps (pe_wait_stop env r) f) \<and>
     (\<forall>c x t u b. keeps (pe_connect env c x t u b) f) \<and> (\<forall>c t u v b. keeps (pe_create env c t u v b) f) \<and>
     (\<forall>g c x. pe_creator env = Some g \<longrightarrow> keeps (g c x) f) \<and>
     (\<forall>g sb. pe_preparer env = Some g \<longrightarrow> keeps (g sb) f) \<and>
     (\<forall>sb t. keeps (pe_renew env sb t) f) \<and> (\<forall>sb. keeps (pe_kill env sb) f) \<and>
     (\<forall>sb. keeps (pe_close env sb) f) \<and> (\<forall>c. keeps (pe_manager_create env c) f) \<and>
     (\<forall>h x. keeps (pe_manager_kill env h x) f) \<and> (\<forall>h. keeps (pe_manager_close env h) f)"

lemma env_keepsD:
  assumes "env_keeps env f"
  shows "store_keeps (pe_store env) f" "keeps (pe_now env) f" "keeps (pe_monotonic env) f"
    "keeps (pe_connect env c x t u b) f" "keeps (pe_create env c t u v b) f" "keeps (pe_renew env sb t) f"
    "keeps (pe_kill env sb) f" "keeps (pe_close env sb) f" "keeps (pe_manager_create env c) f"
    "keeps (pe_manager_kill env h y) f" "keeps (pe_manager_close env h) f"
    "pe_creator env = Some g \<Longrightarrow> keeps (g c ctx) f" "pe_preparer env = Some k \<Longrightarrow> keeps (k sb) f"
    "keeps (pe_wait env r) f" "keeps (pe_wait_stop env r) f"
  using assms by (simp_all add: env_keeps_def)

lemma keeps_setM:
  assumes "lawful (pe_self env)" and "\<And>p. h (g p) = h p"
  shows "keeps (setM env g) (\<lambda>s. h (fst (pe_self env) s))"
  using assms by (intro keeps_modifyM) (simp add: lawful_get)

text \<open>
  The helpers of the acquire path write no attribute but the executor's queue, and ask the environment for nothing
  but \<open>renew\<close>, \<open>kill\<close>, \<open>close\<close>, \<open>get_destroy_state\<close> and \<open>remove_idle\<close>: a projection \<open>g\<close> of the state that these leave
  alone is the same after a helper.
\<close>

definition frame0 :: "'s PoolEnv \<Rightarrow> ('s \<Rightarrow> 'b) \<Rightarrow> bool" where
  "frame0 env g \<longleftrightarrow>
     (\<forall>sb t. keeps (pe_renew env sb t) g) \<and> (\<forall>sb. keeps (pe_kill env sb) g) \<and> (\<forall>sb. keeps (pe_close env sb) g) \<and>
     (\<forall>m x. keeps (pe_manager_kill env m x) g) \<and> (\<forall>q. keeps (st_get_destroy_state (pe_store env) q) g) \<and>
     (\<forall>q x. keeps (st_remove_idle (pe_store env) q x) g)"

definition frame :: "'s PoolEnv \<Rightarrow> ('s \<Rightarrow> 'b) \<Rightarrow> bool" where
  "frame env g \<longleftrightarrow> frame0 env g \<and> (\<forall>x. keeps (setM env (\<lambda>p. p\<lparr>warmup_executor := x\<rparr>)) g)"

definition frame_take :: "'s PoolEnv \<Rightarrow> ('s \<Rightarrow> 'b) \<Rightarrow> bool" where
  "frame_take env g \<longleftrightarrow>
     frame env g \<and> (\<forall>q t. keeps (try_take_idle_with_min_ttl (pe_store env) q t) g) \<and>
     (\<forall>c x t u b. keeps (pe_connect env c x t u b) g) \<and> keeps (build_direct_sandbox env) g"

named_theorems frame_intros \<open>frames of the helpers of the acquire path\<close>

lemma frame0_env [frame_intros]:
  assumes "frame0 env g"
  shows "keeps (pe_renew env sb t) g" "keeps (pe_kill env sb) g"
    "keeps (pe_close env sb) g" "keeps (pe_manager_kill env m y) g" "keeps (st_get_destroy_state (pe_store env) q) g"
    "keeps (st_remove_idle (pe_store env) q y) g"
  using assms by (simp_all add: frame0_def)

lemma frameD:
  assumes "frame env g"
  shows "frame0 env g" "keeps (setM env (\<lambda>p. p\<lparr>warmup_executor := x\<rparr>)) g"
  using assms by (simp_all add: frame_def)

lemma frame_ensure [frame_intros]:
  assumes "frame0 env g"
  shows "keeps (ensure_pool_namespace_active env) g"
    "keeps (ensure_pool_namespace_active_for_acquire env pol) g"
    "keeps (raise_if_pool_namespace_destroyed env) g"
    "keeps (dispose env sb) g"
    "keeps (ensure_pool_namespace_active_after_create env sb opol) g"
  unfolding ensure_pool_namespace_active_for_acquire_def raise_if_pool_namespace_destroyed_def
    ensure_pool_namespace_active_after_create_def ensure_pool_namespace_active_def dispose_def
  using assms by (intro keeps_intros frame_intros; assumption)+

lemma frame_kill [frame_intros]:
  assumes "frame0 env g"
  shows "keeps (kill_sandbox_best_effort env x) g" "keeps (kill_discarded_alive env ids) g"
  unfolding kill_discarded_alive_def kill_sandbox_best_effort_def
  using assms by (intro keeps_intros frame_intros; assumption)+

lemma frame_schedule [frame_intros]: "frame env g \<Longrightarrow> keeps (schedule_kill_discarded_alive env ids) g"
  unfolding schedule_kill_discarded_alive_def submit_kill_def by (intro keeps_intros frame_intros frameD; assumption)

lemma frame_connect_failed [frame_intros]: "frame env g \<Longrightarrow> keeps (connect_failed env x ids) g"
  unfolding connect_failed_def by (intro keeps_intros frame_intros frameD; assumption)

lemma frame_use_connected [frame_intros]: "frame env g \<Longrightarrow> keeps (use_connected env t sb ids) g"
  unfolding use_connected_def by (intro keeps_intros frame_intros frameD; assumption)

lemma frame_reject [frame_intros]: "frame0 env g \<Longrightarrow> keeps (reject_if_not_running env) g"
  unfolding reject_if_not_running_def by (intro keeps_intros frame_intros; assumption)

lemma frame_takeD:
  assumes "frame_take env g"
  shows "frame0 env g" "frame env g" "keeps (try_take_idle_with_min_ttl (pe_store env) q mt) g"
    "keeps (pe_connect env c x t u b) g" "keeps (build_direct_sandbox env) g"
  using assms by (simp_all add: frame_take_def frame_def)

lemma frame_direct_create: "frame_take env g \<Longrightarrow> keeps (direct_create env t pol) g"
  unfolding direct_create_def by (intro keeps_intros frame_intros frame_takeD; assumption)

lemma frame_acquire_loop: "frame_take env g \<Longrightarrow> keeps (acquire_loop env t pol n v) g"
  by (induction n arbitrary: v) (auto simp: Let_def intro!: keeps_intros frame_intros frame_takeD)

lemma frame_acquire_body: "frame_take env g \<Longrightarrow> keeps (acquire_body env t pol) g"
  unfolding acquire_body_def Let_def
  by (intro keeps_intros frame_intros frame_direct_create frame_acquire_loop; (rule frame_takeD(1,2))?; assumption)

lemma frame_self:
  assumes "lawful (pe_self env)" and "env_keeps env (\<lambda>s. h (fst (pe_self env) s))"
    and "\<And>p x. h (p\<lparr>warmup_executor := x\<rparr>) = h p"
  shows "frame_take env (\<lambda>s. h (fst (pe_self env) s))"
proof -
  have "keeps (build_direct_sandbox env) (\<lambda>s. h (fst (pe_self env) s))"
    using env_keepsD(5,12) [OF assms(2)]
    by (auto simp: build_direct_sandbox_def build_sandbox_from_creator_def Let_def split: option.split)
  moreover have "keeps (setM env (\<lambda>p. p\<lparr>warmup_executor := x\<rparr>)) (\<lambda>s. h (fst (pe_self env) s))" for x
    using assms(1,3) by (rule keeps_setM)
  ultimately show ?thesis
    using env_keepsD [OF assms(2)] by (auto simp: frame_take_def frame_def frame0_def keeps_take_min store_keepsD)
qed

section \<open>Operations in flight\<close>

text \<open>
  The count of operations in flight is balanced: whatever \<open>acquire\<close> returns or raises, and whatever the
  store, the factories and the sandboxes do other than changing that count themselves, it is afterwards what it was
  before, so a graceful shutdown waits for exactly the operations that are still running.
\<close>

theorem acquire_balances_in_flight:
  assumes "lawful (pe_self env)" and "env_keeps env (\<lambda>s. in_flight (fst (pe_self env) s))"
    and "0 \<le> in_flight (fst (pe_self env) s)"
  shows "in_flight (fst (pe_self env) (snd (acquire env timeout policy s))) = in_flight (fst (pe_self env) s)"
proof -
  let ?f = "\<lambda>s. in_flight (fst (pe_self env) s)"
  have fr: "frame_take env ?f" using assms(1,2) by (rule frame_self) simp
  have final: "wp (end_operation env) (\<lambda>_ s'. ?f s' = n) E s'" if "?f s' = n + 1" and "0 \<le> n" for E s' n
    using that by (simp add: end_operation_def wp_modifyM lawful_get [OF assms(1)])
  have body: "wp (thenM (reject_if_not_running env) (acquire_body env timeout policy))
      (\<lambda>a. wp (end_operation env) (\<lambda>_ s'. ?f s' = ?f s) (\<lambda>_ s'. ?f s' = ?f s))
      (\<lambda>e. wp (end_operation env) (\<lambda>_ s'. ?f s' = ?f s) (\<lambda>_ s'. ?f s' = ?f s)) s1"
    if "?f s1 = ?f s + 1" for s1
    by (rule wp_keeps_any [where f = ?f], intro keeps_intros frame_intros frame_acquire_body frame_takeD(1,2) [OF fr] fr)
       (use that assms(3) in \<open>auto intro!: final\<close>)
  have "wp (acquire env timeout policy) (\<lambda>_ s'. ?f s' = ?f s) (\<lambda>_ s'. ?f s' = ?f s) s"
    unfolding acquire_def wp_thenM wp_finallyM [THEN fun_cong] begin_operation_def
    by (rule wp_keeps_any [where f = ?f], intro keeps_intros frame_intros frame_acquire_body frame_takeD(1,2) [OF fr] fr)
       (use body in \<open>auto simp: wp_modifyM lawful_get [OF assms(1)] wp_finallyM wp_thenM\<close>)
  then show ?thesis by (auto simp: wp_def split: prod.splits sum.splits)
qed

section \<open>Fence and outage\<close>

lemma acquire_running:
  assumes "lawful (pe_self env)" and "lifecycle_state (fst (pe_self env) s) = L_RUNNING"
  shows "acquire env timeout policy s =
    finallyM (acquire_body env timeout policy) (end_operation env) (snd (begin_operation env s))"
  using assms
  by (simp add: acquire_def reject_if_not_running_def begin_operation_def thenM_run bindM_run finallyM_run lawful_get)

text \<open>
  Claim C4. A destroyed namespace serves nobody: when a running pool finds its namespace \<open>DESTROYING\<close> or
  \<open>DESTROYED\<close>, \<open>acquire\<close> raises \<open>PoolDestroyedException\<close> under every policy, before it takes, connects or creates
  anything; a pool that is not running raises \<open>PoolDestroyedException\<close> when the namespace is destroyed and
  \<open>PoolNotRunningException\<close> otherwise, also when the store cannot say.
\<close>

theorem acquire_rejects_when_destroyed_or_stopped:
  assumes "lawful (pe_self env)"
  shows "(lifecycle_state (fst (pe_self env) s) = L_RUNNING \<and> d \<noteq> ACTIVE \<and>
      st_get_destroy_state (pe_store env) (pe_pool_name env) (snd (begin_operation env s)) = (Inr d, s1) \<longrightarrow>
      acquire env timeout policy s =
        (Inl (PoolDestroyedException (namespace_is d (pe_pool_name env))), snd (end_operation env s1))) \<and>
    (lifecycle_state (fst (pe_self env) s) = st \<and> st \<noteq> L_RUNNING \<longrightarrow>
      (case st_get_destroy_state (pe_store env) (pe_pool_name env) s of
         (Inr d, s1) \<Rightarrow>
           acquire env timeout policy s =
             (Inl (if d = ACTIVE then cannot_acquire st
                   else PoolDestroyedException (namespace_is d (pe_pool_name env))), s1)
       | (Inl e, s1) \<Rightarrow>
           is_outage_exn e \<longrightarrow> acquire env timeout policy s = (Inl (cannot_acquire st), s1)))"
proof (intro conjI impI)
  assume a: "lifecycle_state (fst (pe_self env) s) = L_RUNNING \<and> d \<noteq> ACTIVE \<and>
      st_get_destroy_state (pe_store env) (pe_pool_name env) (snd (begin_operation env s)) = (Inr d, s1)"
  then show "acquire env timeout policy s =
        (Inl (PoolDestroyedException (namespace_is d (pe_pool_name env))), snd (end_operation env s1))"
    using assms
    by (simp add: acquire_running acquire_body_def finallyM_run thenM_run bindM_run catch_ifM_def catchM_run
        ensure_pool_namespace_active_for_acquire_def ensure_pool_namespace_active_def end_operation_def)
next
  assume a: "lifecycle_state (fst (pe_self env) s) = st \<and> st \<noteq> L_RUNNING"
  have outage: "is_Exception e \<and> \<not> is_destroyed_exn e" if "is_outage_exn e" for e using that by (cases e) auto
  show "case st_get_destroy_state (pe_store env) (pe_pool_name env) s of
         (Inr d, s1) \<Rightarrow>
           acquire env timeout policy s =
             (Inl (if d = ACTIVE then cannot_acquire st
                   else PoolDestroyedException (namespace_is d (pe_pool_name env))), s1)
       | (Inl e, s1) \<Rightarrow>
           is_outage_exn e \<longrightarrow> acquire env timeout policy s = (Inl (cannot_acquire st), s1)"
    using a outage
    by (auto simp: acquire_def reject_if_not_running_def raise_if_pool_namespace_destroyed_def thenM_run bindM_run
        catchM_run ensure_pool_namespace_active_def split: prod.splits sum.splits)
qed

text \<open>A store that is unreachable: the operations the acquire path calls raise and change nothing.\<close>

definition store_down :: "'s PoolEnv \<Rightarrow> exn \<Rightarrow> bool" where
  "store_down env e \<longleftrightarrow>
     is_outage_exn e \<and>
     (\<forall>s. st_get_destroy_state (pe_store env) (pe_pool_name env) s = (Inl e, s)) \<and>
     (\<forall>s. st_try_take_idle (pe_store env) (pe_pool_name env) s = (Inl e, s)) \<and>
     (\<forall>g t s. st_try_take_idle_min_ttl (pe_store env) = Some g \<longrightarrow> g (pe_pool_name env) t s = (Inl e, s))"

lemma store_down_take:
  "store_down env e \<Longrightarrow> try_take_idle_with_min_ttl (pe_store env) (pe_pool_name env) t s = (Inl e, s)"
  by (auto simp: try_take_idle_with_min_ttl_def store_down_def Let_def bindM_run split: option.splits)

lemma store_down_ensure:
  assumes "store_down env e"
  shows "ensure_pool_namespace_active env s = (Inl e, s)"
    and "policy_falls_through_to_direct_create policy \<Longrightarrow>
      ensure_pool_namespace_active_for_acquire env policy s = (Inr (), s)"
    and "\<not> policy_falls_through_to_direct_create policy \<Longrightarrow>
      ensure_pool_namespace_active_for_acquire env policy s = (Inl e, s)"
    and "policy_falls_through_to_direct_create policy \<Longrightarrow>
      ensure_pool_namespace_active_after_create env sb (Some policy) s = (Inr (), s)"
  using assms
  by (simp_all add: ensure_pool_namespace_active_for_acquire_def ensure_pool_namespace_active_after_create_def
      ensure_pool_namespace_active_def store_down_def catch_ifM_def catchM_run bindM_run)

lemma acquire_loop_down:
  assumes "store_down env e" and "policy_falls_through_to_direct_create policy"
  shows "acquire_loop env timeout policy (Suc n) acquire_vars s = (Inr (Inr (acquire_vars\<lparr>loop_exhausted := False\<rparr>)), s)"
  using assms by (simp add: bindM_run tryM_def store_down_take) (simp add: store_down_def)

text \<open>
  Claim C3. A store outage does not take the pool down. When every store call of the acquire path raises
  \<open>PoolStateStoreUnavailableException\<close>, a running pool under a policy that falls through to direct creation hands
  out exactly the sandbox that a plain \<open>create\<close> (and the optional \<open>renew\<close>) gives, or raises what they raise; under
  \<open>FAIL_FAST\<close> and \<open>RETRY_NEXT_IDLE\<close> it raises the outage and creates nothing.
\<close>

theorem acquire_during_outage:
  assumes "lawful (pe_self env)" and "lifecycle_state (fst (pe_self env) s) = L_RUNNING" and "store_down env e"
  shows "acquire env timeout policy s =
    (if policy_falls_through_to_direct_create policy
     then finallyM
            (bindM (build_direct_sandbox env) (\<lambda>sb.
             thenM (case timeout of
                      None \<Rightarrow> returnM ()
                    | Some t \<Rightarrow> catchM (pe_renew env sb t) (\<lambda>e. thenM (finallyM (pe_kill env sb) (pe_close env sb)) (raiseM e)))
                   (returnM sb)))
            (end_operation env) (snd (begin_operation env s))
     else (Inl e, snd (end_operation env (snd (begin_operation env s)))))"
proof (cases "policy_falls_through_to_direct_create policy")
  case True
  obtain n where n: "nat (effective_max_idle_attempts policy (max_acquire_retries (pe_config env))) = Suc n"
    using effective_max_idle_attempts_ge_1 [of policy "max_acquire_retries (pe_config env)"]
    by (metis Suc_pred' nat_0_iff zero_less_nat_eq not_le not_one_le_zero order_trans neq0_conv)
  have after: "ensure_pool_namespace_active_after_create env sb (Some policy) = returnM ()" for sb
    using store_down_ensure(4) [OF assms(3) True] by (simp add: fun_eq_iff)
  have for_acq: "ensure_pool_namespace_active_for_acquire env policy = returnM ()"
    using store_down_ensure(2) [OF assms(3) True] by (simp add: fun_eq_iff)
  have "direct_create env timeout policy =
      bindM (build_direct_sandbox env) (\<lambda>sb.
        thenM (case timeout of
                 None \<Rightarrow> returnM ()
               | Some t \<Rightarrow> catchM (pe_renew env sb t) (\<lambda>e. thenM (finallyM (pe_kill env sb) (pe_close env sb)) (raiseM e)))
              (returnM sb))"
    unfolding direct_create_def for_acq after by (simp add: fun_eq_iff thenM_run bindM_run split: prod.splits sum.splits)
  moreover have "acquire_body env timeout policy s' = direct_create env timeout policy s'" for s'
    unfolding acquire_body_def for_acq Let_def n thenM_run [of "returnM ()"] returnM_run
    by (simp add: bindM_run acquire_loop_down [OF assms(3) True] schedule_kill_discarded_alive_def True thenM_run
        acquire_vars_def [THEN arg_cong [of _ _ pending_kill]] del: acquire_loop.simps)
  then have "acquire_body env timeout policy = direct_create env timeout policy" by (rule ext)
  ultimately show ?thesis using acquire_running [OF assms(1,2)] True by simp
next
  case False
  then show ?thesis
    using acquire_running [OF assms(1,2)] store_down_ensure(3) [OF assms(3) False]
    by (simp add: acquire_body_def finallyM_run thenM_run end_operation_def)
qed

section \<open>What acquire asks for\<close>

definition traced_env :: "'s PoolEnv \<Rightarrow> ('s \<times> event list) PoolEnv" where
  "traced_env env =
     \<lparr>pe_self = ref_traced (pe_self env), pe_config = pe_config env, pe_store = traced_store (pe_store env),
      pe_connection = pe_connection env, pe_now = silent (pe_now env), pe_monotonic = silent (pe_monotonic env),
      pe_wait = (\<lambda>r. silent (pe_wait env r)), pe_wait_stop = (\<lambda>r. silent (pe_wait_stop env r)),
      pe_connect = (\<lambda>c x t u b. traced (\<lambda>r. EvConnect x (\<not> isl r)) (pe_connect env c x t u b)),
      pe_create = (\<lambda>c t u v b. traced (\<lambda>r. EvBuild (map_sum id sandbox_id r)) (pe_create env c t u v b)),
      pe_creator = map_option (\<lambda>g c x. traced (\<lambda>r. EvBuild (map_sum id sandbox_id r)) (g c x)) (pe_creator env),
      pe_preparer = map_option (\<lambda>g sb. traced (\<lambda>_. EvPrepare (sandbox_id sb)) (g sb)) (pe_preparer env),
      pe_renew = (\<lambda>sb t. traced (EvRenew (sandbox_id sb)) (pe_renew env sb t)),
      pe_kill = (\<lambda>sb. traced (\<lambda>_. EvKill (sandbox_id sb)) (pe_kill env sb)),
      pe_close = (\<lambda>sb. traced (\<lambda>_. EvClose (sandbox_id sb)) (pe_close env sb)),
      pe_manager_create = (\<lambda>c. traced EvManagerCreate (pe_manager_create env c)),
      pe_manager_kill = (\<lambda>h x. traced (\<lambda>_. EvManagerKill x) (pe_manager_kill env h x)),
      pe_manager_close = (\<lambda>h. traced (\<lambda>_. EvManagerClose h) (pe_manager_close env h))\<rparr>"

text \<open>The requests that use up idle sandboxes or make new ones.\<close>

fun is_take_request :: "event \<Rightarrow> bool" where
  "is_take_request (EvTake _ _) = True"
| "is_take_request (EvTakeMin _ _ _) = True"
| "is_take_request _ = False"

fun is_connect :: "event \<Rightarrow> bool" where
  "is_connect (EvConnect _ _) = True"
| "is_connect _ = False"

fun is_build :: "event \<Rightarrow> bool" where
  "is_build (EvBuild _) = True"
| "is_build _ = False"

definition loud :: "event list \<Rightarrow> event list" where
  "loud l = filter (\<lambda>e. is_take_request e \<or> is_connect e \<or> is_build e) l"

lemma loud_simps [simp]:
  "loud [] = []" "loud (a @ b) = loud a @ loud b"
  "loud (e # l) = (if is_take_request e \<or> is_connect e \<or> is_build e then e # loud l else loud l)"
  by (simp_all add: loud_def)

lemma keeps_traced_loud:
  "(\<And>r. loud [ev r] = []) \<Longrightarrow> keeps (traced ev op) (\<lambda>sl. loud (snd sl))"
  by (auto simp: keeps_def traced_def split: prod.splits)

lemma frame_loud: "frame (traced_env env) (\<lambda>sl. loud (snd sl))" "frame0 (traced_env env) (\<lambda>sl. loud (snd sl))"
  unfolding frame_def frame0_def by (auto simp: traced_env_def keeps_def traced_def split: prod.splits)

definition count :: "(event \<Rightarrow> bool) \<Rightarrow> event list \<Rightarrow> nat" where
  "count P l = length (filter P l)"

lemma count_simps [simp]:
  "count P [] = 0" "count P (a @ b) = count P a + count P b"
  "count P (e # l) = (if P e then 1 else 0) + count P l"
  by (simp_all add: count_def)

lemma count_loud [simp]:
  "count is_take_request (loud l) = count is_take_request l" "count is_connect (loud l) = count is_connect l"
  "count is_build (loud l) = count is_build l"
  by (simp_all add: count_def loud_def)  (metis (mono_tags, lifting) filter_cong)+

text \<open>The requests of the loop with \<open>n\<close> attempts left.\<close>

definition attempts :: "nat \<Rightarrow> event list \<Rightarrow> bool" where
  "attempts n m \<longleftrightarrow> count is_take_request m \<le> n \<and> count is_connect m \<le> count is_take_request m \<and> count is_build m = 0"

definition asks :: "event list \<Rightarrow> (event list \<Rightarrow> bool) \<Rightarrow> 's \<times> event list \<Rightarrow> bool" where
  "asks l P sl \<longleftrightarrow> (\<exists>m. loud (snd sl) = loud l @ m \<and> P m)"

lemma asks_step: "asks (l @ [e]) P sl \<Longrightarrow> (\<And>m. P m \<Longrightarrow> P' (loud [e] @ m)) \<Longrightarrow> asks l P' sl"
  by (auto simp: asks_def)

lemma asks_keep: "loud (snd sl) = loud (snd sl') \<Longrightarrow> asks l P sl = asks l P sl'"
  by (simp add: asks_def)

lemma wp_quiet:
  assumes "keeps m (\<lambda>sl. loud (snd sl))" and "\<And>a s'. loud (snd s') = loud (snd s) \<Longrightarrow> Q a s'"
    and "\<And>e s'. loud (snd s') = loud (snd s) \<Longrightarrow> E e s'"
  shows "wp m Q E s"
  using assms by (rule wp_keeps_any)

lemma wp_traced_take:
  assumes "\<And>r s' e. is_take_request e \<Longrightarrow> Q r (s', l @ [e])" and "\<And>x s' e. is_take_request e \<Longrightarrow> E x (s', l @ [e])"
  shows "wp (try_take_idle_with_min_ttl (traced_store st) p t) Q E (s, l)"
  unfolding try_take_idle_with_min_ttl_def Let_def using assms
  by (auto simp: wp_if wp_bindM wp_returnM split: option.splits intro!: wp_traced_any)

lemma traced_env_sel [simp]:
  "pe_store (traced_env env) = traced_store (pe_store env)" "pe_config (traced_env env) = pe_config env"
  "pe_connection (traced_env env) = pe_connection env"
  "pe_connect (traced_env env) c x t u b = traced (\<lambda>r. EvConnect x (\<not> isl r)) (pe_connect env c x t u b)"
  "pe_self (traced_env env) = ref_traced (pe_self env)"
  by (simp_all add: traced_env_def)

lemma is_take_request_excl [simp]: "is_take_request e \<Longrightarrow> \<not> is_connect e" "is_take_request e \<Longrightarrow> \<not> is_build e"
  by (cases e; simp)+

lemma asks_now: "loud (snd sl) = loud l @ m \<Longrightarrow> P m \<Longrightarrow> asks l P sl"
  by (auto simp: asks_def)

lemma wp_asks_more:
  assumes "wp X (\<lambda>_. asks l' P) (\<lambda>_. asks l' P) s" and "loud l' = loud l @ m" and "\<And>k. P k \<Longrightarrow> P' (m @ k)"
  shows "wp X (\<lambda>_. asks l P') (\<lambda>_. asks l P') s"
  using assms(1) by (rule wp_mono) (use assms(2,3) in \<open>auto simp: asks_def\<close>)

lemma wp_acquire_loop:
  "wp (acquire_loop (traced_env env) t pol n v) (\<lambda>_. asks l (attempts n)) (\<lambda>_. asks l (attempts n)) (s, l)"
proof (induction n arbitrary: v l s)
  case (Suc n)
  let ?A = "asks l (attempts (Suc n))"
  note quiet = frame_intros frame_loud keeps_intros
  have again: "wp (acquire_loop (traced_env env) t pol n v') (\<lambda>_. ?A) (\<lambda>_. ?A) sl"
    if "is_take_request e" and "loud (snd sl) = loud (l @ [e, EvConnect x b])" for sl v' e x b
  proof (cases sl)
    case (Pair s' l')
    show ?thesis
      unfolding Pair
      by (rule wp_asks_more [OF Suc.IH, where m = "[e, EvConnect x b]"])
         (use that Pair in \<open>auto simp: attempts_def\<close>)
  qed
  have stop: "wp X (\<lambda>_. ?A) (\<lambda>_. ?A) sl"
    if "keeps X (\<lambda>sl. loud (snd sl))" and "loud (snd sl) = loud l @ ks" and "attempts (Suc n) ks" for X ks sl
    using that(1) by (rule wp_quiet) (use that(2,3) in \<open>auto intro: asks_now\<close>)
  have fin: "loud [e] = [e]" "attempts (Suc n) [e]" "attempts (Suc n) [e, EvConnect x b]" if "is_take_request e" for e x b
    using that by (simp_all add: attempts_def)
  let ?c = "pe_config env"
  have conn: "wp (bindM (tryM (pe_connect (traced_env env) (pe_resource (traced_env env)) x (acquire_ready_timeout ?c)
        (acquire_health_check_polling_interval ?c) (acquire_skip_health_check ?c))) (\<lambda>connected.
       case connected of
         Inr sb \<Rightarrow> bindM (use_connected (traced_env env) t sb pend) (\<lambda>sb. returnM (Inl sb))
       | Inl e \<Rightarrow>
           if is_destroyed_exn e then thenM (schedule_kill_discarded_alive (traced_env env) pend) (raiseM e)
           else if is_Exception e
           then thenM (connect_failed (traced_env env) x pend) (acquire_loop (traced_env env) t pol n (w e))
           else raiseM e)) (\<lambda>_. ?A) (\<lambda>_. ?A) (s', l @ [e])"
    if e: "is_take_request e" for s' e x pend w
    unfolding wp_bindM wp_tryM traced_env_sel
  proof (rule wp_traced_any, goal_cases)
    case (1 sb s'')
    show ?case
      by (simp, rule stop [OF _ _ fin(3) [OF e, of x True]]) (use e in \<open>auto intro!: quiet\<close>)
  next
    case (2 ex s'')
    have "wp (connect_failed (traced_env env) x pend) (\<lambda>_. wp (acquire_loop (traced_env env) t pol n (w ex)) (\<lambda>_. ?A) (\<lambda>_. ?A))
        (\<lambda>_. ?A) (s'', (l @ [e]) @ [EvConnect x False])"
      by (rule wp_quiet, intro quiet)
         (use e fin again [OF e] in \<open>auto intro: asks_now\<close>)
    moreover have "wp (thenM (schedule_kill_discarded_alive (traced_env env) pend) (raiseM ex)) (\<lambda>_. ?A) (\<lambda>_. ?A)
        (s'', (l @ [e]) @ [EvConnect x False])"
      by (rule stop [OF _ _ fin(3) [OF e, of x False]]) (use e in \<open>auto intro!: quiet\<close>)
    ultimately show ?case
      using e fin by (auto simp: wp_if wp_thenM wp_raiseM intro: asks_now)
  qed
  show ?case
    unfolding acquire_loop.simps wp_bindM wp_tryM traced_env_sel(1,2)
  proof (rule wp_traced_take, goal_cases)
    case (1 r s' e)
    then have now: "?A (s', l @ [e])" using fin by (auto intro: asks_now)
    show ?case
      using conn [OF 1] now by (cases "taken_id r") (simp_all add: Let_def wp_returnM)
  next
    case (2 ex s' e)
    then have now: "?A (s', l @ [e])" using fin by (auto intro: asks_now)
    have "wp (thenM (schedule_kill_discarded_alive (traced_env env) (pending_kill v))
        (raiseM ex :: (_, Sandbox + AcquireVars) M)) (\<lambda>_. ?A) (\<lambda>_. ?A) (s', l @ [e])"
      by (rule stop [OF _ _ fin(2) [OF 2]]) (use 2 in \<open>auto intro!: quiet\<close>)
    with now show ?case by (simp add: wp_if wp_raiseM wp_returnM)
  qed
qed (auto simp: wp_returnM asks_def attempts_def)

text \<open>What an acquire under a policy may ask for, on success and on failure.\<close>

definition acquire_budget :: "PoolConfig \<Rightarrow> AcquirePolicy \<Rightarrow> event list \<Rightarrow> bool" where
  "acquire_budget c policy m \<longleftrightarrow>
     int (count is_take_request m) \<le> effective_max_idle_attempts policy (max_acquire_retries c) \<and>
     count is_connect m \<le> count is_take_request m \<and>
     count is_build m \<le> (if policy_falls_through_to_direct_create policy then 1 else 0)"

lemma wp_build:
  assumes "\<And>r s' e. is_build e \<Longrightarrow> Q r (s', l @ [e])" and "\<And>x s' e. is_build e \<Longrightarrow> E x (s', l @ [e])"
  shows "wp (build_direct_sandbox (traced_env env)) Q E (s, l)"
  unfolding build_direct_sandbox_def Let_def build_sandbox_from_creator_def using assms
  by (auto simp: traced_env_def split: option.splits intro!: wp_traced_any)

definition builds_one :: "event list \<Rightarrow> bool" where
  "builds_one m \<longleftrightarrow> count is_take_request m = 0 \<and> count is_connect m = 0 \<and> count is_build m \<le> 1"

lemma wp_direct_create:
  "wp (direct_create (traced_env env) t pol) (\<lambda>_. asks l builds_one) (\<lambda>_. asks l builds_one) (s, l)"
proof -
  note quiet = frame_intros frame_loud keeps_intros
  let ?rest = "\<lambda>sb. thenM (case t of
               None \<Rightarrow> returnM ()
             | Some t \<Rightarrow>
                 catchM (pe_renew (traced_env env) sb t) (\<lambda>e.
                   thenM (finallyM (pe_kill (traced_env env) sb) (pe_close (traced_env env) sb)) (raiseM e)))
      (thenM (ensure_pool_namespace_active_after_create (traced_env env) sb (Some pol)) (returnM sb))"
  have rest: "wp (?rest sb) (\<lambda>_. asks l builds_one) (\<lambda>_. asks l builds_one) (s', l' @ [e])"
    if "is_build e" and "loud l' = loud l" for sb s' e l'
    by (rule wp_quiet, intro quiet) (use that in \<open>auto intro!: asks_now [where m = "[e]"] simp: builds_one_def elim: is_build.elims\<close>)
  have build: "wp (bindM (build_direct_sandbox (traced_env env)) ?rest) (\<lambda>_. asks l builds_one) (\<lambda>_. asks l builds_one) sl"
    if "loud (snd sl) = loud l" for sl
  proof (cases sl)
    case (Pair s' l')
    show ?thesis
      unfolding Pair wp_bindM
      by (rule wp_build) (use that Pair rest in \<open>auto intro!: asks_now [where m = "[e]" for e] simp: builds_one_def elim: is_build.elims\<close>)
  qed
  show ?thesis
    unfolding direct_create_def wp_thenM
    by (rule wp_quiet, intro quiet) (use build in \<open>auto intro: asks_now simp: builds_one_def\<close>)
qed

lemma keeps_loud_self: "keeps (setM (traced_env env) f) (\<lambda>sl. loud (snd sl))"
  by (intro keeps_modifyM) simp

lemma asks_weaken: "asks l P sl \<Longrightarrow> (\<And>m. P m \<Longrightarrow> P' m) \<Longrightarrow> asks l P' sl"
  by (auto simp: asks_def)

lemma wp_acquire_body:
  assumes "loud (snd sl) = loud l"
  shows "wp (acquire_body (traced_env env) t pol) (\<lambda>_. asks l (acquire_budget (pe_config env) pol))
    (\<lambda>_. asks l (acquire_budget (pe_config env) pol)) sl"
proof -
  note quiet = frame_intros frame_loud keeps_intros
  let ?B = "acquire_budget (pe_config env) pol"
  define k where "k = effective_max_idle_attempts pol (max_acquire_retries (pe_config env))"
  have k: "1 \<le> k" using effective_max_idle_attempts_ge_1 by (simp add: k_def)
  have within: "?B m" if "attempts (nat k) m" for m
    using that k by (auto simp: attempts_def acquire_budget_def k_def [symmetric])
  have create: "wp (direct_create (traced_env env) t pol) (\<lambda>_. asks l ?B) (\<lambda>_. asks l ?B) sl'"
    if "policy_falls_through_to_direct_create pol" and "loud (snd sl') = loud l @ m" and "attempts (nat k) m" for sl' m
  proof (cases sl')
    case (Pair s' l')
    show ?thesis
      unfolding Pair
      by (rule wp_asks_more [OF wp_direct_create, of _ _ m])
         (use that k Pair in \<open>auto simp: builds_one_def acquire_budget_def attempts_def k_def [symmetric]\<close>)
  qed
  have after: "wp (thenM (schedule_kill_discarded_alive (traced_env env) ids)
        (if \<not> policy_falls_through_to_direct_create pol then (if b then raiseM e1 else raiseM e2)
         else direct_create (traced_env env) t pol)) (\<lambda>_. asks l ?B) (\<lambda>_. asks l ?B) sl'"
    if "loud (snd sl') = loud l @ m" and "attempts (nat k) m" for sl' m ids b e1 e2
    unfolding wp_thenM
    by (rule wp_quiet, intro quiet)
       (use that within create [OF _ _ that(2)] in \<open>auto simp: wp_if wp_raiseM intro: asks_now\<close>)
  have loop: "wp (bindM (acquire_loop (traced_env env) t pol (nat k) acquire_vars) (\<lambda>r.
      case r of Inl sb \<Rightarrow> returnM sb
      | Inr v \<Rightarrow> thenM (schedule_kill_discarded_alive (traced_env env) (pending_kill v))
          (if \<not> policy_falls_through_to_direct_create pol
           then (if attempted_any v then raiseM (e1 v) else raiseM (e2 v))
           else direct_create (traced_env env) t pol)))
      (\<lambda>_. asks l ?B) (\<lambda>_. asks l ?B) sl'"
    if "loud (snd sl') = loud l" for sl' e1 e2
  proof (cases sl')
    case (Pair s' l')
    have eq: "asks l' P = asks l P" for P :: "event list \<Rightarrow> bool"
      using that Pair by (simp add: asks_def fun_eq_iff)
    show ?thesis
      unfolding Pair wp_bindM
    proof (rule wp_mono [OF wp_acquire_loop], goal_cases)
      case (1 r sl'')
      then obtain m where "loud (snd sl'') = loud l @ m" and "attempts (nat k) m" by (auto simp: eq asks_def)
      then show ?case using after within by (cases r) (auto simp: wp_returnM intro: asks_now)
    next
      case (2 e sl'')
      then show ?case by (auto simp: eq elim: asks_weaken intro: within)
    qed
  qed
  show ?thesis
    unfolding acquire_body_def wp_thenM Let_def traced_env_sel(2) k_def [symmetric]
  proof (rule wp_quiet, intro quiet, goal_cases)
    case (1 u sl')
    with assms show ?case by (intro loop) simp
  next
    case (2 e sl')
    with assms k show ?case by (intro asks_now [where m = "[]"]) (auto simp: acquire_budget_def k_def [symmetric])
  qed
qed

text \<open>
  Claim C2. What \<open>acquire\<close> may ask for, whatever the store, the sandboxes and the factories answer or raise, on
  success and on failure: at most \<open>effective_max_idle_attempts\<close> takes from the idle buffer, at most one connect per
  take, at most one creation, and no creation at all under \<open>FAIL_FAST\<close> and \<open>RETRY_NEXT_IDLE\<close>.
\<close>

theorem acquire_stays_within_budget:
  "acquire_budget (pe_config env) policy (snd (snd (acquire (traced_env env) timeout policy (s, []))))"
proof -
  note quiet = frame_intros frame_loud keeps_intros keeps_loud_self
  let ?B = "acquire_budget (pe_config env) policy" and ?A = "asks [] (acquire_budget (pe_config env) policy)"
  have B0: "?B []"
    using effective_max_idle_attempts_ge_1 [of policy "max_acquire_retries (pe_config env)"] by (simp add: acquire_budget_def)
  have fin: "wp (end_operation (traced_env env)) (\<lambda>_. ?A) (\<lambda>_. ?A) sl" if "?A sl" for sl
    unfolding end_operation_def by (rule wp_quiet, intro quiet) (use that in \<open>auto simp: asks_def\<close>)
  have body: "wp (thenM (reject_if_not_running (traced_env env)) (acquire_body (traced_env env) timeout policy))
      (\<lambda>a. wp (end_operation (traced_env env)) (\<lambda>_. ?A) (\<lambda>_. ?A))
      (\<lambda>e. wp (end_operation (traced_env env)) (\<lambda>_. ?A) (\<lambda>_. ?A)) sl" if "loud (snd sl) = []" for sl
    unfolding wp_thenM
  proof (rule wp_quiet, intro quiet, goal_cases)
    case (1 sl')
    show ?case
      by (rule wp_mono [OF wp_acquire_body [of _ "[]"]]) (use 1 that fin in auto)
  next
    case (2 sl')
    with that B0 show ?case by (intro fin asks_now [where m = "[]"]) auto
  qed
  have "wp (acquire (traced_env env) timeout policy) (\<lambda>_. ?A) (\<lambda>_. ?A) (s, [])"
    unfolding acquire_def wp_thenM
  proof (rule wp_quiet, intro quiet, goal_cases)
    case (1 sl)
    show ?case
      unfolding begin_operation_def
      by (rule wp_quiet, intro quiet) (use 1 body B0 in \<open>auto simp: wp_finallyM intro: asks_now [where m = "[]"]\<close>)
  next
    case (2 sl)
    with B0 show ?case by (intro asks_now [where m = "[]"]) auto
  qed
  then have "?A (snd (acquire (traced_env env) timeout policy (s, [])))"
    by (auto simp: wp_def split: prod.splits sum.splits)
  then have "?B (loud (snd (snd (acquire (traced_env env) timeout policy (s, [])))))" by (auto simp: asks_def)
  then show ?thesis by (simp add: acquire_budget_def)
qed

section \<open>No sandbox is forgotten\<close>

text \<open>The sandboxes an acquire took out of the idle buffer, and those it connected to.\<close>

definition popped :: "event list \<Rightarrow> string set" where
  "popped l = {x. (\<exists>p. EvTake p (Inr (Some x)) \<in> set l) \<or>
     (\<exists>p t r. EvTakeMin p t (Inr r) \<in> set l \<and> (taken_id r = Some x \<or> x \<in> set (discarded_alive_sandbox_ids r)))}"

definition connected :: "event list \<Rightarrow> string set" where
  "connected l = {x. EvConnect x True \<in> set l}"

text \<open>The sandboxes that the kill tasks in the executor's queue will kill.\<close>

definition kill_queue :: "SandboxPool \<Rightarrow> string set" where
  "kill_queue p = (case warmup_executor p of None \<Rightarrow> {} | Some t \<Rightarrow> set (concat (tp_tasks t)))"

definition executor_live :: "SandboxPool \<Rightarrow> bool" where
  "executor_live p \<longleftrightarrow> (\<exists>t. warmup_executor p = Some t \<and> \<not> tp_shutdown t)"

lemma popped_simps [simp]: "popped [] = {}" "popped (a @ b) = popped a \<union> popped b"
  by (auto simp: popped_def)

lemma connected_simps [simp]: "connected [] = {}" "connected (a @ b) = connected a \<union> connected b"
  by (auto simp: connected_def)

definition view :: "'s PoolEnv \<Rightarrow> 's \<times> event list \<Rightarrow> ThreadPool option \<times> string set \<times> string set" where
  "view env sl = (warmup_executor (fst (pe_self env) (fst sl)), popped (snd sl), connected (snd sl))"

lemma keeps_traced_view:
  assumes "keeps op (\<lambda>s. warmup_executor (fst (pe_self env) s))" and "\<And>r. popped [ev r] = {}" and "\<And>r. connected [ev r] = {}"
  shows "keeps (traced ev op) (view env)"
  using assms by (auto simp: keeps_def traced_def view_def split: prod.splits) (metis snd_conv)

lemma frame_view:
  assumes "env_keeps env (\<lambda>s. warmup_executor (fst (pe_self env) s))"
  shows "frame0 (traced_env env) (view env)" and "keeps (build_direct_sandbox (traced_env env)) (view env)"
proof -
  note k = env_keepsD [OF assms]
  have q: "popped [e] = {}" "connected [e] = {}"
    if "case e of EvTake _ _ \<Rightarrow> False | EvTakeMin _ _ _ \<Rightarrow> False | EvConnect _ _ \<Rightarrow> False | _ \<Rightarrow> True" for e
    using that by (auto simp: popped_def connected_def)
  show "frame0 (traced_env env) (view env)"
    unfolding frame0_def
    using k store_keepsD [OF k(1)]
    by (auto simp: traced_env_def traced_store_def intro!: keeps_traced_view q)
  show "keeps (build_direct_sandbox (traced_env env)) (view env)"
    using k(5,12)
    by (auto simp: build_direct_sandbox_def build_sandbox_from_creator_def Let_def traced_env_def
        intro!: keeps_traced_view q split: option.split)
qed

lemma schedule_live:
  assumes "lawful (pe_self env)" and "executor_live (fst (pe_self env) s)"
  shows "\<exists>s'. schedule_kill_discarded_alive env ids s = (Inr (), s') \<and> executor_live (fst (pe_self env) s') \<and>
    kill_queue (fst (pe_self env) s') = kill_queue (fst (pe_self env) s) \<union> set ids \<and>
    s' = (if ids = [] then s else snd (pe_self env) (\<lambda>p. p\<lparr>warmup_executor := warmup_executor (fst (pe_self env) s')\<rparr>) s)"
  using assms
  by (auto simp: executor_live_def schedule_kill_discarded_alive_def submit_kill_def bindM_run exceptM_run
      lawful_get kill_queue_def)

lemma lawful_traced: "lawful r \<Longrightarrow> lawful (ref_traced r)"
  by (auto simp: lawful_def ref_traced_def)

lemma wp_schedule_live:
  assumes "lawful (pe_self env)" and "executor_live (fst (pe_self env) s)"
    and "\<And>s'. executor_live (fst (pe_self env) s') \<Longrightarrow>
      kill_queue (fst (pe_self env) s') = kill_queue (fst (pe_self env) s) \<union> set ids \<Longrightarrow> Q () (s', l)"
  shows "wp (schedule_kill_discarded_alive (traced_env env) ids) Q E (s, l)"
proof -
  have "executor_live (fst (pe_self (traced_env env)) (s, l))" using assms(2) by (simp add: ref_traced_def)
  then obtain sl where run: "schedule_kill_discarded_alive (traced_env env) ids (s, l) = (Inr (), sl)"
    and "executor_live (fst (pe_self (traced_env env)) sl)"
    and "kill_queue (fst (pe_self (traced_env env)) sl) = kill_queue (fst (pe_self (traced_env env)) (s, l)) \<union> set ids"
    and "sl = (if ids = [] then (s, l)
      else snd (pe_self (traced_env env)) (\<lambda>p. p\<lparr>warmup_executor := warmup_executor (fst (pe_self (traced_env env)) sl)\<rparr>) (s, l))"
    using schedule_live [of "traced_env env" "(s, l)" ids] lawful_traced [OF assms(1)] by auto
  then have "executor_live (fst (pe_self env) (fst sl))" "snd sl = l"
    "kill_queue (fst (pe_self env) (fst sl)) = kill_queue (fst (pe_self env) s) \<union> set ids"
    by (auto simp: ref_traced_def split: if_splits prod.splits)
  with assms(3) [of "fst sl"] run show ?thesis by (simp add: wp_def) (metis prod.collapse)
qed

text \<open>
  \<open>tracked env ids C sl\<close>: the executor accepts tasks, everything popped is queued for killing or in \<open>ids\<close>, and the
  acquire is connected to the sandboxes \<open>C\<close>.
\<close>

definition tracked :: "'s PoolEnv \<Rightarrow> string set \<Rightarrow> string set \<Rightarrow> 's \<times> event list \<Rightarrow> bool" where
  "tracked env ids C sl \<longleftrightarrow>
     executor_live (fst (pe_self env) (fst sl)) \<and> popped (snd sl) \<subseteq> kill_queue (fst (pe_self env) (fst sl)) \<union> ids \<and>
     connected (snd sl) = C"

lemma tracked_view: "view env sl' = view env sl \<Longrightarrow> tracked env ids C sl \<Longrightarrow> tracked env ids C sl'"
  by (simp add: tracked_def view_def executor_live_def kill_queue_def)

lemma wp_view:
  assumes "keeps m (view env)" and "tracked env ids C sl" and "\<And>a sl'. tracked env ids C sl' \<Longrightarrow> Q a sl'"
    and "\<And>e sl'. tracked env ids C sl' \<Longrightarrow> E e sl'"
  shows "wp m Q E sl"
  using assms(1) by (rule wp_keeps_any) (use assms(2-4) tracked_view in blast)+

lemma wp_take_popped:
  assumes "store_keeps st f"
    and "\<And>r s' e. f s' = f s \<Longrightarrow> popped [e] = set_option (taken_id r) \<union> set (discarded_alive_sandbox_ids r) \<Longrightarrow>
      connected [e] = {} \<Longrightarrow> Q r (s', l @ [e])"
    and "\<And>x s' e. f s' = f s \<Longrightarrow> popped [e] = {} \<Longrightarrow> connected [e] = {} \<Longrightarrow> E x (s', l @ [e])"
  shows "wp (try_take_idle_with_min_ttl (traced_store st) p t) Q E (s, l)"
proof -
  have pop: "popped [EvTake q (Inr i)] = set_option i" "connected [EvTake q r] = {}"
    "popped [EvTakeMin q d (Inr tr)] = set_option (taken_id tr) \<union> set (discarded_alive_sandbox_ids tr)"
    "connected [EvTakeMin q d tr'] = {}" "popped [EvTake q (Inl x)] = {}" "popped [EvTakeMin q d (Inl x)] = {}"
    for q i r d tr tr' x
    by (auto simp: popped_def connected_def)
  have plain: "wp (traced (EvTake p) (st_try_take_idle st p)) (\<lambda>i. Q \<lparr>taken_id = i, discarded_alive_sandbox_ids = []\<rparr>) E (s, l)"
    unfolding wp_traced
    by (rule wp_keeps_any [OF store_keepsD(1) [OF assms(1)]]) (auto intro!: assms(2,3) simp: pop)
  have "wp (traced (EvTakeMin p d) (g p d)) Q E (s, l)" if "st_try_take_idle_min_ttl st = Some g" for g d
    unfolding wp_traced
    by (rule wp_keeps_any [where f = f]) (use assms(1) that in \<open>auto intro!: assms(2,3) simp: pop store_keeps_def\<close>)
  with plain show ?thesis
    by (auto simp: try_take_idle_with_min_ttl_def Let_def wp_if wp_bindM wp_returnM split: option.splits)
qed

lemma wp_schedule_tracked:
  assumes "lawful (pe_self env)" and "tracked env (set ids \<union> D) C sl" and "\<And>sl'. tracked env D C sl' \<Longrightarrow> Q () sl'"
  shows "wp (schedule_kill_discarded_alive (traced_env env) ids) Q E sl"
proof (cases sl)
  case (Pair s l)
  show ?thesis
    unfolding Pair
    by (rule wp_schedule_live [OF assms(1)])
       (use assms(2) Pair in \<open>auto simp: tracked_def intro!: assms(3)\<close>)
qed

lemma wp_True [simp]: "wp m (\<lambda>_ _. True) (\<lambda>_ _. True) = (\<lambda>_. True)"
  by (rule ext) (auto intro: wp_any)

lemma wp_loop_tracked:
  assumes "lawful (pe_self env)" and "env_keeps env (\<lambda>s. warmup_executor (fst (pe_self env) s))"
    and "tracked env (set (pending_kill v)) {} sl"
  shows "wp (acquire_loop (traced_env env) t pol n v)
    (\<lambda>r sl. case r of Inl sb \<Rightarrow> \<exists>x. tracked env {x} {x} sl | Inr v \<Rightarrow> tracked env (set (pending_kill v)) {} sl)
    (\<lambda>_ _. True) sl"
  using assms(3)
proof (induction n arbitrary: v sl)
  case (Suc n)
  let ?Q = "\<lambda>r sl. case r of Inl sb \<Rightarrow> \<exists>x. tracked env {x} {x} sl | Inr v \<Rightarrow> tracked env (set (pending_kill v)) {} sl"
  note view = frame_intros frame_view [OF assms(2)] keeps_intros
  obtain s l where sl: "sl = (s, l)" by (cases sl)
  have used: "wp (bindM (use_connected (traced_env env) t sb pend) (\<lambda>sb. returnM (Inl sb))) ?Q (\<lambda>_ _. True) sl'"
    if "tracked env (set pend \<union> {x}) {x} sl'" for sb pend x sl'
    unfolding use_connected_def wp_bindM wp_tryM
  proof (rule wp_view [OF _ that], intro view, goal_cases)
    case (1 sl'')
    then show ?case
      by (auto simp: wp_thenM wp_returnM intro!: wp_schedule_tracked [OF assms(1), where D = "{x}"])
  next
    case (2 e sl'')
    show ?case by (simp add: wp_thenM wp_raiseM wp_if)
  qed
  have failed: "wp (thenM (connect_failed (traced_env env) x pend) (acquire_loop (traced_env env) t pol n w)) ?Q (\<lambda>_ _. True) sl'"
    if "tracked env (set pend \<union> {x}) {} sl'" and "set (pending_kill w) = set pend" for x pend w sl'
  proof -
    have rec: "wp (acquire_loop (traced_env env) t pol n w) ?Q (\<lambda>_ _. True) sl''"
      if "tracked env (set pend) {} sl''" for sl''
      using Suc.IH [of w sl''] that \<open>set (pending_kill w) = set pend\<close> by simp
    have "wp (ensure_pool_namespace_active (traced_env env)) (\<lambda>_. wp (acquire_loop (traced_env env) t pol n w) ?Q (\<lambda>_ _. True))
        (\<lambda>_ _. True) sl''" if "tracked env (set pend) {} sl''" for sl''
      by (rule wp_view [OF _ that], intro view) (auto intro: rec)
    then have "wp (schedule_kill_discarded_alive (traced_env env) [x]) (\<lambda>_. wp (bindM (selfM (traced_env env) lifecycle_state) (\<lambda>st.
        if st \<noteq> L_RUNNING
        then thenM (raise_if_pool_namespace_destroyed (traced_env env))
               (thenM (schedule_kill_discarded_alive (traced_env env) pend) (raiseM (cannot_acquire st)))
        else ensure_pool_namespace_active (traced_env env)))
        (\<lambda>_. wp (acquire_loop (traced_env env) t pol n w) ?Q (\<lambda>_ _. True)) (\<lambda>_ _. True)) (\<lambda>_ _. True) sl''"
      if "tracked env (set pend \<union> {x}) {} sl''" for sl''
      by (intro wp_schedule_tracked [OF assms(1), where D = "set pend" and C = "{}"])
         (use that in \<open>auto simp: wp_bindM wp_getM wp_if wp_thenM wp_raiseM Un_commute\<close>)
    then show ?thesis
      unfolding connect_failed_def wp_thenM
      by (intro wp_view [OF _ that(1)] view) auto
  qed
  have conn: "wp (bindM (tryM (pe_connect (traced_env env) c x d u b)) (\<lambda>connected.
       case connected of
         Inr sb \<Rightarrow> bindM (use_connected (traced_env env) t sb pend) (\<lambda>sb. returnM (Inl sb))
       | Inl e \<Rightarrow>
           if is_destroyed_exn e then thenM (schedule_kill_discarded_alive (traced_env env) pend) (raiseM e)
           else if is_Exception e
           then thenM (connect_failed (traced_env env) x pend) (acquire_loop (traced_env env) t pol n (w e))
           else raiseM e)) ?Q (\<lambda>_ _. True) (s', l')"
    if tr: "tracked env (set pend \<union> {x}) {} (s', l')" and w: "\<And>e. set (pending_kill (w e)) = set pend"
    for c x d u b pend w s' l'
  proof -
    have ev: "popped [EvConnect x b] = {}" "connected [EvConnect x b] = (if b then {x} else {})" for b
      by (auto simp: popped_def connected_def)
    have trk: "tracked env (set pend \<union> {x}) (if b then {x} else {}) (s'', l' @ [EvConnect x b])"
      if "warmup_executor (fst (pe_self env) s'') = warmup_executor (fst (pe_self env) s')" for s'' b
      using tr that by (simp add: tracked_def ev executor_live_def kill_queue_def)
    show ?thesis
      unfolding wp_bindM wp_tryM traced_env_sel wp_traced
    proof (intro wp_keeps_any [OF env_keepsD(4) [OF assms(2)]], goal_cases)
      case (1 sb s'')
      from trk [OF this, of True] have "tracked env (set pend \<union> {x}) {x} (s'', l' @ [EvConnect x True])" by simp
      from used [OF this] show ?case by simp
    next
      case (2 e s'')
      from trk [OF this, of False] have "tracked env (set pend \<union> {x}) {} (s'', l' @ [EvConnect x False])" by simp
      from failed [OF this w] show ?case by (simp add: wp_if wp_thenM wp_raiseM)
    qed
  qed
  show ?case
    unfolding sl acquire_loop.simps wp_bindM wp_tryM traced_env_sel(1,2)
  proof (rule wp_take_popped [OF env_keepsD(1) [OF assms(2)]], goal_cases)
    case (1 r s' e)
    then have "tracked env (set (pending_kill v @ discarded_alive_sandbox_ids r) \<union> set_option (taken_id r)) {} (s', l @ [e])"
      using Suc.prems by (auto simp: sl tracked_def executor_live_def kill_queue_def)
    then show ?case
      using conn by (cases "taken_id r") (auto simp: Let_def wp_returnM)
  next
    case (2 x s' e)
    then have "tracked env (set (pending_kill v)) {} (s', l @ [e])"
      using Suc.prems by (simp add: sl tracked_def executor_live_def kill_queue_def)
    then show ?case by (simp add: wp_if wp_raiseM wp_returnM wp_thenM)
  qed
qed (simp add: wp_returnM)

lemma keeps_view_setM:
  assumes "lawful (pe_self env)" and "\<And>p. warmup_executor (g p) = warmup_executor p"
  shows "keeps (setM (traced_env env) g) (view env)"
  using assms by (auto simp: keeps_def view_def ref_traced_def lawful_get split: prod.splits)

definition settled :: "'s PoolEnv \<Rightarrow> 's \<times> event list \<Rightarrow> bool" where
  "settled env sl \<longleftrightarrow> tracked env {} {} sl \<or> (\<exists>x. tracked env {x} {x} sl)"

lemma wp_body_settled:
  assumes "lawful (pe_self env)" and "env_keeps env (\<lambda>s. warmup_executor (fst (pe_self env) s))"
    and "tracked env {} {} sl"
  shows "wp (acquire_body (traced_env env) t pol) (\<lambda>_. settled env) (\<lambda>_ _. True) sl"
proof -
  note view = frame_intros frame_view [OF assms(2)] keeps_intros
  have create: "wp (direct_create (traced_env env) t pol) (\<lambda>_. settled env) (\<lambda>_ _. True) sl'"
    if "tracked env {} {} sl'" for sl'
    unfolding direct_create_def by (rule wp_view [OF _ that], intro view) (auto simp: settled_def)
  have after: "wp (thenM (schedule_kill_discarded_alive (traced_env env) (pending_kill v))
        (if \<not> policy_falls_through_to_direct_create pol then (if b then raiseM e1 else raiseM e2)
         else direct_create (traced_env env) t pol)) (\<lambda>_. settled env) (\<lambda>_ _. True) sl'"
    if "tracked env (set (pending_kill v)) {} sl'" for sl' v b e1 e2
    unfolding wp_thenM
    by (rule wp_schedule_tracked [OF assms(1), where D = "{}" and C = "{}"])
       (use that create in \<open>auto simp: wp_if wp_raiseM\<close>)
  show ?thesis
    unfolding acquire_body_def wp_thenM Let_def
  proof (rule wp_view [OF _ assms(3)], intro view, goal_cases)
    case (1 u sl')
    then have start: "tracked env (set (pending_kill acquire_vars)) {} sl'" by (simp add: acquire_vars_def)
    show ?case
      unfolding wp_bindM
    proof (rule wp_mono [OF wp_loop_tracked [OF assms(1,2) start]], goal_cases)
      case (1 r sl'')
      show ?case
      proof (cases r)
        case (Inl sb)
        with 1 show ?thesis by (simp add: wp_returnM settled_def)
      next
        case (Inr v)
        with 1 have "tracked env (set (pending_kill v)) {} sl''" by simp
        from after [OF this] Inr show ?thesis by simp
      qed
    qed simp
  qed simp
qed

text \<open>
  Claim C1. \<open>acquire\<close> forgets no sandbox. While the executor accepts tasks and nobody else replaces it: when \<open>acquire\<close>
  returns, every sandbox it took out of the idle buffer, and every near-expiry sandbox the store dropped on its
  behalf, is either the one it connected to (at most one, which it then returns) or in the queue of the kill tasks.
\<close>

theorem acquire_forgets_no_sandbox:
  assumes "lawful (pe_self env)" and "env_keeps env (\<lambda>s. warmup_executor (fst (pe_self env) s))"
    and "executor_live (fst (pe_self env) s)"
    and "acquire (traced_env env) timeout policy (s, []) = (Inr sb, (s', l))"
  shows "popped l \<subseteq> connected l \<union> kill_queue (fst (pe_self env) s') \<and> (connected l = {} \<or> (\<exists>x. connected l = {x}))"
proof -
  note view = frame_intros frame_view [OF assms(2)] keeps_intros
  have settled_view: "settled env sl'" if "view env sl' = view env sl" and "settled env sl" for sl sl'
    using that(2) tracked_view [OF that(1)] by (auto simp: settled_def)
  have fin: "wp (end_operation (traced_env env)) (\<lambda>_. settled env) (\<lambda>_ _. True) sl" if "settled env sl" for sl
    unfolding end_operation_def
    by (rule wp_keeps_any [OF keeps_view_setM [OF assms(1)]]) (use that settled_view in auto)
  have body: "wp (finallyM (thenM (reject_if_not_running (traced_env env)) (acquire_body (traced_env env) timeout policy))
      (end_operation (traced_env env))) (\<lambda>_. settled env) (\<lambda>_ _. True) sl" if "tracked env {} {} sl" for sl
    unfolding wp_finallyM wp_thenM
  proof (rule wp_view [OF _ that], intro view, goal_cases)
    case (1 u sl')
    show ?case by (rule wp_mono [OF wp_body_settled [OF assms(1,2) 1]]) (simp_all add: fin)
  qed simp
  have start: "tracked env {} {} (s, [])" using assms(3) by (simp add: tracked_def)
  have "wp (acquire (traced_env env) timeout policy) (\<lambda>_. settled env) (\<lambda>_ _. True) (s, [])"
    unfolding acquire_def wp_thenM
  proof (rule wp_view [OF _ start], intro view, goal_cases)
    case (1 u sl')
    show ?case
      unfolding begin_operation_def
      by (rule wp_view [OF keeps_view_setM [OF assms(1)] 1]) (simp_all add: body)
  qed simp
  from wp_run [OF this assms(4)] show ?thesis by (auto simp: settled_def tracked_def)
qed

section \<open>A pool over the in-memory store\<close>

type_synonym local_pool = "SandboxPool \<times> ClockedStore"

definition local_env :: "local_pool PoolStateStore \<Rightarrow> local_pool PoolEnv" where
  "local_env st =
     \<lparr>pe_self = (fst, apfst),
      pe_config = demo_config\<lparr>warmup_concurrency := Some 2, acquire_min_remaining_ttl := Some (seconds 60)\<rparr>,
      pe_store = st, pe_connection = \<lparr>conn_transport = None, owns_transport = True\<rparr>,
      pe_now = returnM 0, pe_monotonic = returnM 0, pe_wait = (\<lambda>_. returnM ()), pe_wait_stop = (\<lambda>_. returnM True),
      pe_connect = (\<lambda>c x t u b. returnM \<lparr>sandbox_id = x, sandbox_handle = 1\<rparr>),
      pe_create = (\<lambda>c t u v b. returnM \<lparr>sandbox_id = ''new'', sandbox_handle = 2\<rparr>),
      pe_creator = None, pe_preparer = None, pe_renew = (\<lambda>sb t. returnM ()),
      pe_kill = (\<lambda>sb. returnM ()), pe_close = (\<lambda>sb. returnM ()), pe_manager_create = (\<lambda>c. returnM 0),
      pe_manager_kill = (\<lambda>h x. returnM ()), pe_manager_close = (\<lambda>h. returnM ())\<rparr>"

definition local_pool_store :: "local_pool PoolStateStore" where
  "local_pool_store = zoom_store (snd, apsnd) im_store"

definition down_store :: "local_pool PoolStateStore" where
  "down_store = local_pool_store
     \<lparr>st_get_destroy_state := (\<lambda>p. raiseM outage), st_try_take_idle := (\<lambda>p. raiseM outage),
      st_try_take_idle_min_ttl := Some (\<lambda>p t. raiseM outage)\<rparr>"

definition running_pool :: SandboxPool where
  "running_pool =
     \<lparr>lifecycle_state = L_RUNNING, in_flight = 0, current_max_idle = 7, pool_reconcile_state = ReconcileState_init 3,
      stop_event = False, scheduler_thread = True, warmup_executor = Some \<lparr>tp_shutdown = False, tp_tasks = []\<rparr>,
      sandbox_manager = Some 0\<rparr>"

definition local_clock :: "InMemoryPoolStateStore \<Rightarrow> ClockedStore" where
  "local_clock im = \<lparr>cs_store = im, cs_readings = \<lambda>_. 5, cs_next = 0\<rparr>"

lemma local_lawful [simp]: "lawful (pe_self (local_env st))"
  by (simp add: local_env_def lawful_def apfst_def map_prod_def split_def)

lemma keeps_zoom_snd [keeps_intros]: "keeps (zoom (snd, apsnd) m) (\<lambda>s. h (fst s))"
  by (simp add: keeps_def zoom_def split: prod.splits)

lemma local_store_keeps: "store_keeps local_pool_store (\<lambda>s. h (fst s))"
  unfolding store_keeps_def local_pool_store_def zoom_store_def by (auto intro: keeps_intros)

lemma local_env_keeps: "store_keeps st (\<lambda>s. h (fst s)) \<Longrightarrow> env_keeps (local_env st) (\<lambda>s. h (fst s))"
  unfolding env_keeps_def local_env_def by (auto intro: keeps_intros)

lemma local_self [simp]: "pe_self (local_env st) = (fst, apfst)"
  by (simp add: local_env_def)

theorem acquire_balances_in_flight_witness:
  "in_flight (fst (snd (acquire (local_env local_pool_store) None FAIL_FAST (running_pool, local_clock im_init)))) = 0"
  using acquire_balances_in_flight [OF local_lawful [of local_pool_store], of "(running_pool, local_clock im_init)" None FAIL_FAST]
    local_env_keeps [OF local_store_keeps, of in_flight]
  by (simp add: running_pool_def)

definition fenced_pool :: local_pool where
  "fenced_pool = (running_pool, local_clock (snd (im_begin_destroy 0 ''p'' ''o'' im_init)))"

lemma fenced_reads:
  "fst (st_get_destroy_state (pe_store (local_env local_pool_store)) (pe_pool_name (local_env local_pool_store))
     (snd (begin_operation (local_env local_pool_store) fenced_pool))) = Inr DESTROYING"
  by code_simp

theorem acquire_rejects_when_destroyed_or_stopped_witness:
  "fst (acquire (local_env local_pool_store) None DIRECT_CREATE fenced_pool) =
     Inl (PoolDestroyedException (namespace_is DESTROYING ''p''))"
proof -
  let ?env = "local_env local_pool_store"
  have "st_get_destroy_state (pe_store ?env) (pe_pool_name ?env) (snd (begin_operation ?env fenced_pool)) =
      (Inr DESTROYING, snd (st_get_destroy_state (pe_store ?env) (pe_pool_name ?env) (snd (begin_operation ?env fenced_pool))))"
    by (rule prod_eqI) (simp_all add: fenced_reads)
  moreover have "lifecycle_state (fst (pe_self ?env) fenced_pool) = L_RUNNING" and "pe_pool_name ?env = ''p''"
    by (simp_all add: fenced_pool_def running_pool_def local_env_def demo_config_def)
  ultimately show ?thesis
    using acquire_rejects_when_destroyed_or_stopped [OF local_lawful [of local_pool_store],
        THEN conjunct1, rule_format, of fenced_pool DESTROYING _ None DIRECT_CREATE]
    by auto
qed

lemma local_outage_result:
  "fst (finallyM
      (bindM (build_direct_sandbox (local_env down_store)) (\<lambda>sb.
         thenM (case None of None \<Rightarrow> returnM ()
                | Some t \<Rightarrow> catchM (pe_renew (local_env down_store) sb t) (\<lambda>e.
                    thenM (finallyM (pe_kill (local_env down_store) sb) (pe_close (local_env down_store) sb)) (raiseM e)))
           (returnM sb)))
      (end_operation (local_env down_store)) (snd (begin_operation (local_env down_store) (running_pool, local_clock im_init)))) =
    Inr \<lparr>sandbox_id = ''new'', sandbox_handle = 2\<rparr>"
  by (simp add: local_env_def build_direct_sandbox_def finallyM_run bindM_run thenM_run end_operation_def begin_operation_def)

theorem acquire_during_outage_witness:
  "fst (acquire (local_env down_store) None DIRECT_CREATE (running_pool, local_clock im_init)) =
     Inr \<lparr>sandbox_id = ''new'', sandbox_handle = 2\<rparr> \<and>
   fst (acquire (local_env down_store) None FAIL_FAST (running_pool, local_clock im_init)) = Inl outage"
proof -
  let ?env = "local_env down_store" and ?s = "(running_pool, local_clock im_init)"
  have down: "store_down ?env outage"
    by (simp add: store_down_def local_env_def down_store_def outage_def)
  have run: "lifecycle_state (fst (pe_self ?env) ?s) = L_RUNNING" by (simp add: running_pool_def)
  have pol: "policy_falls_through_to_direct_create DIRECT_CREATE" "\<not> policy_falls_through_to_direct_create FAIL_FAST"
    by (simp_all add: policy_falls_through_to_direct_create_def FALLTHROUGH_POLICIES_def)
  show ?thesis
    unfolding acquire_during_outage [OF local_lawful run down] using pol local_outage_result by simp
qed

definition two_idle :: local_pool where
  "two_idle = (running_pool, local_clock (snd (im_put_idle (seconds 10) (seconds 10) ''p'' ''b''
     (snd (im_put_idle (seconds (- 86390)) (seconds (- 86390)) ''p'' ''a'' im_init)))))"

lemma two_idle_runs:
  "fst (acquire (traced_env (local_env local_pool_store)) None RETRY_NEXT_IDLE (two_idle, [])) =
     Inr \<lparr>sandbox_id = ''b'', sandbox_handle = 1\<rparr>"
  "snd (snd (acquire (traced_env (local_env local_pool_store)) None RETRY_NEXT_IDLE (two_idle, []))) =
     [EvDestroyState ''p'' (Inr ACTIVE),
      EvTakeMin ''p'' (seconds 60) (Inr \<lparr>taken_id = Some ''b'', discarded_alive_sandbox_ids = [''a'']\<rparr>),
      EvConnect ''b'' True, EvDestroyState ''p'' (Inr ACTIVE)]"
  by code_simp+

theorem acquire_forgets_no_sandbox_witness:
  "''a'' \<in> kill_queue (fst (fst (snd (acquire (traced_env (local_env local_pool_store)) None RETRY_NEXT_IDLE (two_idle, [])))))"
proof -
  let ?env = "local_env local_pool_store"
  let ?r = "acquire (traced_env ?env) None RETRY_NEXT_IDLE (two_idle, [])"
  have run: "?r = (Inr \<lparr>sandbox_id = ''b'', sandbox_handle = 1\<rparr>, (fst (snd ?r), snd (snd ?r)))"
    by (rule prod_eqI) (simp_all add: two_idle_runs(1))
  have "executor_live (fst (pe_self ?env) two_idle)"
    by (simp add: two_idle_def running_pool_def executor_live_def)
  moreover have "env_keeps ?env (\<lambda>s. warmup_executor (fst (pe_self ?env) s))"
    using local_env_keeps [OF local_store_keeps, of warmup_executor] by simp
  ultimately have "popped (snd (snd ?r)) \<subseteq> connected (snd (snd ?r)) \<union> kill_queue (fst (pe_self ?env) (fst (snd ?r)))"
    using acquire_forgets_no_sandbox [OF local_lawful _ _ run] by blast
  moreover have "''a'' \<in> popped (snd (snd ?r))" and "''a'' \<notin> connected (snd (snd ?r))"
    unfolding two_idle_runs by (simp_all add: popped_def connected_def)
  ultimately show ?thesis by auto
qed

end
