(* ===== verification/Pool_Manager.thy ===== *)
theory Pool_Manager
  imports Pool_Acquire
begin

text \<open>
  The manager of shared pool namespaces \<open>SandboxPoolManagerSync\<close> (\<open>opensandbox/pool_manager.py\<close>): \<open>destroy\<close> fences a
  namespace, drains and kills its idle sandboxes, clears its state and leaves a tombstone. The loop over the idle
  buffer has fuel; \<open>None\<close> means that the fuel ran out.
\<close>

section \<open>Operations\<close>

record 's ManagerEnv =
  me_store :: "'s PoolStateStore"
  me_connection :: ConnectionConfig
  me_owner_id :: string
  me_factory :: "ConnectionConfig \<Rightarrow> ('s, nat) M"
  me_kill :: "nat \<Rightarrow> string \<Rightarrow> ('s, unit) M"
  me_close :: "nat \<Rightarrow> ('s, unit) M"
  me_monotonic :: "('s, rat) M"

definition manager_owner :: "string option \<Rightarrow> string \<Rightarrow> string" where
  "manager_owner owner uuid =
     (case owner of None \<Rightarrow> ''pool-manager-'' @ uuid | Some w \<Rightarrow> if w = [] then ''pool-manager-'' @ uuid else w)"

definition default_destroy_options :: PoolDestroyOptions where
  "default_destroy_options = \<lparr>strategy = FORCE, tombstone_ttl = Some (seconds (7 * 86400)), opt_drain_timeout = seconds 30\<rparr>"

definition destroy_options :: "PoolDestroyOptions option \<Rightarrow> PoolDestroyOptions" where
  "destroy_options opts = (case opts of None \<Rightarrow> default_destroy_options | Some o' \<Rightarrow> o')"

definition validate_destroy_options :: "PoolDestroyOptions \<Rightarrow> unit result" where
  "validate_destroy_options options =
     guardE (strategy options = FORCE) (ValueError ''Only FORCE pool destroy strategy is supported'')"

definition already_destroyed :: "string \<Rightarrow> PoolDestroyResult" where
  "already_destroyed p =
     \<lparr>res_pool_name = p, res_state = DESTROYED, drained_idle_count = 0, killed_idle_count = 0,
      persistent_state_cleared = False\<rparr>"

text \<open>The \<open>try: manager.kill_sandbox\<close> and the deadline test of the loop; \<open>drain\<close> is \<open>drain_timeout_seconds\<close>.\<close>

definition kill_counted :: "'s ManagerEnv \<Rightarrow> nat \<Rightarrow> string \<Rightarrow> nat \<Rightarrow> ('s, nat) M" where
  "kill_counted env h x killed = exceptM (thenM (me_kill env h x) (returnM (killed + 1))) (\<lambda>_. returnM killed)"

definition check_deadline :: "'s ManagerEnv \<Rightarrow> string \<Rightarrow> rat \<Rightarrow> rat \<Rightarrow> ('s, unit) M" where
  "check_deadline env p drain deadline =
     (if 0 < drain
      then bindM (me_monotonic env) (\<lambda>t.
             if deadline < t
             then raiseM (PoolDestroyIncompleteException (''Pool destroy drain timed out: pool_name='' @ p) None)
             else returnM ())
      else returnM ())"

fun destroy_drain ::
  "'s ManagerEnv \<Rightarrow> string \<Rightarrow> nat \<Rightarrow> rat \<Rightarrow> rat \<Rightarrow> nat \<Rightarrow> nat \<Rightarrow> nat \<Rightarrow> ('s, (nat \<times> nat) option) M" where
  "destroy_drain env p h drain deadline 0 drained killed = returnM None"
| "destroy_drain env p h drain deadline (Suc fuel) drained killed =
     bindM (st_try_take_idle (me_store env) p) (\<lambda>taken.
       case taken of
         None \<Rightarrow> returnM (Some (drained, killed))
       | Some x \<Rightarrow>
           bindM (kill_counted env h x killed) (\<lambda>killed'.
           thenM (check_deadline env p drain deadline)
             (destroy_drain env p h drain deadline fuel (drained + 1) killed')))"

definition destroy_finish ::
  "'s ManagerEnv \<Rightarrow> string \<Rightarrow> PoolDestroyOptions \<Rightarrow> nat \<times> nat \<Rightarrow> ('s, PoolDestroyResult) M" where
  "destroy_finish env p options counts =
     thenM (exceptM (st_clear_pool_state (me_store env) p) (\<lambda>e.
              raiseM (PoolDestroyIncompleteException
                (''Pool destroy failed to clear persistent state: pool_name='' @ p) (Some e))))
     (thenM (exceptM (st_mark_destroyed (me_store env) p (me_owner_id env) (tombstone_ttl options)) (\<lambda>e.
              raiseM (PoolDestroyIncompleteException
                (''Pool destroy failed to write tombstone: pool_name='' @ p) (Some e))))
       (returnM \<lparr>res_pool_name = p, res_state = DESTROYED, drained_idle_count = fst counts,
                 killed_idle_count = snd counts, persistent_state_cleared = True\<rparr>))"

text \<open>The \<open>try\<close> block with its \<open>finally: manager.close()\<close>, and what follows \<open>begin_destroy\<close>.\<close>

definition drain_and_finish ::
  "'s ManagerEnv \<Rightarrow> string \<Rightarrow> PoolDestroyOptions \<Rightarrow> nat \<Rightarrow> rat \<Rightarrow> rat \<Rightarrow> nat \<Rightarrow> ('s, PoolDestroyResult option) M" where
  "drain_and_finish env p options h drain deadline fuel =
     finallyM
       (bindM (destroy_drain env p h drain deadline fuel 0 0) (\<lambda>r.
          case r of
            None \<Rightarrow> returnM None
          | Some counts \<Rightarrow> bindM (destroy_finish env p options counts) (\<lambda>res. returnM (Some res))))
       (me_close env h)"

definition destroy_fenced ::
  "'s ManagerEnv \<Rightarrow> string \<Rightarrow> PoolDestroyOptions \<Rightarrow> nat \<Rightarrow> ('s, PoolDestroyResult option) M" where
  "destroy_fenced env p options fuel =
     bindM (me_factory env (connection_for_pool_resource (me_connection env))) (\<lambda>h.
     bindM (me_monotonic env) (\<lambda>t.
     let drain = total_seconds (opt_drain_timeout options)
     in drain_and_finish env p options h drain (fl (t + drain)) fuel))"

definition destroy ::
  "'s ManagerEnv \<Rightarrow> string \<Rightarrow> PoolDestroyOptions option \<Rightarrow> nat \<Rightarrow> ('s, PoolDestroyResult option) M" where
  "destroy env p opts fuel =
     (let options = destroy_options opts
      in thenM (liftE (validate_destroy_options options))
        (bindM (st_get_destroy_state (me_store env) p) (\<lambda>d.
           if d = DESTROYED then returnM (Some (already_destroyed p))
           else bindM (tryM (st_begin_destroy (me_store env) p (me_owner_id env))) (\<lambda>begun.
             case begun of
               Inl e \<Rightarrow> if is_destroyed_exn e then returnM (Some (already_destroyed p)) else raiseM e
             | Inr _ \<Rightarrow> destroy_fenced env p options fuel))))"

section \<open>Draining\<close>






section \<open>Destroying a namespace of the in-memory store\<close>

text \<open>The manager over the in-memory store; the state \<open>'x\<close> of the sandbox service is arbitrary.\<close>

definition in_memory_manager :: "'x ManagerEnv \<Rightarrow> (ClockedStore \<times> 'x) ManagerEnv" where
  "in_memory_manager env =
     \<lparr>me_store = zoom_store (fst, apfst) im_store, me_connection = me_connection env,
      me_owner_id = me_owner_id env, me_factory = (\<lambda>c. zoom (snd, apsnd) (me_factory env c)),
      me_kill = (\<lambda>h x. zoom (snd, apsnd) (me_kill env h x)), me_close = (\<lambda>h. zoom (snd, apsnd) (me_close env h)),
      me_monotonic = zoom (snd, apsnd) (me_monotonic env)\<rparr>"

lemma in_memory_manager_sel [simp]:
  "me_store (in_memory_manager env) = zoom_store (fst, apfst) im_store"
  "me_owner_id (in_memory_manager env) = me_owner_id env"
  by (simp_all add: in_memory_manager_def)






lemma wp_cs_now [wp_simps]: "wp cs_now Q E = (\<lambda>w. Q (cs_readings w (cs_next w)) (w\<lparr>cs_next := Suc (cs_next w)\<rparr>))"
  by (simp add: wp_def cs_now_def fun_eq_iff)

















end
