(* ===== verification/Py_Text.thy ===== *)
theory Py_Text
  imports OSB_Prelude "HOL-Library.Sublist"
begin

text \<open>
  The operations on Python strings that the components share: case folding, prefixes, splitting and the
  conversion between integers and their decimal text. A string is a list of 8-bit characters; case folding
  touches the ASCII letters only, which are the only letters in the tokens the code compares with.
\<close>

section \<open>Characters\<close>

abbreviation char_code :: "char \<Rightarrow> nat" where
  "char_code c \<equiv> of_char c"

definition is_digit :: "char \<Rightarrow> bool" where
  "is_digit c \<longleftrightarrow> 48 \<le> char_code c \<and> char_code c \<le> 57"

definition is_lower :: "char \<Rightarrow> bool" where
  "is_lower c \<longleftrightarrow> 97 \<le> char_code c \<and> char_code c \<le> 122"

definition is_upper :: "char \<Rightarrow> bool" where
  "is_upper c \<longleftrightarrow> 65 \<le> char_code c \<and> char_code c \<le> 90"

definition py_upper :: "string \<Rightarrow> string" where
  "py_upper = map (\<lambda>c. if is_lower c then char_of (char_code c - 32) else c)"

definition py_lower :: "string \<Rightarrow> string" where
  "py_lower = map (\<lambda>c. if is_upper c then char_of (char_code c + 32) else c)"

abbreviation py_startswith :: "string \<Rightarrow> string \<Rightarrow> bool" where
  "py_startswith s p \<equiv> prefix p s"

abbreviation py_endswith :: "string \<Rightarrow> string \<Rightarrow> bool" where
  "py_endswith s p \<equiv> suffix p s"

text \<open>\<open>s.split(c)\<close> for a separator of one character.\<close>

fun py_split :: "char \<Rightarrow> string \<Rightarrow> string list" where
  "py_split c [] = [[]]"
| "py_split c (x # xs) =
     (if x = c then [] # py_split c xs
      else case py_split c xs of [] \<Rightarrow> [[x]] | w # ws \<Rightarrow> (x # w) # ws)"

text \<open>\<open>s.split(c, 1)\<close>, when \<open>c\<close> occurs in \<open>s\<close>.\<close>

definition py_split1 :: "char \<Rightarrow> string \<Rightarrow> string \<times> string" where
  "py_split1 c s = (takeWhile (\<lambda>x. x \<noteq> c) s, tl (dropWhile (\<lambda>x. x \<noteq> c) s))"

lemma py_split_nonempty [simp]: "py_split c s \<noteq> []"
  by (induction s) (auto split: list.splits)

lemma py_split_no_sep: "w \<in> set (py_split c s) \<Longrightarrow> c \<notin> set w"
  by (induction s arbitrary: w) (auto split: list.splits if_splits)

text \<open>\<open>c.join(ws)\<close>\<close>

fun py_join :: "string \<Rightarrow> string list \<Rightarrow> string" where
  "py_join c [] = []"
| "py_join c [w] = w"
| "py_join c (w # v # ws) = w @ c @ py_join c (v # ws)"

lemma py_join_Cons: "ws \<noteq> [] \<Longrightarrow> py_join c (w # ws) = w @ c @ py_join c ws"
  by (cases ws) auto

lemma py_join_split [simp]: "py_join [c] (py_split c s) = s"
proof (induction s)
  case (Cons x s)
  obtain w ws where s: "py_split c s = w # ws" by (cases "py_split c s") auto
  with Cons show ?case by (cases ws) (auto simp: py_join_Cons)
qed simp

lemma py_split_append: "c \<notin> set w \<Longrightarrow> py_split c (w @ c # s) = w # py_split c s"
  by (induction w) auto

lemma py_split_word: "c \<notin> set w \<Longrightarrow> py_split c w = [w]"
  by (induction w) auto

lemma py_split_join: "ws \<noteq> [] \<Longrightarrow> (\<And>w. w \<in> set ws \<Longrightarrow> c \<notin> set w) \<Longrightarrow> py_split c (py_join [c] ws) = ws"
proof (induction ws)
  case (Cons w ws)
  show ?case
  proof (cases ws)
    case Nil
    with Cons.prems show ?thesis by (simp add: py_split_word)
  next
    case (Cons v vs)
    with Cons.prems Cons.IH show ?thesis by (simp add: py_split_append)
  qed
qed simp

section \<open>Decimal integers\<close>

definition digit_value :: "char \<Rightarrow> nat" where
  "digit_value c = char_code c - 48"

definition nat_of_digits :: "string \<Rightarrow> nat" where
  "nat_of_digits ds = foldl (\<lambda>n c. 10 * n + digit_value c) 0 ds"

text \<open>
  \<open>int(s)\<close>: white space around, a sign, and digits that single underscores may separate; more than 4300
  digits are refused.
\<close>

fun drop_underscores :: "string \<Rightarrow> string option" where
  "drop_underscores [] = None"
| "drop_underscores [c] = (if is_digit c then Some [c] else None)"
| "drop_underscores (c # d # cs) =
     (if \<not> is_digit c then None
      else map_option (Cons c) (drop_underscores (if d = CHR ''_'' then cs else d # cs)))"

definition py_nat_of_str :: "string \<Rightarrow> nat option" where
  "py_nat_of_str s =
     (case drop_underscores s of
        None \<Rightarrow> None
      | Some ds \<Rightarrow> if 4300 < length ds then None else Some (nat_of_digits ds))"

definition py_int_of_str :: "string \<Rightarrow> int option" where
  "py_int_of_str s =
     (case py_strip s of
        [] \<Rightarrow> None
      | c # cs \<Rightarrow>
          if c = CHR ''-'' then map_option (\<lambda>n. - int n) (py_nat_of_str cs)
          else if c = CHR ''+'' then map_option int (py_nat_of_str cs)
          else map_option int (py_nat_of_str (c # cs)))"

lemma char_code_char_of: "n < 256 \<Longrightarrow> char_code (char_of n) = n"
  by simp

lemma digit_char: "n < 10 \<Longrightarrow> is_digit (char_of (48 + n)) \<and> digit_value (char_of (48 + n)) = n"
  by (simp add: is_digit_def digit_value_def)

lemma nat_of_digits_snoc [simp]: "nat_of_digits (ds @ [c]) = 10 * nat_of_digits ds + digit_value c"
  by (simp add: nat_of_digits_def)

lemma digits_of_nat_facts:
  "nat_of_digits (digits_of_nat n) = n \<and> list_all is_digit (digits_of_nat n) \<and> digits_of_nat n \<noteq> []"
proof (induction n rule: digits_of_nat.induct)
  case (1 n)
  show ?case
  proof (cases "n < 10")
    case True
    then have "digits_of_nat n = [char_of (48 + n)]" by (simp add: digits_of_nat.simps)
    moreover have "nat_of_digits [char_of (48 + n)] = n" using digit_char [OF True] by (simp add: nat_of_digits_def)
    ultimately show ?thesis using digit_char [OF True] by simp
  next
    case False
    then have eq: "digits_of_nat n = digits_of_nat (n div 10) @ [char_of (48 + n mod 10)]"
      by (subst digits_of_nat.simps) simp
    have "n mod 10 < 10" by simp
    from digit_char [OF this] 1 [OF False] show ?thesis by (simp only: eq) simp
  qed
qed

lemma length_digits_of_nat: "n < 10 ^ k \<Longrightarrow> 0 < k \<Longrightarrow> length (digits_of_nat n) \<le> k"
proof (induction n arbitrary: k rule: digits_of_nat.induct)
  case (1 n)
  show ?case
  proof (cases "n < 10")
    case False
    with "1.prems" obtain j where j: "k = Suc j" "0 < j" by (cases k; cases "k - 1") auto
    with "1.prems" have "n div 10 < 10 ^ j" by (simp add: div_less_iff_less_mult)
    from "1.IH" [OF False this j(2)] False j(1) show ?thesis by (subst digits_of_nat.simps) simp
  qed (use "1.prems" in \<open>simp add: digits_of_nat.simps\<close>)
qed

lemma drop_underscores_digits: "ds \<noteq> [] \<Longrightarrow> list_all is_digit ds \<Longrightarrow> drop_underscores ds = Some ds"
  by (induction ds rule: drop_underscores.induct) (auto simp: is_digit_def)

lemma py_strip_id: "s = [] \<or> \<not> py_isspace (hd s) \<and> \<not> py_isspace (last s) \<Longrightarrow> py_strip s = s"
proof -
  assume s: "s = [] \<or> \<not> py_isspace (hd s) \<and> \<not> py_isspace (last s)"
  then have "dropWhile py_isspace s = s" and "dropWhile py_isspace (rev s) = rev s"
    by (auto simp: dropWhile_eq_self_iff hd_rev)
  then show ?thesis by (simp add: py_strip_def py_lstrip_def)
qed

lemma digit_not_space: "is_digit c \<Longrightarrow> \<not> py_isspace c"
  by (auto simp: is_digit_def py_isspace_def Let_def)

text \<open>\<open>int(str(i)) == i\<close> for integers of at most 4300 digits.\<close>

lemma py_int_of_str_of_int:
  assumes "\<bar>i\<bar> < 10 ^ 4300"
  shows "py_int_of_str (str_of_int i) = Some i"
proof -
  define ds where "ds = digits_of_nat (nat \<bar>i\<bar>)"
  have ds: "nat_of_digits ds = nat \<bar>i\<bar>" "list_all is_digit ds" "ds \<noteq> []"
    using digits_of_nat_facts by (simp_all add: ds_def)
  have "nat \<bar>i\<bar> < 10 ^ 4300" using assms by (simp add: nat_less_iff del: power_numeral)
  then have len: "length ds \<le> 4300" unfolding ds_def by (rule length_digits_of_nat) simp
  obtain c cs where c: "ds = c # cs" using ds(3) by (cases ds) auto
  have last: "\<not> py_isspace (last ds)" "\<not> py_isspace c" "c \<noteq> CHR ''-''" "c \<noteq> CHR ''+''"
    using ds(2) digit_not_space [of "last ds"] digit_not_space [of c] last_in_set [OF ds(3)]
    by (auto simp: c list_all_iff is_digit_def)
  have nat: "py_nat_of_str ds = Some (nat \<bar>i\<bar>)"
    using drop_underscores_digits [OF ds(3,2)] len ds(1) by (simp add: py_nat_of_str_def)
  show ?thesis
  proof (cases "i < 0")
    case True
    then have s: "str_of_int i = CHR ''-'' # ds" by (simp add: str_of_int_def ds_def)
    have "py_strip (CHR ''-'' # ds) = CHR ''-'' # ds"
      using last(1) ds(3) by (intro py_strip_id) (simp add: py_isspace_def)
    with nat True show ?thesis by (simp add: py_int_of_str_def s)
  next
    case False
    then have s: "str_of_int i = ds" by (simp add: str_of_int_def ds_def)
    have "py_strip ds = ds" using last c by (intro py_strip_id) simp
    with nat False last show ?thesis by (simp add: py_int_of_str_def s c)
  qed
qed

end
