(* ===== verification/Retry_Policy.thy ===== *)
theory Retry_Policy
  imports Prog_Logic Py_Float Py_Text
begin

text \<open>
  The retry policy of the HTTP transport (\<open>transport/retry.py\<close>), the decision and backoff functions
  (\<open>transport/_decision.py\<close>) and the classification of failures (\<open>transport/_classify.py\<close>).
  The random number generator and the parser of HTTP dates belong to the standard library and are arguments.
\<close>

section \<open>Policy\<close>

definition idempotent_methods :: "string list" where
  "idempotent_methods = [''GET'', ''HEAD'', ''PUT'', ''DELETE'', ''OPTIONS'']"

definition is_idempotent_method :: "string \<Rightarrow> bool" where
  "is_idempotent_method m \<longleftrightarrow> List.member idempotent_methods (py_upper m)"

datatype JitterMode = NONE | FULL | DECORRELATED

datatype RetryCause = PRE_SEND | OPAQUE_TRANSPORT | READ_TIMEOUT | WRITE_TIMEOUT | UNEXPECTED_EOF
  | STATUS_408 | STATUS_425 | STATUS_429 | STATUS_500 | STATUS_502 | STATUS_503 | STATUS_504 | STATUS_OTHER

definition for_status :: "int \<Rightarrow> RetryCause" where
  "for_status code =
     (if code = 408 then STATUS_408 else if code = 425 then STATUS_425 else if code = 429 then STATUS_429
      else if code = 500 then STATUS_500 else if code = 502 then STATUS_502 else if code = 503 then STATUS_503
      else if code = 504 then STATUS_504 else STATUS_OTHER)"

record RetryPolicy =
  max_retries :: int
  initial_backoff :: timedelta
  max_backoff :: timedelta
  backoff_multiplier :: rat
  jitter :: JitterMode
  retryable_status_codes_idempotent :: "int list"
  retryable_status_codes_non_idempotent :: "int list"
  per_attempt_timeout :: "timedelta option"
  overall_deadline :: "timedelta option"
  on_retry_set :: bool

definition default_policy :: RetryPolicy where
  "default_policy =
     \<lparr>max_retries = 3, initial_backoff = milliseconds 500, max_backoff = seconds 30, backoff_multiplier = 2,
      jitter = DECORRELATED, retryable_status_codes_idempotent = [429, 502, 503],
      retryable_status_codes_non_idempotent = [], per_attempt_timeout = None, overall_deadline = None,
      on_retry_set = False\<rparr>"

definition disabled :: RetryPolicy where
  "disabled = default_policy\<lparr>max_retries := 0\<rparr>"

definition wraps_transport :: "RetryPolicy \<Rightarrow> bool" where
  "wraps_transport pol \<longleftrightarrow>
     0 < max_retries pol \<or> per_attempt_timeout pol \<noteq> None \<or> overall_deadline pol \<noteq> None \<or> on_retry_set pol"

definition retryable_statuses_for :: "RetryPolicy \<Rightarrow> string \<Rightarrow> int list" where
  "retryable_statuses_for pol m =
     (if is_idempotent_method m then retryable_status_codes_idempotent pol
      else retryable_status_codes_non_idempotent pol)"

definition positive_or_none :: "timedelta option \<Rightarrow> bool" where
  "positive_or_none d \<longleftrightarrow> (case d of None \<Rightarrow> True | Some t \<Rightarrow> 0 < t)"

definition RetryPolicy_post_init :: "RetryPolicy \<Rightarrow> RetryPolicy result" where
  "RetryPolicy_post_init pol =
     bindE (guardE (0 \<le> max_retries pol) (ValueError ''max_retries must be >= 0'')) (\<lambda>_.
     bindE (guardE (0 \<le> initial_backoff pol) (ValueError ''initial_backoff must be >= 0'')) (\<lambda>_.
     bindE (guardE (0 \<le> max_backoff pol) (ValueError ''max_backoff must be >= 0'')) (\<lambda>_.
     bindE (guardE (1 \<le> backoff_multiplier pol) (ValueError ''backoff_multiplier must be >= 1.0'')) (\<lambda>_.
     bindE (guardE (positive_or_none (per_attempt_timeout pol)) (ValueError ''per_attempt_timeout must be > 0 when set'')) (\<lambda>_.
     bindE (guardE (positive_or_none (overall_deadline pol)) (ValueError ''overall_deadline must be > 0 when set'')) (\<lambda>_.
     Inr (pol\<lparr>retryable_status_codes_idempotent := remdups (retryable_status_codes_idempotent pol),
              retryable_status_codes_non_idempotent := remdups (retryable_status_codes_non_idempotent pol)\<rparr>)))))))"

definition wf_policy :: "RetryPolicy \<Rightarrow> bool" where
  "wf_policy pol \<longleftrightarrow> 0 \<le> max_retries pol \<and> 0 \<le> initial_backoff pol \<and> 0 \<le> max_backoff pol \<and> 1 \<le> backoff_multiplier pol \<and>
     positive_or_none (per_attempt_timeout pol) \<and> positive_or_none (overall_deadline pol)"

section \<open>Outcomes\<close>

record Outcome =
  is_transport_error :: bool
  status_code :: "int option"
  is_pre_send :: bool
  is_opaque_transport :: bool
  cause :: RetryCause

definition transport_outcome :: "bool \<Rightarrow> bool \<Rightarrow> RetryCause \<Rightarrow> Outcome" where
  "transport_outcome pre opaque c =
     \<lparr>is_transport_error = True, status_code = None, is_pre_send = pre, is_opaque_transport = opaque, cause = c\<rparr>"

fun httpx_outcome :: "httpx_error \<Rightarrow> Outcome" where
  "httpx_outcome ConnectError = transport_outcome True False PRE_SEND"
| "httpx_outcome ConnectTimeout = transport_outcome True False PRE_SEND"
| "httpx_outcome PoolTimeout = transport_outcome True False PRE_SEND"
| "httpx_outcome ReadTimeout = transport_outcome False False READ_TIMEOUT"
| "httpx_outcome WriteTimeout = transport_outcome False False WRITE_TIMEOUT"
| "httpx_outcome RemoteProtocolError = transport_outcome False False UNEXPECTED_EOF"
| "httpx_outcome OtherTransportError = transport_outcome False True OPAQUE_TRANSPORT"

fun classify_transport_exception :: "exn \<Rightarrow> Outcome" where
  "classify_transport_exception (HttpxError k _ _) = httpx_outcome k"
| "classify_transport_exception _ =
     \<lparr>is_transport_error = False, status_code = None, is_pre_send = False, is_opaque_transport = False, cause = STATUS_OTHER\<rparr>"

record Response =
  resp_status :: int
  resp_retry_after :: "string option"
  resp_request_id :: "string option"

definition outcome_for_response :: "Response \<Rightarrow> Outcome" where
  "outcome_for_response r =
     \<lparr>is_transport_error = False, status_code = Some (resp_status r), is_pre_send = False, is_opaque_transport = False,
      cause = for_status (resp_status r)\<rparr>"

section \<open>The decision\<close>

definition should_retry ::
  "string \<Rightarrow> Outcome \<Rightarrow> int \<Rightarrow> RetryPolicy \<Rightarrow> timedelta \<Rightarrow> bool \<Rightarrow> bool \<Rightarrow> bool" where
  "should_retry m oc retries_used pol elapsed cancelled body_replayable =
     (if max_retries pol \<le> retries_used then False
      else if (case overall_deadline pol of None \<Rightarrow> False | Some d \<Rightarrow> d \<le> elapsed) then False
      else if cancelled then False
      else if is_transport_error oc then
        (if is_pre_send oc then (if \<not> body_replayable \<and> 1 \<le> retries_used then False else True)
         else is_idempotent_method m)
      else case status_code oc of
        None \<Rightarrow> False
      | Some c \<Rightarrow> if \<not> body_replayable then False else List.member (retryable_statuses_for pol m) c)"

section \<open>Backoff\<close>

text \<open>
  \<open>m ** k\<close> on doubles, rounded correctly; a result beyond the largest double raises. The product with the
  initial backoff cannot raise (it would be infinite), and only its minimum with \<open>max_backoff\<close> is used.
\<close>

definition py_pow :: "rat \<Rightarrow> nat \<Rightarrow> rat result" where
  "py_pow m k =
     (if 2 ^ 1024 \<le> fl (m ^ k) then Inl (OverflowError ''Numerical result out of range'') else Inr (fl (m ^ k)))"

definition exp_backoff :: "RetryPolicy \<Rightarrow> nat \<Rightarrow> rat result" where
  "exp_backoff pol retry_index =
     (let max_s = total_seconds (max_backoff pol); base_s = total_seconds (initial_backoff pol)
      in if 0 < base_s
         then bindE (py_pow (backoff_multiplier pol) retry_index) (\<lambda>p. Inr (min max_s (fl (base_s * p))))
         else Inr 0)"

definition compute_backoff ::
  "(rat \<Rightarrow> rat \<Rightarrow> ('s, rat) M) \<Rightarrow> nat \<Rightarrow> RetryPolicy \<Rightarrow> timedelta \<Rightarrow> ('s, timedelta) M" where
  "compute_backoff uniform retry_index pol previous_sleep =
     (let max_s = total_seconds (max_backoff pol); base_s = total_seconds (initial_backoff pol);
          m = backoff_multiplier pol
      in bindM (liftE (exp_backoff pol retry_index)) (\<lambda>exp_s.
         bindM (case jitter pol of
                  NONE \<Rightarrow> returnM exp_s
                | FULL \<Rightarrow> if 0 < exp_s then uniform 0 exp_s else returnM 0
                | DECORRELATED \<Rightarrow>
                    (let prev_s = total_seconds previous_sleep
                     in if retry_index = 0 \<or> prev_s \<le> 0 then returnM (min base_s max_s)
                        else (let upper = min max_s (fl (prev_s * m)); lower = base_s
                              in if upper < lower then returnM upper else uniform lower upper)))
           (\<lambda>sleep_s. returnM (timedelta_seconds (max 0 sleep_s)))))"

section \<open>Retry-After\<close>

datatype ParsedDate = Naive datetime | Aware datetime

fun as_utc :: "ParsedDate \<Rightarrow> datetime" where
  "as_utc (Naive t) = t"
| "as_utc (Aware t) = t"

definition RETRY_AFTER_CAP :: timedelta where
  "RETRY_AFTER_CAP = seconds 60"

definition MAX_RETRY_AFTER_SECONDS :: int where
  "MAX_RETRY_AFTER_SECONDS = 100 * 365 * 24 * 3600"

definition parse_retry_after ::
  "(string \<Rightarrow> ParsedDate option) \<Rightarrow> ('s, datetime) M \<Rightarrow> string option \<Rightarrow> datetime option \<Rightarrow> ('s, timedelta option) M" where
  "parse_retry_after parsedate utcnow header_value now =
     (case header_value of
        None \<Rightarrow> returnM None
      | Some h \<Rightarrow>
          (let raw = py_strip h
           in if raw = [] then returnM None
              else case py_int_of_str raw of
                Some n \<Rightarrow> returnM (Some (if n < 0 then 0 else seconds (min n MAX_RETRY_AFTER_SECONDS)))
              | None \<Rightarrow>
                  (case parsedate raw of
                     None \<Rightarrow> returnM None
                   | Some parsed \<Rightarrow>
                       bindM (case now of None \<Rightarrow> utcnow | Some t \<Rightarrow> returnM t) (\<lambda>reference.
                       let delta = as_utc parsed - reference
                       in returnM (Some (if delta < 0 then 0 else delta))))))"

definition apply_retry_after_cap :: "timedelta option \<Rightarrow> timedelta option" where
  "apply_retry_after_cap retry_after =
     (case retry_after of
        None \<Rightarrow> None
      | Some d \<Rightarrow> if RETRY_AFTER_CAP < d then Some RETRY_AFTER_CAP else Some d)"

section \<open>Laws of the policy\<close>

lemma post_init_wf: "RetryPolicy_post_init pol = Inr pol' \<longleftrightarrow> wf_policy pol \<and>
    pol' = pol\<lparr>retryable_status_codes_idempotent := remdups (retryable_status_codes_idempotent pol),
               retryable_status_codes_non_idempotent := remdups (retryable_status_codes_non_idempotent pol)\<rparr>"
  by (auto simp: RetryPolicy_post_init_def wf_policy_def guardE_def bindE_def)

text \<open>What a retry needs: budget left, and an outcome after which repeating the request is safe.\<close>

definition retry_safe :: "RetryPolicy \<Rightarrow> string \<Rightarrow> bool \<Rightarrow> Outcome \<Rightarrow> bool" where
  "retry_safe pol m replayable oc \<longleftrightarrow>
     (if is_transport_error oc then is_pre_send oc \<or> is_idempotent_method m
      else replayable \<and> (\<exists>c. status_code oc = Some c \<and> c \<in> set (retryable_statuses_for pol m)))"

lemma should_retry_safe:
  "should_retry m oc k pol t c b \<Longrightarrow> k < max_retries pol \<and> retry_safe pol m b oc \<and>
     (\<forall>d. overall_deadline pol = Some d \<longrightarrow> t < d)"
  by (auto simp: should_retry_def retry_safe_def split: if_splits option.splits)

section \<open>Bounds of the backoff\<close>

lemma exp_backoff_bounds:
  assumes "wf_policy pol" and "exp_backoff pol k = Inr x"
  shows "0 \<le> x" and "x \<le> total_seconds (max_backoff pol)"
proof -
  have "0 \<le> total_seconds (max_backoff pol)" "0 \<le> total_seconds (initial_backoff pol)" "0 \<le> backoff_multiplier pol"
    using assms(1) by (simp_all add: wf_policy_def total_seconds_nonneg)
  then show "0 \<le> x" and "x \<le> total_seconds (max_backoff pol)"
    using assms(2) by (auto simp: exp_backoff_def py_pow_def Let_def bindE_def intro!: fl_nonneg mult_nonneg_nonneg split: if_splits)
qed

text \<open>What the documentation of \<open>random.uniform\<close> promises.\<close>

definition uniform_law :: "(rat \<Rightarrow> rat \<Rightarrow> ('s, rat) M) \<Rightarrow> bool" where
  "uniform_law uniform \<longleftrightarrow> (\<forall>a b s. a \<le> b \<longrightarrow> wp (uniform a b) (\<lambda>x _. a \<le> x \<and> x \<le> b) (\<lambda>_ _. True) s)"

lemma compute_backoff_bounds:
  assumes "wf_policy pol" and "max_backoff pol \<le> 2 ^ 51" and "uniform_law uniform"
  shows "wp (compute_backoff uniform k pol prev) (\<lambda>d _. 0 \<le> d \<and> d \<le> max_backoff pol) (\<lambda>_ _. True) s"
proof -
  let ?mx = "total_seconds (max_backoff pol)" and ?base = "total_seconds (initial_backoff pol)"
  have mx: "0 \<le> ?mx" "0 \<le> ?base" "0 \<le> max_backoff pol"
    using assms(1) by (simp_all add: wf_policy_def total_seconds_nonneg)
  have fin: "0 \<le> timedelta_seconds (max 0 x) \<and> timedelta_seconds (max 0 x) \<le> max_backoff pol" if "x \<le> ?mx" for x
    using timedelta_seconds_mono [of "max 0 x" ?mx] timedelta_roundtrip [OF mx(3) assms(2)] that mx(1)
    by (simp add: timedelta_seconds_nonneg)
  have uni: "wp (uniform a b) (\<lambda>x _. 0 \<le> timedelta_seconds (max 0 x) \<and> timedelta_seconds (max 0 x) \<le> max_backoff pol)
      (\<lambda>_ _. True) s" if "a \<le> b" "b \<le> ?mx" for a b s
    by (rule wp_mono [of _ "\<lambda>x _. a \<le> x \<and> x \<le> b" "\<lambda>_ _. True"])
      (use assms(3) that fin in \<open>auto simp: uniform_law_def\<close>)
  show ?thesis
  proof (cases "exp_backoff pol k")
    case (Inr x)
    note x = exp_backoff_bounds [OF assms(1) Inr]
    have tz: "timedelta_seconds 0 = 0" using timedelta_seconds_int [of 0] by simp
    show ?thesis
      using x uni [of 0 x] fin [of x] fin [of "min ?base ?mx"] mx tz
        uni [of ?base "min ?mx (fl (total_seconds prev * backoff_multiplier pol))"]
        fin [of "min ?mx (fl (total_seconds prev * backoff_multiplier pol))"]
      by (cases "jitter pol") (auto simp: compute_backoff_def Let_def Inr wp_simps not_less)
  qed (simp add: compute_backoff_def Let_def wp_simps)
qed

lemma apply_cap_min: "apply_retry_after_cap r = map_option (min RETRY_AFTER_CAP) r"
  by (auto simp: apply_retry_after_cap_def split: option.split)

lemma retry_after_bounds:
  "wp (parse_retry_after parsedate utcnow h now) (\<lambda>r _. \<forall>d. apply_retry_after_cap r = Some d \<longrightarrow> 0 \<le> d \<and> d \<le> seconds 60)
     (\<lambda>_ _. True) s"
proof -
  have "wp utcnow (\<lambda>a _. 0 \<le> (if as_utc t - a < 0 then 0 else as_utc t - a)) (\<lambda>_ _. True) s" for t s
    by (rule wpI) auto
  then have "wp (parse_retry_after parsedate utcnow h now) (\<lambda>r _. \<forall>d. r = Some d \<longrightarrow> 0 \<le> d) (\<lambda>_ _. True) s"
    by (auto simp: parse_retry_after_def MAX_RETRY_AFTER_SECONDS_def Let_def wp_simps split: option.split)
  then show ?thesis
    by (rule wp_mono) (auto simp: apply_cap_min RETRY_AFTER_CAP_def)
qed

end
