(* ===== verification/Retry_Transport.thy ===== *)
theory Retry_Transport
  imports Retry_Policy
begin

text \<open>
  The retrying HTTP transports \<open>RetrySyncTransport\<close> (\<open>transport/_sync_retry.py\<close>) and
  \<open>RetryAsyncTransport\<close> (\<open>transport/_async_retry.py\<close>). The wrapped transport, the clocks, the random number
  generator, the hook and \<open>asyncio.wait_for\<close> are operations of the environment. The loop has fuel; \<open>None\<close> means
  that it ran out.
\<close>

section \<open>Requests and their timeouts\<close>

type_synonym timeouts = "string \<rightharpoonup> rat option"

record Request =
  req_method :: string
  req_url :: string
  req_byte_stream :: bool
  req_timeout :: "timeouts option"



definition attempt_limit :: "RetryPolicy \<Rightarrow> timedelta option \<Rightarrow> rat option" where
  "attempt_limit pol remaining_deadline =
     (let limit = map_option total_seconds (per_attempt_timeout pol)
      in case remaining_deadline of
           None \<Rightarrow> limit
         | Some r \<Rightarrow>
             (let remaining_s = max (total_seconds r) 0
              in Some (case limit of None \<Rightarrow> remaining_s | Some l \<Rightarrow> min l remaining_s)))"

definition phases :: "string list" where
  "phases = [''connect'', ''read'', ''write'', ''pool'']"

definition clamp_phase :: "rat \<Rightarrow> string \<Rightarrow> timeouts \<Rightarrow> timeouts" where
  "clamp_phase limit phase timeout =
     (case timeout phase of
        Some (Some existing) \<Rightarrow> timeout(phase \<mapsto> Some (min existing limit))
      | _ \<Rightarrow> timeout(phase \<mapsto> Some limit))"

definition clamp_attempt_timeout ::
  "Request \<Rightarrow> RetryPolicy \<Rightarrow> timeouts option \<Rightarrow> timedelta option \<Rightarrow> Request" where
  "clamp_attempt_timeout req pol baseline remaining_deadline =
     (case attempt_limit pol remaining_deadline of
        None \<Rightarrow> req
      | Some limit \<Rightarrow>
          req\<lparr>req_timeout := Some (fold (clamp_phase limit) phases (case baseline of None \<Rightarrow> Map.empty | Some b \<Rightarrow> b))\<rparr>)"

section \<open>The environment\<close>

record RetryEvent =
  ev_attempt :: int
  ev_retries_used :: int
  ev_method :: string
  ev_url :: string
  ev_cause :: RetryCause
  ev_status_code :: "int option"
  ev_backoff :: timedelta
  ev_request_id :: "string option"
  ev_exception :: "exn option"

record 's RetryEnv =
  rt_policy :: RetryPolicy
  rt_owns_inner :: bool
  rt_monotonic :: "('s, rat) M"
  rt_utcnow :: "('s, datetime) M"
  rt_parsedate :: "string \<Rightarrow> ParsedDate option"
  rt_uniform :: "rat \<Rightarrow> rat \<Rightarrow> ('s, rat) M"
  rt_send :: "Request \<Rightarrow> ('s, Response) M"
  rt_wait_for :: "rat \<Rightarrow> Request \<Rightarrow> ('s, Response) M"
  rt_on_retry :: "RetryEvent \<Rightarrow> ('s, unit) M"
  rt_close_response :: "Response \<Rightarrow> ('s, unit) M"
  rt_sleep :: "rat \<Rightarrow> ('s, unit) M"
  rt_close_inner :: "('s, unit) M"

section \<open>One attempt\<close>








section \<open>The loop\<close>












definition close_sync :: "'s RetryEnv \<Rightarrow> ('s, unit) M" where
  "close_sync env = whenM (rt_owns_inner env) (rt_close_inner env)"

definition aclose :: "'s RetryEnv \<Rightarrow> ('s, unit) M" where
  "aclose env = whenM (rt_owns_inner env) (rt_close_inner env)"

section \<open>Traces\<close>














section \<open>Discipline of the loop\<close>













lemma clamp_request [simp]:
  "req_method (clamp_attempt_timeout req pol baseline rem) = req_method req"
  "req_byte_stream (clamp_attempt_timeout req pol baseline rem) = req_byte_stream req"
  by (simp_all add: clamp_attempt_timeout_def split: option.split)






definition demo_request :: "string \<Rightarrow> Request" where
  "demo_request m = \<lparr>req_method = m, req_url = ''u'', req_byte_stream = True, req_timeout = None\<rparr>"






section \<open>Timeouts of an attempt\<close>

definition phase_timeout :: "Request \<Rightarrow> string \<Rightarrow> rat option" where
  "phase_timeout req ph = Option.bind (req_timeout req) (\<lambda>t. Option.bind (t ph) (\<lambda>x. x))"

lemma clamp_phase_other: "ph \<noteq> q \<Longrightarrow> clamp_phase l ph t q = t q"
  by (simp add: clamp_phase_def split: option.split)

lemma clamp_phase_same: "clamp_phase l ph t ph = Some (Some (case t ph of Some (Some y) \<Rightarrow> min y l | _ \<Rightarrow> l))"
  by (simp add: clamp_phase_def split: option.split)

lemma clamp_phases:
  "distinct phs \<Longrightarrow> fold (clamp_phase l) phs t ph =
     (if ph \<in> set phs then Some (Some (case t ph of Some (Some y) \<Rightarrow> min y l | _ \<Rightarrow> l)) else t ph)"
  by (induction phs arbitrary: t) (auto simp: clamp_phase_other clamp_phase_same, metis clamp_phase_other)

text \<open>
  An attempt without \<open>per_attempt_timeout\<close> and deadline goes out with the request's own timeouts. Otherwise
  each of the four phases of the attempt has a timeout, which exceeds neither \<open>per_attempt_timeout\<close>, nor the time that
  remains before the deadline, nor the timeout that the client had set for that phase, and equals one of the three.
\<close>

theorem attempt_timeouts_are_clamped:
  "(attempt_limit pol rem = None \<longrightarrow> clamp_attempt_timeout req pol baseline rem = req) \<and>
   (attempt_limit pol rem \<noteq> None \<longrightarrow> ph \<in> set phases \<longrightarrow>
      (\<exists>x. phase_timeout (clamp_attempt_timeout req pol baseline rem) ph = Some x \<and>
         (\<forall>p. per_attempt_timeout pol = Some p \<longrightarrow> x \<le> total_seconds p) \<and>
         (\<forall>r. rem = Some r \<longrightarrow> x \<le> max (total_seconds r) 0) \<and>
         (\<forall>b y. baseline = Some b \<and> b ph = Some (Some y) \<longrightarrow> x \<le> y) \<and>
         x \<in> {y. \<exists>p. per_attempt_timeout pol = Some p \<and> y = total_seconds p} \<union>
             {y. \<exists>r. rem = Some r \<and> y = max (total_seconds r) 0} \<union> {y. \<exists>b. baseline = Some b \<and> b ph = Some (Some y)}))"
proof (cases "attempt_limit pol rem")
  case (Some l)
  have "distinct phases" by (simp add: phases_def)
  then have "phase_timeout (clamp_attempt_timeout req pol baseline rem) ph =
      Some (case (case baseline of None \<Rightarrow> Map.empty | Some b \<Rightarrow> b) ph of Some (Some y) \<Rightarrow> min y l | _ \<Rightarrow> l)" if "ph \<in> set phases"
    using that by (simp add: clamp_attempt_timeout_def Some phase_timeout_def clamp_phases)
  moreover have "l \<in> {y. \<exists>p. per_attempt_timeout pol = Some p \<and> y = total_seconds p} \<union>
             {y. \<exists>r. rem = Some r \<and> y = max (total_seconds r) 0}"
    "\<And>p. per_attempt_timeout pol = Some p \<Longrightarrow> l \<le> total_seconds p" "\<And>r. rem = Some r \<Longrightarrow> l \<le> max (total_seconds r) 0"
    using Some by (auto simp: attempt_limit_def Let_def min_def split: option.splits if_splits)
  ultimately show ?thesis
    by (auto simp: Some min_def split: option.split)
qed (simp add: clamp_attempt_timeout_def)

theorem attempt_timeouts_are_clamped_witness:
  "\<exists>x. phase_timeout (clamp_attempt_timeout (demo_request ''GET'') (default_policy\<lparr>per_attempt_timeout := Some (seconds 5)\<rparr>)
     None (Some (seconds 3))) ''read'' = Some x \<and> x \<le> max (total_seconds (seconds 3)) 0"
  using attempt_timeouts_are_clamped [of "default_policy\<lparr>per_attempt_timeout := Some (seconds 5)\<rparr>" "Some (seconds 3)"
      "demo_request ''GET''" None "''read''"]
  by (auto simp: attempt_limit_def Let_def phases_def)

section \<open>The two transports\<close>





section \<open>Observations\<close>

text \<open>A streamed body that a failed attempt has consumed is sent again when the method is idempotent.\<close>

lemma streamed_put_is_resent:
  "should_retry ''PUT'' (classify_transport_exception (HttpxError ReadTimeout m c)) 0 default_policy 0 False False"
  by code_simp

text \<open>The backoff raises where it should stay at \<open>max_backoff\<close>.\<close>

lemma backoff_overflows:
  "fst (compute_backoff u 1024 (default_policy\<lparr>jitter := NONE\<rparr>) 0 s) = Inl (OverflowError ''Numerical result out of range'')"
proof -
  have "fl ((2::rat) ^ 1024) = 2 ^ 1024" using fl_exact [of 1 1024] by simp
  moreover have "0 < total_seconds (milliseconds 500)" by code_simp
  ultimately show ?thesis
    by (simp add: compute_backoff_def exp_backoff_def py_pow_def default_policy_def Let_def bindM_run)
qed

end
