(* ===== verification/Endpoint_Cache.thy ===== *)
theory Endpoint_Cache
  imports Prog_Logic Py_Float "HOL-Library.AList"
begin

text \<open>
  The endpoint cache (\<open>adapters/endpoint_cache.py\<close>): an LRU cache with a time to live that fetches a missing
  endpoint once for all callers. The operations that hold the lock are functions on the cache; the callers of
  \<open>get_or_fetch\<close> are threads of a step relation, each step being one section that holds the lock or one
  event. Readings of the clock are arguments of the steps.
\<close>

section \<open>State\<close>

text \<open>A key is a tuple that starts with the sandbox id. The dictionary of cached endpoints is ordered, oldest first.\<close>

type_synonym 'r key = "string \<times> 'r"

record ('r, 'e) EndpointCache =
  ec_maxsize :: nat
  ec_ttl :: rat
  ec_cache :: "('r key \<times> 'e \<times> rat) list"
  ec_inflight :: "'r key \<rightharpoonup> nat"
  ec_generation :: nat

record 'e InflightEntry =
  inf_event :: bool
  inf_result :: "'e option"
  inf_error :: "exn option"

definition EndpointCache_init :: "int \<Rightarrow> rat \<Rightarrow> ('r, 'e) EndpointCache" where
  "EndpointCache_init maxsize ttl =
     \<lparr>ec_maxsize = nat (max 1 maxsize), ec_ttl = ttl, ec_cache = [], ec_inflight = Map.empty, ec_generation = 0\<rparr>"

definition InflightEntry_init :: "'e InflightEntry" where
  "InflightEntry_init = \<lparr>inf_event = False, inf_result = None, inf_error = None\<rparr>"

section \<open>Operations that hold the lock\<close>

definition move_to_end :: "'k \<Rightarrow> ('k \<times> 'v) list \<Rightarrow> ('k \<times> 'v) list" where
  "move_to_end k d = (case map_of d k of None \<Rightarrow> d | Some v \<Rightarrow> AList.delete k d @ [(k, v)])"

text \<open>The loop \<open>while len(self._cache) >= self._maxsize: self._cache.popitem(last=False)\<close>.\<close>

fun evict :: "nat \<Rightarrow> 'a list \<Rightarrow> 'a list" where
  "evict m [] = []"
| "evict m (x # d) = (if m \<le> length (x # d) then evict m d else x # d)"

definition ec_get :: "rat \<Rightarrow> 'r key \<Rightarrow> ('r, 'e) EndpointCache \<Rightarrow> 'e option \<times> ('r, 'e) EndpointCache" where
  "ec_get t k c =
     (case map_of (ec_cache c) k of
        None \<Rightarrow> (None, c)
      | Some (e, x) \<Rightarrow>
          if x \<le> t then (None, c\<lparr>ec_cache := AList.delete k (ec_cache c)\<rparr>)
          else (Some e, c\<lparr>ec_cache := move_to_end k (ec_cache c)\<rparr>))"

definition put_locked :: "rat \<Rightarrow> 'r key \<Rightarrow> 'e \<Rightarrow> ('r, 'e) EndpointCache \<Rightarrow> ('r, 'e) EndpointCache" where
  "put_locked t k e c =
     (let v = (e, fl (t + ec_ttl c))
      in if map_of (ec_cache c) k \<noteq> None
         then c\<lparr>ec_cache := AList.update k v (move_to_end k (ec_cache c))\<rparr>
         else c\<lparr>ec_cache := AList.update k v (evict (ec_maxsize c) (ec_cache c))\<rparr>)"

definition ec_put :: "rat \<Rightarrow> 'r key \<Rightarrow> 'e \<Rightarrow> ('r, 'e) EndpointCache \<Rightarrow> ('r, 'e) EndpointCache" where
  "ec_put t k e c = put_locked t k e c"

definition ec_invalidate :: "string \<Rightarrow> ('r, 'e) EndpointCache \<Rightarrow> ('r, 'e) EndpointCache" where
  "ec_invalidate sandbox_id c =
     c\<lparr>ec_generation := ec_generation c + 1,
       ec_cache := filter (\<lambda>(k, v). fst k \<noteq> sandbox_id) (ec_cache c),
       ec_inflight := (\<lambda>k. if fst k = sandbox_id then None else ec_inflight c k)\<rparr>"

text \<open>The first section of \<open>get_or_fetch\<close>; \<open>fresh\<close> is the identity of the entry that a new owner creates.\<close>

datatype 'e lookup = Hit 'e | Join nat | Own nat

definition register_inflight :: "'r key \<Rightarrow> nat \<Rightarrow> ('r, 'e) EndpointCache \<Rightarrow> 'e lookup \<times> ('r, 'e) EndpointCache" where
  "register_inflight k fresh c =
     (case ec_inflight c k of
        Some n \<Rightarrow> (Join n, c)
      | None \<Rightarrow> (Own fresh, c\<lparr>ec_inflight := (ec_inflight c)(k \<mapsto> fresh)\<rparr>))"

definition ec_lookup :: "rat \<Rightarrow> 'r key \<Rightarrow> nat \<Rightarrow> ('r, 'e) EndpointCache \<Rightarrow> 'e lookup \<times> ('r, 'e) EndpointCache" where
  "ec_lookup t k fresh c =
     (case map_of (ec_cache c) k of
        Some (e, x) \<Rightarrow>
          if t < x then (Hit e, c\<lparr>ec_cache := move_to_end k (ec_cache c)\<rparr>)
          else register_inflight k fresh (c\<lparr>ec_cache := AList.delete k (ec_cache c)\<rparr>)
      | None \<Rightarrow> register_inflight k fresh c)"

text \<open>The section after \<open>fetch()\<close> and the section of the \<open>finally\<close> clause.\<close>

definition store_fetched :: "rat \<Rightarrow> 'r key \<Rightarrow> nat \<Rightarrow> 'e \<Rightarrow> ('r, 'e) EndpointCache \<Rightarrow> ('r, 'e) EndpointCache" where
  "store_fetched t k gen_before e c = (if ec_generation c = gen_before then put_locked t k e c else c)"

definition pop_inflight :: "'r key \<Rightarrow> nat \<Rightarrow> ('r, 'e) EndpointCache \<Rightarrow> ('r, 'e) EndpointCache" where
  "pop_inflight k n c =
     (if ec_inflight c k = Some n then c\<lparr>ec_inflight := (ec_inflight c)(k := None)\<rparr> else c)"

section \<open>Threads\<close>

text \<open>
  Where a thread is inside \<open>get_or_fetch\<close>. \<open>Returned None\<close> is a caller that gets Python's \<open>None\<close> instead of an
  endpoint.
\<close>

datatype 'e outcome = Returned "'e option" | Raised exn

datatype ('r, 'e) pc =
    Ready
  | Waiting nat
  | Fetching "'r key" nat nat
  | Fetched "'r key" nat "'e outcome"
  | Popped nat "'e outcome"
  | Finished "'e outcome"

record ('r, 'e) EcSystem =
  sys_cache :: "('r, 'e) EndpointCache"
  sys_inf :: "nat \<Rightarrow> 'e InflightEntry"
  sys_next :: nat
  sys_pc :: "nat \<Rightarrow> ('r, 'e) pc"

definition sys_init :: "int \<Rightarrow> rat \<Rightarrow> ('r, 'e) EcSystem" where
  "sys_init maxsize ttl =
     \<lparr>sys_cache = EndpointCache_init maxsize ttl, sys_inf = (\<lambda>_. InflightEntry_init), sys_next = 0, sys_pc = (\<lambda>_. Ready)\<rparr>"

abbreviation set_pc :: "nat \<Rightarrow> ('r, 'e) pc \<Rightarrow> ('r, 'e) EcSystem \<Rightarrow> ('r, 'e) EcSystem" where
  "set_pc i p s \<equiv> s\<lparr>sys_pc := (sys_pc s)(i := p)\<rparr>"

abbreviation set_cache :: "('r, 'e) EndpointCache \<Rightarrow> ('r, 'e) EcSystem \<Rightarrow> ('r, 'e) EcSystem" where
  "set_cache c s \<equiv> s\<lparr>sys_cache := c\<rparr>"

abbreviation set_inf :: "nat \<Rightarrow> 'e InflightEntry \<Rightarrow> ('r, 'e) EcSystem \<Rightarrow> ('r, 'e) EcSystem" where
  "set_inf n f s \<equiv> s\<lparr>sys_inf := (sys_inf s)(n := f)\<rparr>"

definition enter :: "nat \<Rightarrow> rat \<Rightarrow> 'r key \<Rightarrow> ('r, 'e) EcSystem \<Rightarrow> ('r, 'e) EcSystem" where
  "enter i t k s =
     (case ec_lookup t k (sys_next s) (sys_cache s) of
        (Hit e, c) \<Rightarrow> set_pc i (Finished (Returned (Some e))) (set_cache c s)
      | (Join n, c) \<Rightarrow> set_pc i (Waiting n) (set_cache c s)
      | (Own n, c) \<Rightarrow>
          set_pc i (Fetching k n (ec_generation (sys_cache s)))
            (set_inf n InflightEntry_init (set_cache c (s\<lparr>sys_next := sys_next s + 1\<rparr>))))"

definition fetch_returns :: "nat \<Rightarrow> rat \<Rightarrow> 'r key \<Rightarrow> nat \<Rightarrow> nat \<Rightarrow> 'e \<Rightarrow> ('r, 'e) EcSystem \<Rightarrow> ('r, 'e) EcSystem" where
  "fetch_returns i t k n gen_before e s =
     set_pc i (Fetched k n (Returned (Some e)))
       (set_inf n ((sys_inf s n)\<lparr>inf_result := Some e\<rparr>)
         (set_cache (store_fetched t k gen_before e (sys_cache s)) s))"

definition fetch_raises :: "nat \<Rightarrow> 'r key \<Rightarrow> nat \<Rightarrow> exn \<Rightarrow> ('r, 'e) EcSystem \<Rightarrow> ('r, 'e) EcSystem" where
  "fetch_raises i k n ex s =
     set_pc i (Fetched k n (Raised ex))
       (if is_Exception ex then set_inf n ((sys_inf s n)\<lparr>inf_error := Some ex\<rparr>) s else s)"

definition leave_inflight :: "nat \<Rightarrow> 'r key \<Rightarrow> nat \<Rightarrow> 'e outcome \<Rightarrow> ('r, 'e) EcSystem \<Rightarrow> ('r, 'e) EcSystem" where
  "leave_inflight i k n out s = set_pc i (Popped n out) (set_cache (pop_inflight k n (sys_cache s)) s)"

definition set_event :: "nat \<Rightarrow> nat \<Rightarrow> 'e outcome \<Rightarrow> ('r, 'e) EcSystem \<Rightarrow> ('r, 'e) EcSystem" where
  "set_event i n out s = set_pc i (Finished out) (set_inf n ((sys_inf s n)\<lparr>inf_event := True\<rparr>) s)"

definition inflight_outcome :: "'e InflightEntry \<Rightarrow> 'e outcome" where
  "inflight_outcome f = (case inf_error f of Some ex \<Rightarrow> Raised ex | None \<Rightarrow> Returned (inf_result f))"

definition wake :: "nat \<Rightarrow> nat \<Rightarrow> ('r, 'e) EcSystem \<Rightarrow> ('r, 'e) EcSystem" where
  "wake i n s = set_pc i (Finished (inflight_outcome (sys_inf s n))) s"

inductive ec_step :: "('r, 'e) EcSystem \<Rightarrow> ('r, 'e) EcSystem \<Rightarrow> bool" where
  step_enter: "sys_pc s i = Ready \<Longrightarrow> ec_step s (enter i t k s)"
| step_fetch: "sys_pc s i = Fetching k n g \<Longrightarrow> ec_step s (fetch_returns i t k n g e s)"
| step_raise: "sys_pc s i = Fetching k n g \<Longrightarrow> ec_step s (fetch_raises i k n ex s)"
| step_leave: "sys_pc s i = Fetched k n out \<Longrightarrow> ec_step s (leave_inflight i k n out s)"
| step_set: "sys_pc s i = Popped n out \<Longrightarrow> ec_step s (set_event i n out s)"
| step_wake: "sys_pc s i = Waiting n \<Longrightarrow> inf_event (sys_inf s n) \<Longrightarrow> ec_step s (wake i n s)"
| step_again: "sys_pc s i = Finished out \<Longrightarrow> ec_step s (set_pc i Ready s)"
| step_get: "ec_step s (set_cache (snd (ec_get t k (sys_cache s))) s)"
| step_put: "ec_step s (set_cache (ec_put t k e (sys_cache s)) s)"
| step_invalidate: "ec_step s (set_cache (ec_invalidate sid (sys_cache s)) s)"

inductive_cases ec_step_cases: "ec_step s s'"

definition ec_reachable :: "int \<Rightarrow> rat \<Rightarrow> ('r, 'e) EcSystem \<Rightarrow> bool" where
  "ec_reachable maxsize ttl s \<longleftrightarrow> ec_step\<^sup>*\<^sup>* (sys_init maxsize ttl) s"

section \<open>The asynchronous cache\<close>






section \<open>The cache is bounded\<close>

definition cache_ok :: "('r, 'e) EndpointCache \<Rightarrow> bool" where
  "cache_ok c \<longleftrightarrow> 1 \<le> ec_maxsize c \<and> length (ec_cache c) \<le> ec_maxsize c \<and> distinct (map fst (ec_cache c))"

lemma map_fst_delete: "map fst (AList.delete k d) = filter (\<lambda>x. x \<noteq> k) (map fst d)"
  by (induction d) (auto simp: AList.delete_eq)

lemma length_delete: "length (AList.delete k d) \<le> length d"
  by (simp add: AList.delete_eq)

lemma length_delete_member: "distinct (map fst d) \<Longrightarrow> map_of d k = Some v \<Longrightarrow> length (AList.delete k d) = length d - 1"
proof -
  assume d: "distinct (map fst d)" "map_of d k = Some v"
  then have "k \<in> set (map fst d)" by (force dest: map_of_SomeD)
  moreover have "map fst (AList.delete k d) = removeAll k (map fst d)" by (auto simp: map_fst_delete removeAll_filter_not_eq intro: filter_cong)
  ultimately show ?thesis
    using d(1) by (metis distinct_remove1_removeAll length_map length_remove1)
qed

lemma move_to_end_ok:
  assumes "distinct (map fst d)"
  shows "distinct (map fst (move_to_end k d))" "length (move_to_end k d) = length d"
    "map_of (move_to_end k d) = map_of d"
proof -
  show "distinct (map fst (move_to_end k d))"
    using assms by (auto simp: move_to_end_def map_fst_delete split: option.split)
  show "length (move_to_end k d) = length d"
    using assms length_delete_member [OF assms, of k] by (cases d) (auto simp: move_to_end_def split: option.split)
  show "map_of (move_to_end k d) = map_of d"
    by (auto simp: move_to_end_def fun_eq_iff map_of_append delete_conv map_add_def split: option.split)
qed

lemma in_set_tlD: "x \<in> set (tl xs) \<Longrightarrow> x \<in> set xs"
  by (cases xs) auto

lemma evict_suffix: "evict m d = drop (length d + 1 - m) d" if "1 \<le> m"
  using that by (induction d) (auto simp: drop_Cons' Suc_diff_le)

lemma length_update: "length (AList.update k v d) = (if k \<in> set (map fst d) then length d else length d + 1)"
  using update_keys [of k v d] by (metis length_append_singleton length_map Suc_eq_plus1)

lemma put_locked_ok: "cache_ok c \<Longrightarrow> cache_ok (put_locked t k e c)"
proof -
  assume c: "cache_ok c"
  let ?d = "ec_cache c"
  show ?thesis
  proof (cases "map_of ?d k")
    case None
    then have "k \<notin> set (map fst (evict (ec_maxsize c) ?d))"
      using c by (auto simp: cache_ok_def evict_suffix map_of_eq_None_iff dest!: in_set_dropD)
    with None c show ?thesis
      by (auto simp: put_locked_def Let_def cache_ok_def evict_suffix length_update distinct_update drop_map [symmetric])
  next
    case (Some v)
    then have "k \<in> set (map fst (move_to_end k ?d))" by (force simp: move_to_end_def)
    with Some c move_to_end_ok [of ?d k] show ?thesis
      by (auto simp: put_locked_def Let_def cache_ok_def length_update distinct_update)
  qed
qed

lemma cache_ops_ok:
  assumes "cache_ok c"
  shows "cache_ok (snd (ec_get t k c))" "cache_ok (ec_put t k e c)" "cache_ok (ec_invalidate sid c)"
    "cache_ok (snd (ec_lookup t k n c))" "cache_ok (store_fetched t k g e c)" "cache_ok (pop_inflight k n c)"
proof -
  have del: "cache_ok (c\<lparr>ec_cache := AList.delete k (ec_cache c)\<rparr>)"
    using assms length_delete [of k "ec_cache c"] by (auto simp: cache_ok_def map_fst_delete intro: distinct_filter)
  have move: "cache_ok (c\<lparr>ec_cache := move_to_end k (ec_cache c)\<rparr>)"
    using assms move_to_end_ok [of "ec_cache c" k] by (simp add: cache_ok_def)
  have reg: "cache_ok (snd (register_inflight k n c'))" if "cache_ok c'" for c' :: "('a, 'b) EndpointCache"
    using that by (simp add: register_inflight_def cache_ok_def split: option.split)
  show "cache_ok (snd (ec_get t k c))" using assms del move by (auto simp: ec_get_def split: option.split)
  show "cache_ok (ec_put t k e c)" using put_locked_ok [OF assms] by (simp add: ec_put_def)
  show "cache_ok (ec_invalidate sid c)"
    using assms by (auto simp: cache_ok_def ec_invalidate_def distinct_map_filter intro: order_trans [OF length_filter_le])
  show "cache_ok (snd (ec_lookup t k n c))"
    using reg [OF assms] reg [OF del] move by (auto simp: ec_lookup_def split: option.split)
  show "cache_ok (store_fetched t k g e c)" using assms put_locked_ok [OF assms] by (simp add: store_fetched_def)
  show "cache_ok (pop_inflight k n c)" using assms by (simp add: pop_inflight_def cache_ok_def)
qed

section \<open>One fetch per key, and no lost waiters\<close>

text \<open>What the operations do to the dictionary of fetches in flight and to the generation.\<close>

lemma keeps_inflight [simp]:
  "ec_inflight (put_locked t k e c) = ec_inflight c" "ec_generation (put_locked t k e c) = ec_generation c"
  "ec_inflight (ec_put t k e c) = ec_inflight c" "ec_generation (ec_put t k e c) = ec_generation c"
  "ec_inflight (snd (ec_get t k c)) = ec_inflight c" "ec_generation (snd (ec_get t k c)) = ec_generation c"
  "ec_inflight (store_fetched t k g e c) = ec_inflight c" "ec_generation (store_fetched t k g e c) = ec_generation c"
  "ec_generation (pop_inflight k n c) = ec_generation c"
  by (auto simp: put_locked_def ec_put_def ec_get_def store_fetched_def pop_inflight_def Let_def split: option.split)

lemma pop_inflight_at: "ec_inflight (pop_inflight k n c) q = (if q = k \<and> ec_inflight c k = Some n then None else ec_inflight c q)"
  by (simp add: pop_inflight_def)

lemma lookup_cases:
  assumes "ec_lookup t k fresh c = (r, c')"
  shows "ec_generation c' = ec_generation c \<and>
    (case r of
       Hit e \<Rightarrow> ec_inflight c' = ec_inflight c
     | Join n \<Rightarrow> ec_inflight c k = Some n \<and> ec_inflight c' = ec_inflight c
     | Own n \<Rightarrow> n = fresh \<and> ec_inflight c k = None \<and> ec_inflight c' = (ec_inflight c)(k \<mapsto> fresh))"
  using assms by (auto simp: ec_lookup_def register_inflight_def split: option.splits if_splits)

text \<open>The entry a thread is responsible for.\<close>

fun owned :: "('r, 'e) pc \<Rightarrow> nat option" where
  "owned (Fetching k n g) = Some n"
| "owned (Fetched k n out) = Some n"
| "owned (Popped n out) = Some n"
| "owned _ = None"

fun listed :: "('r, 'e) pc \<Rightarrow> ('r key \<times> nat) option" where
  "listed (Fetching k n g) = Some (k, n)"
| "listed (Fetched k n out) = Some (k, n)"
| "listed _ = None"

text \<open>What the entry holds once its owner has its outcome; an exception outside \<open>Exception\<close> leaves no mark.\<close>

definition recorded :: "'e InflightEntry \<Rightarrow> 'e outcome \<Rightarrow> bool" where
  "recorded f out \<longleftrightarrow> \<not> inf_event f \<and>
     (case out of
        Raised ex \<Rightarrow> if is_Exception ex then inflight_outcome f = out else inflight_outcome f = Returned None
      | Returned r \<Rightarrow> r \<noteq> None \<and> inflight_outcome f = out)"

definition pc_ok :: "('r, 'e) EcSystem \<Rightarrow> ('r, 'e) pc \<Rightarrow> bool" where
  "pc_ok s p \<longleftrightarrow>
     (case p of
        Waiting n \<Rightarrow> n < sys_next s \<and> (inf_event (sys_inf s n) \<or> (\<exists>i. owned (sys_pc s i) = Some n))
      | Fetching k n g \<Rightarrow> n < sys_next s \<and> sys_inf s n = InflightEntry_init \<and> g \<le> ec_generation (sys_cache s) \<and>
          (g = ec_generation (sys_cache s) \<longrightarrow> ec_inflight (sys_cache s) k = Some n)
      | Fetched k n out \<Rightarrow> n < sys_next s \<and> recorded (sys_inf s n) out
      | Popped n out \<Rightarrow> n < sys_next s \<and> recorded (sys_inf s n) out
      | _ \<Rightarrow> True)"

definition ec_inv :: "('r, 'e) EcSystem \<Rightarrow> bool" where
  "ec_inv s \<longleftrightarrow>
     cache_ok (sys_cache s) \<and> (\<forall>i. pc_ok s (sys_pc s i)) \<and>
     (\<forall>i j n. owned (sys_pc s i) = Some n \<longrightarrow> owned (sys_pc s j) = Some n \<longrightarrow> i = j) \<and>
     (\<forall>k n. ec_inflight (sys_cache s) k = Some n \<longrightarrow> (\<exists>i. listed (sys_pc s i) = Some (k, n))) \<and>
     (\<forall>n. inf_event (sys_inf s n) \<longrightarrow> n < sys_next s) \<and>
     (\<forall>i j k n m g. sys_pc s i = Fetching k n g \<longrightarrow> sys_pc s j = Fetching k m g \<longrightarrow> i = j)"

lemma pc_ok_simps [simp]:
  "pc_ok s Ready" "pc_ok s (Finished out)"
  "pc_ok s (Waiting n) \<longleftrightarrow> n < sys_next s \<and> (inf_event (sys_inf s n) \<or> (\<exists>i. owned (sys_pc s i) = Some n))"
  "pc_ok s (Fetching k n g) \<longleftrightarrow> n < sys_next s \<and> sys_inf s n = InflightEntry_init \<and> g \<le> ec_generation (sys_cache s) \<and>
     (g = ec_generation (sys_cache s) \<longrightarrow> ec_inflight (sys_cache s) k = Some n)"
  "pc_ok s (Fetched k n out) \<longleftrightarrow> n < sys_next s \<and> recorded (sys_inf s n) out"
  "pc_ok s (Popped n out) \<longleftrightarrow> n < sys_next s \<and> recorded (sys_inf s n) out"
  by (simp_all add: pc_ok_def)

lemma ec_inv_cache:
  assumes "ec_inv s" and "cache_ok c" and "ec_inflight c = ec_inflight (sys_cache s)" and "ec_generation c = ec_generation (sys_cache s)"
  shows "ec_inv (set_cache c s)"
proof -
  have "pc_ok (set_cache c s) p = pc_ok s p" for p using assms(3,4) by (cases p) simp_all
  with assms show ?thesis by (simp add: ec_inv_def)
qed

lemma ec_invD:
  assumes "ec_inv s"
  shows "cache_ok (sys_cache s)" "pc_ok s (sys_pc s i)"
    "owned (sys_pc s i) = Some n \<Longrightarrow> owned (sys_pc s j) = Some n \<Longrightarrow> i = j"
    "ec_inflight (sys_cache s) k = Some n \<Longrightarrow> \<exists>i. listed (sys_pc s i) = Some (k, n)"
    "inf_event (sys_inf s n) \<Longrightarrow> n < sys_next s"
    "sys_pc s i = Fetching k n g \<Longrightarrow> sys_pc s j = Fetching k m g \<Longrightarrow> i = j"
  using assms unfolding ec_inv_def by blast+

text \<open>A step of thread \<open>i\<close>: it may change the entry it owns, and the registration of that entry.\<close>

lemma inv_step:
  assumes inv: "ec_inv s" and pc: "sys_pc s' = (sys_pc s)(i := p)" and cache: "cache_ok (sys_cache s')"
    and gen: "ec_generation (sys_cache s') = ec_generation (sys_cache s)" and nxt: "sys_next s \<le> sys_next s'"
    and inf: "\<And>n. n < sys_next s \<Longrightarrow> owned (sys_pc s i) \<noteq> Some n \<Longrightarrow> sys_inf s' n = sys_inf s n"
    and event: "\<And>n. inf_event (sys_inf s' n) \<Longrightarrow> n < sys_next s'"
    and keep: "\<And>n. owned (sys_pc s i) = Some n \<Longrightarrow> owned p = Some n \<or> inf_event (sys_inf s' n)"
    and fresh: "\<And>n. owned p = Some n \<Longrightarrow> owned (sys_pc s i) = Some n \<or> sys_next s \<le> n"
    and add: "\<And>k n. ec_inflight (sys_cache s') k = Some n \<Longrightarrow>
        listed p = Some (k, n) \<or> ec_inflight (sys_cache s) k = Some n \<and> listed (sys_pc s i) \<noteq> Some (k, n)"
    and remove: "\<And>k n. ec_inflight (sys_cache s) k = Some n \<Longrightarrow> ec_inflight (sys_cache s') k \<noteq> Some n \<Longrightarrow>
        owned (sys_pc s i) = Some n"
    and ok: "pc_ok s' p"
    and uniq: "\<And>k n g j m. p = Fetching k n g \<Longrightarrow> j \<noteq> i \<Longrightarrow> sys_pc s j \<noteq> Fetching k m g"
  shows "ec_inv s'"
proof -
  note pcs = ec_invD(2) [OF inv] and own = ec_invD(3) [OF inv]
  have bound: "n < sys_next s \<and> \<not> inf_event (sys_inf s n)" if "owned (sys_pc s j) = Some n" for j n
    using pcs [of j] that by (cases "sys_pc s j") (auto simp: InflightEntry_init_def recorded_def)
  have same: "sys_inf s' n = sys_inf s n" if "owned (sys_pc s j) = Some n" "j \<noteq> i" for j n
    using bound [OF that(1)] own [OF _ that(1)] that(2) inf by blast
  have wait: "inf_event (sys_inf s' n) \<or> (\<exists>a. owned (sys_pc s' a) = Some n)"
    if "n < sys_next s" "inf_event (sys_inf s n) \<or> (\<exists>a. owned (sys_pc s a) = Some n)" for n
  proof (cases "inf_event (sys_inf s n)")
    case True
    then have "owned (sys_pc s i) \<noteq> Some n" using bound by blast
    with True inf [OF that(1)] show ?thesis by simp
  next
    case False
    with that obtain a where "owned (sys_pc s a) = Some n" by blast
    with keep [of n] show ?thesis by (cases "a = i") (auto simp: pc)
  qed
  have "pc_ok s' (sys_pc s j)" if "j \<noteq> i" for j
  proof (cases "sys_pc s j")
    case (Fetching k n g)
    then have "owned (sys_pc s j) = Some n" by simp
    with pcs [of j] Fetching same [OF this that] nxt gen remove [of k n] own [of j n i] that show ?thesis by auto
  qed (use pcs [of j] same [OF _ that] nxt wait in auto)
  then have 1: "pc_ok s' (sys_pc s' j)" for j using ok by (simp add: pc)
  have 2: "a = b" if "owned (sys_pc s' a) = Some n" "owned (sys_pc s' b) = Some n" for a b n
  proof -
    have "owned (sys_pc s c) \<noteq> Some n" if "owned p = Some n" "c \<noteq> i" for c
      using fresh [OF that(1)] own [of i n c] bound [of c n] that(2) by fastforce
    with that own [of a n b] show ?thesis by (auto simp: pc split: if_splits)
  qed
  have 3: "\<exists>j. listed (sys_pc s' j) = Some (k, n)" if "ec_inflight (sys_cache s') k = Some n" for k n
  proof (cases "listed p = Some (k, n)")
    case True
    then show ?thesis by (intro exI [of _ i]) (simp add: pc)
  next
    case False
    with add [OF that] obtain j where "listed (sys_pc s j) = Some (k, n)" "listed (sys_pc s i) \<noteq> Some (k, n)"
      using ec_invD(4) [OF inv] by blast
    then show ?thesis by (intro exI [of _ j]) (auto simp: pc)
  qed
  have 4: "a = b" if "sys_pc s' a = Fetching k n g" "sys_pc s' b = Fetching k m g" for a b k n m g
    using that uniq ec_invD(6) [OF inv, of a k n g b m] by (auto simp: pc split: if_splits)
  show ?thesis unfolding ec_inv_def by (intro conjI allI impI; (rule cache event 1 2 3 4; assumption?)?)
qed

lemma inv_invalidate: "ec_inv s \<Longrightarrow> ec_inv (set_cache (ec_invalidate sid (sys_cache s)) s)"
proof -
  assume inv: "ec_inv s"
  have "pc_ok (set_cache (ec_invalidate sid (sys_cache s)) s) p" if "pc_ok s p" for p
    using that by (cases p) (auto simp: ec_invalidate_def)
  with inv cache_ops_ok(3) [of "sys_cache s" sid] show ?thesis
    by (auto simp: ec_inv_def ec_invalidate_def split: if_splits)
qed

lemma inv_enter:
  assumes inv: "ec_inv s" and i: "sys_pc s i = Ready"
  shows "ec_inv (enter i t k s)"
proof -
  obtain r c where l: "ec_lookup t k (sys_next s) (sys_cache s) = (r, c)" by fastforce
  have c: "cache_ok c" using cache_ops_ok(4) [OF ec_invD(1) [OF inv], of t k "sys_next s"] l by simp
  note ev = ec_invD(5) [OF inv]
  note facts = lookup_cases [OF l] c ev i
  show ?thesis
  proof (cases r)
    case (Hit e)
    with facts show ?thesis by (intro inv_step [OF inv]) (auto simp: enter_def l)
  next
    case (Join n)
    then obtain j where "listed (sys_pc s j) = Some (k, n)" using ec_invD(4) [OF inv, of k n] facts(1) by auto
    moreover have "pc_ok s (sys_pc s j)" by (rule ec_invD(2) [OF inv])
    ultimately have "n < sys_next s" "owned (sys_pc s j) = Some n" by (cases "sys_pc s j"; auto)+
    with Join facts show ?thesis
      by (intro inv_step [OF inv]) (auto simp: enter_def l intro!: exI [of _ j])
  next
    case (Own n)
    have "sys_pc s j \<noteq> Fetching k m (ec_generation (sys_cache s))" for j m
    proof
      assume j: "sys_pc s j = Fetching k m (ec_generation (sys_cache s))"
      have "pc_ok s (sys_pc s j)" by (rule ec_invD(2) [OF inv])
      with j facts(1) Own show False by simp
    qed
    with Own facts show ?thesis
      by (intro inv_step [OF inv]) (auto simp: enter_def l InflightEntry_init_def intro: less_SucI split: if_splits)
  qed
qed

lemma inv_threads:
  assumes inv: "ec_inv s"
  shows "sys_pc s i = Fetching k n g \<Longrightarrow> ec_inv (fetch_returns i t k n g e s)"
    and "sys_pc s i = Fetching k n g \<Longrightarrow> ec_inv (fetch_raises i k n ex s)"
    and "sys_pc s i = Fetched k n out \<Longrightarrow> ec_inv (leave_inflight i k n out s)"
    and "sys_pc s i = Popped n out \<Longrightarrow> ec_inv (set_event i n out s)"
    and "sys_pc s i = Waiting n \<Longrightarrow> ec_inv (wake i n s)"
    and "sys_pc s i = Finished out \<Longrightarrow> ec_inv (set_pc i Ready s)"
proof -
  note ok = ec_invD(1) [OF inv] and ev = ec_invD(5) [OF inv] and pcs = ec_invD(2) [OF inv, of i]
  show "ec_inv (fetch_returns i t k n g e s)" if "sys_pc s i = Fetching k n g"
    using that pcs ok ev
    by (intro inv_step [OF inv]) (auto simp: fetch_returns_def cache_ops_ok recorded_def inflight_outcome_def InflightEntry_init_def split: if_splits)
  show "ec_inv (fetch_raises i k n ex s)" if "sys_pc s i = Fetching k n g"
    using that pcs ok ev
    by (intro inv_step [OF inv]) (auto simp: fetch_raises_def recorded_def inflight_outcome_def InflightEntry_init_def split: if_splits)
  show "ec_inv (leave_inflight i k n out s)" if "sys_pc s i = Fetched k n out"
    using that pcs ok ev
    by (intro inv_step [OF inv]) (auto simp: leave_inflight_def cache_ops_ok pop_inflight_at split: if_splits)
  show "ec_inv (set_event i n out s)" if "sys_pc s i = Popped n out"
    using that pcs ok ev by (intro inv_step [OF inv]) (auto simp: set_event_def split: if_splits)
  show "ec_inv (wake i n s)" if "sys_pc s i = Waiting n"
    using that ok ev by (intro inv_step [OF inv]) (auto simp: wake_def)
  show "ec_inv (set_pc i Ready s)" if "sys_pc s i = Finished out"
    using that ok ev by (intro inv_step [OF inv]) auto
qed

lemma inv_init: "ec_inv (sys_init m ttl)"
  by (simp add: ec_inv_def sys_init_def EndpointCache_init_def cache_ok_def InflightEntry_init_def)

lemma inv_preserved: "ec_step s s' \<Longrightarrow> ec_inv s \<Longrightarrow> ec_inv s'"
proof (induction rule: ec_step.induct)
  case (step_get s t k)
  then show ?case by (intro ec_inv_cache) (auto simp: ec_inv_def intro: cache_ops_ok)
next
  case (step_put s t k e)
  then show ?case by (intro ec_inv_cache) (auto simp: ec_inv_def intro: cache_ops_ok)
qed (simp_all add: inv_enter inv_threads inv_invalidate)

lemma reachable_inv: "ec_reachable m ttl s \<Longrightarrow> ec_inv s"
  unfolding ec_reachable_def by (induction rule: rtranclp_induct) (auto intro: inv_init inv_preserved)

text \<open>
  Claim C15. In every reachable state of the callers of the cache: it holds at most \<open>maxsize\<close> endpoints (at least one),
  each key once; at most one caller fetches a given key since the last invalidation; and a caller that waits for an
  entry either has its answer or another caller, still running, is responsible for that entry, so no waiter is lost.
\<close>

theorem ec_reachable_safe:
  assumes "ec_reachable maxsize ttl s"
  shows "length (ec_cache (sys_cache s)) \<le> ec_maxsize (sys_cache s) \<and> 1 \<le> ec_maxsize (sys_cache s) \<and>
    distinct (map fst (ec_cache (sys_cache s))) \<and>
    (sys_pc s i = Fetching k n g \<and> sys_pc s j = Fetching k m g \<longrightarrow> i = j) \<and>
    (sys_pc s i = Waiting n \<longrightarrow> inf_event (sys_inf s n) \<or> (\<exists>a. a \<noteq> i \<and> owned (sys_pc s a) = Some n))"
proof -
  note inv = reachable_inv [OF assms]
  have "sys_pc s i = Waiting n \<Longrightarrow> inf_event (sys_inf s n) \<or> (\<exists>a. a \<noteq> i \<and> owned (sys_pc s a) = Some n)"
    using ec_invD(2) [OF inv, of i] by force
  with ec_invD(1,6) [OF inv] show ?thesis by (auto simp: cache_ok_def)
qed

text \<open>Invalidations only raise the generation, and no step lowers it.\<close>

lemma generation_mono: "ec_step s s' \<Longrightarrow> ec_generation (sys_cache s) \<le> ec_generation (sys_cache s')"
proof (induction rule: ec_step.induct)
  case (step_enter s i t k)
  obtain r c where l: "ec_lookup t k (sys_next s) (sys_cache s) = (r, c)" by fastforce
  show ?case using lookup_cases [OF l] by (cases r) (simp_all add: enter_def l)
qed (auto simp: fetch_returns_def fetch_raises_def leave_inflight_def set_event_def wake_def ec_invalidate_def)

lemma generation_monos: "ec_step\<^sup>*\<^sup>* s s' \<Longrightarrow> ec_generation (sys_cache s) \<le> ec_generation (sys_cache s')"
  by (induction rule: rtranclp_induct) (auto dest: generation_mono)

text \<open>
  Claim C16. An endpoint that was being fetched when its sandbox was invalidated is never cached: whatever happens in
  between, when that fetch returns, the cached endpoints stay as they are.
\<close>

theorem invalidated_fetch_is_not_cached:
  assumes "ec_reachable maxsize ttl s" and "sys_pc s i = Fetching k n g"
    and "ec_step\<^sup>*\<^sup>* (set_cache (ec_invalidate sid (sys_cache s)) s) s'" and "sys_pc s' i = Fetching k n g"
  shows "ec_cache (sys_cache (fetch_returns i t k n g e s')) = ec_cache (sys_cache s')"
proof -
  have "g \<le> ec_generation (sys_cache s)" using ec_invD(2) [OF reachable_inv [OF assms(1)], of i] assms(2) by simp
  then have "g < ec_generation (sys_cache s')"
    using generation_monos [OF assms(3)] by (simp add: ec_invalidate_def)
  then show ?thesis by (simp add: fetch_returns_def store_fetched_def)
qed

text \<open>A set event is final: its entry does not change any more.\<close>

lemma event_final:
  assumes "ec_step s s'" and "ec_inv s" and "inf_event (sys_inf s n)"
  shows "sys_inf s' n = sys_inf s n"
proof -
  have free: "owned (sys_pc s i) \<noteq> Some n" for i
    using ec_invD(2) [OF assms(2), of i] assms(3) by (cases "sys_pc s i") (auto simp: InflightEntry_init_def recorded_def)
  have n: "n < sys_next s" by (rule ec_invD(5) [OF assms(2,3)])
  from assms(1) show ?thesis
  proof (cases rule: ec_step.cases)
    case (step_enter i t k)
    obtain r c where l: "ec_lookup t k (sys_next s) (sys_cache s) = (r, c)" by fastforce
    from lookup_cases [OF l] n show ?thesis by (cases r) (auto simp: step_enter(1) enter_def l)
  next
    case (step_fetch i k m g t e)
    with free [of i] show ?thesis by (auto simp: fetch_returns_def)
  next
    case (step_raise i k m g ex)
    with free [of i] show ?thesis by (auto simp: fetch_raises_def)
  next
    case (step_set i m out)
    with free [of i] show ?thesis by (auto simp: set_event_def)
  qed (auto simp: leave_inflight_def wake_def)
qed

lemma event_stays:
  assumes "ec_step\<^sup>*\<^sup>* s s'" and "ec_inv s" and "inf_event (sys_inf s n)"
  shows "sys_inf s' n = sys_inf s n"
  using assms
proof (induction rule: rtranclp_induct)
  case (step s1 s2)
  have "ec_inv s1" using step.hyps(1) step.prems(1) by (induction rule: rtranclp_induct) (auto intro: inv_preserved)
  with step event_final show ?case by metis
qed simp

text \<open>
  Claim C30. A waiter gets what the caller that fetched for it got. Once the owner of an entry has signalled, whatever
  happens in between, a waiter of the entry returns the owner's endpoint or raises the owner's exception; only when the
  owner was ended by an exception outside \<open>Exception\<close> does it get no endpoint.
\<close>

theorem waiter_gets_the_outcome:
  assumes "ec_reachable maxsize ttl s" and "sys_pc s i = Popped n out" and "ec_step\<^sup>*\<^sup>* (set_event i n out s) s'"
    and "sys_pc s' j = Waiting n"
  shows "inf_event (sys_inf s' n) \<and>
    sys_pc (wake j n s') j =
      Finished (case out of Raised ex \<Rightarrow> if is_Exception ex then out else Returned None | Returned r \<Rightarrow> out)"
proof -
  note inv = reachable_inv [OF assms(1)]
  have "recorded (sys_inf s n) out" using ec_invD(2) [OF inv, of i] assms(2) by simp
  moreover have "sys_inf s' n = sys_inf (set_event i n out s) n"
    using inv_threads(4) [OF inv assms(2)] by (intro event_stays [OF assms(3)]) (simp_all add: set_event_def)
  ultimately show ?thesis
    by (auto simp: wake_def set_event_def recorded_def inflight_outcome_def split: outcome.splits if_splits option.splits)
qed

section \<open>The asynchronous cache refines the threads\<close>



lemma three_steps:
  assumes "ec_step s1 s2" and "ec_step s2 s3" and "ec_step s3 s4"
  shows "ec_step\<^sup>*\<^sup>* s1 s4"
  using assms by (meson converse_rtranclp_into_rtranclp r_into_rtranclp)




section \<open>Least recently used\<close>

lemma map_of_snoc: "k \<notin> fst ` set xs \<Longrightarrow> map_of (xs @ [(k, v)]) k = Some v"
  by (induction xs) auto

text \<open>
  Claim C32. Putting an endpoint makes its key the most recently used one; it replaces an endpoint of the same key, and
  when the key is new and the cache is full, exactly the least recently used endpoint goes. Until its time to live is
  over, \<open>get\<close> then returns the endpoint, and from then on none.
\<close>

theorem put_is_least_recently_used:
  assumes "cache_ok c"
  shows "ec_cache (ec_put t k e c) =
      (if k \<in> fst ` set (ec_cache c) then AList.delete k (ec_cache c)
       else if length (ec_cache c) = ec_maxsize c then tl (ec_cache c) else ec_cache c) @ [(k, e, fl (t + ec_ttl c))] \<and>
    fst (ec_get t' k (ec_put t k e c)) = (if t' < fl (t + ec_ttl c) then Some e else None)"
proof -
  let ?d = "ec_cache c"
  have upd: "AList.update k v (xs @ [(k, w)]) = xs @ [(k, v)]" if "k \<notin> fst ` set xs" for k xs and v w :: "'b \<times> rat"
    using that by (induction xs) auto
  have new: "AList.update k v xs = xs @ [(k, v)]" if "k \<notin> fst ` set xs" for k xs and v :: "'b \<times> rat"
    using that by (induction xs) auto
  have ev: "evict (ec_maxsize c) ?d = (if length ?d = ec_maxsize c then tl ?d else ?d)"
    using assms by (auto simp: cache_ok_def evict_suffix drop_Suc)
  have 1: "ec_cache (ec_put t k e c) =
      (if k \<in> fst ` set ?d then AList.delete k ?d else if length ?d = ec_maxsize c then tl ?d else ?d) @ [(k, e, fl (t + ec_ttl c))]"
  proof (cases "map_of ?d k")
    case None
    then have k: "k \<notin> fst ` set ?d" by (simp add: map_of_eq_None_iff)
    moreover have "set (evict (ec_maxsize c) ?d) \<subseteq> set ?d" unfolding ev by (auto dest: in_set_tlD)
    ultimately have "k \<notin> fst ` set (evict (ec_maxsize c) ?d)" by blast
    with None k show ?thesis by (simp add: ec_put_def put_locked_def Let_def new ev [symmetric])
  next
    case (Some v)
    then have "k \<in> fst ` set ?d" by (force dest: map_of_SomeD)
    moreover have "k \<notin> fst ` set (AList.delete k ?d)" by (auto simp: AList.delete_eq)
    ultimately show ?thesis using Some by (simp add: ec_put_def put_locked_def Let_def move_to_end_def upd)
  qed
  have "k \<notin> fst ` set (if k \<in> fst ` set ?d then AList.delete k ?d else if length ?d = ec_maxsize c then tl ?d else ?d)"
    by (auto simp: AList.delete_eq dest: in_set_tlD split: if_splits)
  then have "map_of (ec_cache (ec_put t k e c)) k = Some (e, fl (t + ec_ttl c))"
    unfolding 1 by (rule map_of_snoc)
  with 1 show ?thesis by (simp add: ec_get_def)
qed

section \<open>Example runs\<close>

text \<open>Caller 0 fetches an endpoint and caller 2 waits for it.\<close>

definition demo_key :: "int key" where
  "demo_key = (''sb'', 80)"

definition demo_wait :: "(int, string) EcSystem" where
  "demo_wait = enter 2 0 demo_key (enter 0 0 demo_key (sys_init 1 600))"

lemma demo_pcs: "sys_pc demo_wait 0 = Fetching demo_key 0 0" "sys_pc demo_wait 2 = Waiting 0"
  by (simp_all add: demo_wait_def enter_def ec_lookup_def register_inflight_def sys_init_def EndpointCache_init_def)

lemma demo_reachable: "ec_reachable 1 600 demo_wait"
proof -
  let ?s0 = "sys_init 1 600 :: (int, string) EcSystem" and ?s1 = "enter 0 0 demo_key (sys_init 1 600) :: (int, string) EcSystem"
  have "ec_step ?s0 ?s1" by (rule step_enter) (simp add: sys_init_def)
  moreover have "ec_step ?s1 demo_wait"
    unfolding demo_wait_def
    by (rule step_enter) (simp add: enter_def ec_lookup_def register_inflight_def sys_init_def EndpointCache_init_def)
  ultimately show ?thesis
    unfolding ec_reachable_def by (intro rtranclp.rtrancl_into_rtrancl [OF r_into_rtranclp])
qed

lemma reachable_steps: "ec_reachable m ttl s \<Longrightarrow> ec_step\<^sup>*\<^sup>* s s' \<Longrightarrow> ec_reachable m ttl s'"
  unfolding ec_reachable_def by (rule rtranclp_trans)

theorem ec_reachable_safe_witness:
  "length (ec_cache (sys_cache demo_wait)) \<le> ec_maxsize (sys_cache demo_wait) \<and>
   (inf_event (sys_inf demo_wait 0) \<or> (\<exists>a. a \<noteq> 2 \<and> owned (sys_pc demo_wait a) = Some 0))"
  using ec_reachable_safe [OF demo_reachable, of 2 demo_key 0 0 2 0] by (simp add: demo_pcs)

theorem invalidated_fetch_is_not_cached_witness:
  "ec_cache (sys_cache (fetch_returns 0 5 demo_key 0 0 ''ep'' (set_cache (ec_invalidate ''sb'' (sys_cache demo_wait)) demo_wait))) = []"
  using invalidated_fetch_is_not_cached [OF demo_reachable demo_pcs(1) rtranclp.rtrancl_refl, of "''sb''" 5 "''ep''"]
  by (simp add: demo_pcs) (simp add: ec_invalidate_def demo_wait_def enter_def ec_lookup_def register_inflight_def sys_init_def EndpointCache_init_def)

theorem waiter_gets_the_outcome_witness:
  "sys_pc (wake 2 0 (set_event 0 0 (Returned (Some ''ep'')) (leave_inflight 0 demo_key 0 (Returned (Some ''ep''))
     (fetch_returns 0 5 demo_key 0 0 ''ep'' demo_wait)))) 2 = Finished (Returned (Some ''ep''))"
proof -
  let ?s1 = "fetch_returns 0 5 demo_key 0 0 ''ep'' demo_wait" and ?out = "Returned (Some ''ep'')"
  let ?s2 = "leave_inflight 0 demo_key 0 ?out ?s1"
  have "ec_step ?s1 ?s2" by (rule step_leave) (simp add: fetch_returns_def)
  with step_fetch [OF demo_pcs(1), of 5 "''ep''"] have "ec_step\<^sup>*\<^sup>* demo_wait ?s2"
    by (rule rtranclp.rtrancl_into_rtrancl [OF r_into_rtranclp])
  then have r: "ec_reachable 1 600 ?s2" by (rule reachable_steps [OF demo_reachable])
  have "sys_pc ?s2 0 = Popped 0 ?out" and "sys_pc (set_event 0 0 ?out ?s2) 2 = Waiting 0"
    using demo_pcs by (simp_all add: leave_inflight_def set_event_def fetch_returns_def)
  from waiter_gets_the_outcome [OF r this(1) rtranclp.rtrancl_refl this(2)] show ?thesis by simp
qed


theorem put_is_least_recently_used_witness:
  "map fst (ec_cache (ec_put 0 (''b'', 1 :: int) ''y'' (ec_put 0 (''a'', 1) ''x'' (EndpointCache_init 1 600)))) = [(''b'', 1)]"
proof -
  have c: "cache_ok (EndpointCache_init 1 600 :: (int, string) EndpointCache)"
    by (simp add: cache_ok_def EndpointCache_init_def)
  show ?thesis
    using put_is_least_recently_used [OF c, of 0 "(''a'', 1)" "''x''" 0]
      put_is_least_recently_used [OF cache_ops_ok(2) [OF c], of 0 "(''b'', 1)" "''y''" 0 "(''a'', 1)" "''x''" 0]
    by (simp add: EndpointCache_init_def) (simp add: ec_put_def put_locked_def Let_def)
qed

text \<open>
  A fetch that a \<open>KeyboardInterrupt\<close> ends makes the threads that wait for it return \<open>None\<close> as if it were an endpoint.
\<close>

lemma interrupted_fetch_returns_none:
  "\<exists>s :: (int, string) EcSystem. ec_reachable 1 600 s \<and> sys_pc s 2 = Finished (Returned None)"
proof -
  let ?ex = "BaseExceptionOnly ''KeyboardInterrupt''"
  let ?s1 = "fetch_raises 0 demo_key 0 ?ex demo_wait"
  let ?s2 = "leave_inflight 0 demo_key 0 (Raised ?ex) ?s1"
  let ?s3 = "set_event 0 0 (Raised ?ex) ?s2"
  have pcs: "sys_pc ?s1 0 = Fetched demo_key 0 (Raised ?ex)" "sys_pc ?s2 0 = Popped 0 (Raised ?ex)" "sys_pc ?s3 2 = Waiting 0"
    "inf_event (sys_inf ?s3 0)"
    using demo_pcs by (simp_all add: fetch_raises_def leave_inflight_def set_event_def)
  have "ec_step\<^sup>*\<^sup>* demo_wait ?s3"
    using step_raise [OF demo_pcs(1), of ?ex] step_leave [OF pcs(1)] step_set [OF pcs(2)] by (rule three_steps)
  then have r: "ec_reachable 1 600 ?s3" by (rule reachable_steps [OF demo_reachable])
  have "ec_reachable 1 600 (wake 2 0 ?s3)"
    using r_into_rtranclp [of ec_step, OF step_wake [OF pcs(3,4)]] by (rule reachable_steps [OF r])
  moreover have "sys_pc (wake 2 0 ?s3) 2 = Finished (Returned None)"
    by (simp add: wake_def set_event_def leave_inflight_def fetch_raises_def inflight_outcome_def demo_wait_def enter_def
        ec_lookup_def register_inflight_def sys_init_def EndpointCache_init_def InflightEntry_init_def)
  ultimately show ?thesis by blast
qed

end
