(* ===== verification/Server_Validation.thy ===== *)
theory Server_Validation
  imports Py_Text "HOL-Library.AList"
begin

text \<open>
  Request validation of the lifecycle server (\<open>services/validators.py\<close>, \<open>extensions/validation.py\<close>) and the codec of
  extension keys (\<open>extensions/codec.py\<close>). A rejected request is an HTTP error with status 400 and one of the codes of
  \<open>SandboxErrorCodes\<close>; the message texts are not modelled.
\<close>

section \<open>Errors\<close>

datatype (plugins only: code) SandboxErrorCode =
    DOCKER_INITIALIZATION_ERROR | CONTAINER_QUERY_FAILED | SANDBOX_NOT_FOUND | IMAGE_PULL_FAILED
  | IMAGE_REMOVE_ERROR | CONTAINER_START_FAILED | SANDBOX_DELETE_FAILED | SANDBOX_NOT_RUNNING
  | SANDBOX_PAUSE_FAILED | SANDBOX_NOT_PAUSED | SANDBOX_RESUME_FAILED | INVALID_EXPIRATION
  | EXPIRATION_NOT_EXTENDED | EXECD_START_FAILED | EXECD_DISTRIBUTION_FAILED | BOOTSTRAP_INSTALL_FAILED
  | INVALID_ENTRYPOINT | INVALID_PORT | NETWORK_MODE_ENDPOINT_UNAVAILABLE | K8S_INITIALIZATION_ERROR
  | K8S_SANDBOX_NOT_FOUND | K8S_POD_FAILED | K8S_POD_READY_TIMEOUT | K8S_API_ERROR
  | K8S_POD_IP_NOT_AVAILABLE | UNKNOWN_ERROR | API_NOT_SUPPORTED | INVALID_METADATA_LABEL
  | INVALID_PARAMETER | INTERNAL_ERROR | K8S_POOL_NOT_FOUND | K8S_POOL_ALREADY_EXISTS | K8S_POOL_API_ERROR
  | K8S_POOL_NOT_SUPPORTED | INVALID_VOLUME_NAME | DUPLICATE_VOLUME_NAME | INVALID_VOLUME_BACKEND
  | INVALID_MOUNT_PATH | INVALID_SUB_PATH | INVALID_HOST_PATH | HOST_PATH_NOT_ALLOWED | INVALID_PVC_NAME
  | UNSUPPORTED_VOLUME_BACKEND | HOST_PATH_NOT_FOUND | HOST_PATH_CREATE_FAILED | PVC_VOLUME_NOT_FOUND
  | PVC_VOLUME_INSPECT_FAILED | PVC_SUBPATH_UNSUPPORTED_DRIVER | INVALID_OSSFS_VERSION
  | INVALID_OSSFS_ENDPOINT | INVALID_OSSFS_BUCKET | INVALID_OSSFS_OPTION | INVALID_OSSFS_CREDENTIALS
  | INVALID_OSSFS_MOUNT_ROOT | OSSFS_PATH_NOT_FOUND | OSSFS_MOUNT_FAILED | OSSFS_UNMOUNT_FAILED
  | INVALID_STATE

datatype http_error = HTTPException int SandboxErrorCode

type_synonym 'a checked = "http_error + 'a"

definition reject :: "SandboxErrorCode \<Rightarrow> 'a checked" where
  "reject code = Inl (HTTPException 400 code)"

definition require :: "bool \<Rightarrow> SandboxErrorCode \<Rightarrow> unit checked" where
  "require b code = (if b then Inr () else reject code)"

text \<open>One check after the other; the first that raises ends the validation.\<close>

definition and_then :: "unit checked \<Rightarrow> 'a checked \<Rightarrow> 'a checked" where
  "and_then r k = (case r of Inl e \<Rightarrow> Inl e | Inr _ \<Rightarrow> k)"

fun check_all :: "('a \<Rightarrow> unit checked) \<Rightarrow> 'a list \<Rightarrow> unit checked" where
  "check_all f [] = Inr ()"
| "check_all f (x # xs) = and_then (f x) (check_all f xs)"

lemma require_ok [simp]: "require b c = Inr u \<longleftrightarrow> b"
  by (simp add: require_def reject_def)

lemma reject_not_ok [simp]: "reject c \<noteq> Inr x"
  by (simp add: reject_def)

lemma and_then_ok [simp]: "and_then r k = Inr x \<longleftrightarrow> r = Inr () \<and> k = Inr x"
  by (cases r) (auto simp: and_then_def)

lemma check_all_ok [simp]: "check_all f xs = Inr u \<longleftrightarrow> (\<forall>x\<in>set xs. f x = Inr ())"
  by (induction xs) auto

section \<open>Regular expressions\<close>

text \<open>
  The anchored patterns as predicates on the whole text. \<open>$\<close> also matches before a newline that ends the text.
\<close>

definition newline :: char where
  "newline = CHR 0x0A"

definition dollar :: "(string \<Rightarrow> bool) \<Rightarrow> string \<Rightarrow> bool" where
  "dollar P s \<longleftrightarrow> P s \<or> s \<noteq> [] \<and> last s = newline \<and> P (butlast s)"

definition is_lower_alnum :: "char \<Rightarrow> bool" where
  "is_lower_alnum c \<longleftrightarrow> is_lower c \<or> is_digit c"

definition is_alpha :: "char \<Rightarrow> bool" where
  "is_alpha c \<longleftrightarrow> is_lower c \<or> is_upper c"

definition is_alnum :: "char \<Rightarrow> bool" where
  "is_alnum c \<longleftrightarrow> is_alpha c \<or> is_digit c"

text \<open>\<open>A([B]*A)?\<close> for character classes \<open>A\<close> and \<open>B\<close>.\<close>

definition bracketed :: "(char \<Rightarrow> bool) \<Rightarrow> (char \<Rightarrow> bool) \<Rightarrow> string \<Rightarrow> bool" where
  "bracketed A B s \<longleftrightarrow> s \<noteq> [] \<and> A (hd s) \<and> A (last s) \<and> list_all B (butlast (tl s))"

definition dns_label :: "string \<Rightarrow> bool" where
  "dns_label = bracketed is_lower_alnum (\<lambda>c. c = CHR ''-'' \<or> is_lower_alnum c)"


definition label_name :: "string \<Rightarrow> bool" where
  "label_name = bracketed is_alnum (\<lambda>c. List.member [CHR ''-'', CHR ''_'', CHR ''.''] c \<or> is_alnum c)"


definition LABEL_VALUE_RE :: "string \<Rightarrow> bool" where
  "LABEL_VALUE_RE = dollar (\<lambda>s. s = [] \<or> label_name s)"

definition HOST_PATH_RE :: "string \<Rightarrow> bool" where
  "HOST_PATH_RE s \<longleftrightarrow>
     prefix ''/'' s \<or>
     (case s of a # b # c # _ \<Rightarrow> is_alpha a \<and> b = CHR '':'' \<and> (c = CHR 0x5C \<or> c = CHR ''/'') | _ \<Rightarrow> False)"

definition VOLUME_NAME_RE :: "string \<Rightarrow> bool" where
  "VOLUME_NAME_RE = dollar dns_label"


section \<open>Validators\<close>

definition ensure_entrypoint :: "string list \<Rightarrow> unit checked" where
  "ensure_entrypoint entrypoint = require (entrypoint \<noteq> []) INVALID_ENTRYPOINT"

definition forward_slashes :: "string \<Rightarrow> string" where
  "forward_slashes path = map (\<lambda>c. if c = CHR 0x5C then CHR ''/'' else c) path"

definition lower_drive :: "string \<Rightarrow> string" where
  "lower_drive n =
     (case n of a # b # r \<Rightarrow> if is_alpha a \<and> b = CHR '':'' then hd (py_lower [a]) # b # r else n | _ \<Rightarrow> n)"

definition normalize_prefix_path :: "string \<Rightarrow> string" where
  "normalize_prefix_path path =
     (let n = lower_drive (forward_slashes path)
      in if 1 < length n \<and> suffix ''/'' n then butlast n else n)"


definition is_valid_label_value :: "string \<Rightarrow> bool" where
  "is_valid_label_value v = (if 63 < length v then False else LABEL_VALUE_RE v)"



text \<open>A timestamp without a zone is read as UTC, one with a zone converted; both are the instant they denote.\<close>

datatype timestamp = NaiveTime datetime | ZonedTime datetime timedelta

fun to_utc :: "timestamp \<Rightarrow> datetime" where
  "to_utc (NaiveTime t) = t"
| "to_utc (ZonedTime t offset) = t - offset"

definition ensure_future_expiration :: "datetime \<Rightarrow> timestamp \<Rightarrow> datetime checked" where
  "ensure_future_expiration now expires_at =
     (let normalized = to_utc expires_at
      in if normalized \<le> now then reject INVALID_EXPIRATION else Inr normalized)"

definition ensure_valid_port :: "int \<Rightarrow> unit checked" where
  "ensure_valid_port port = (if port < 1 \<or> 65535 < port then reject INVALID_PORT else Inr ())"






record PlatformSpec =
  plat_os :: string
  plat_arch :: string

definition ensure_platform_valid :: "PlatformSpec option \<Rightarrow> (PlatformSpec option) checked" where
  "ensure_platform_valid platform =
     (case platform of
        None \<Rightarrow> Inr None
      | Some p \<Rightarrow>
          (let normalized_os = py_lower (py_strip (plat_os p)); normalized_arch = py_lower (py_strip (plat_arch p))
           in if \<not> List.member [''linux'', ''windows''] normalized_os then reject INVALID_PARAMETER
              else if \<not> List.member [''amd64'', ''arm64''] normalized_arch then reject INVALID_PARAMETER
              else Inr (Some \<lparr>plat_os = normalized_os, plat_arch = normalized_arch\<rparr>)))"

definition ensure_valid_volume_name :: "string \<Rightarrow> unit checked" where
  "ensure_valid_volume_name name =
     and_then (require (name \<noteq> []) INVALID_VOLUME_NAME)
     (and_then (require (\<not> 63 < length name) INVALID_VOLUME_NAME)
       (require (VOLUME_NAME_RE name) INVALID_VOLUME_NAME))"



definition path_tail :: "string \<Rightarrow> string" where
  "path_tail path =
     (let p = forward_slashes path
      in case p of a # b # c # _ \<Rightarrow> if is_alpha a \<and> b = CHR '':'' \<and> c = CHR ''/'' then drop 2 p else p | _ \<Rightarrow> p)"

definition under_prefix :: "string \<Rightarrow> string \<Rightarrow> bool" where
  "under_prefix path pre \<longleftrightarrow>
     normalize_prefix_path path = normalize_prefix_path pre \<or>
     prefix (normalize_prefix_path pre @ ''/'') (normalize_prefix_path path)"

definition ensure_valid_host_path :: "string \<Rightarrow> (string list) option \<Rightarrow> unit checked" where
  "ensure_valid_host_path path allowed_prefixes =
     and_then (require (path \<noteq> []) INVALID_HOST_PATH)
     (and_then (require (HOST_PATH_RE path) INVALID_HOST_PATH)
     (let tail = path_tail path
      in and_then (require (\<not> (sublist ''/..'' tail \<or> tail = ''/..'')) INVALID_HOST_PATH)
         (and_then (require (\<not> (sublist ''//'' tail \<or> 1 < length tail \<and> suffix ''/'' tail)) INVALID_HOST_PATH)
         (case allowed_prefixes of
            None \<Rightarrow> Inr ()
          | Some pres \<Rightarrow> require (list_ex (under_prefix path) pres) HOST_PATH_NOT_ALLOWED))))"


record OSSFS =
  oss_bucket :: string
  oss_endpoint :: string
  oss_version :: string
  oss_options :: "(string list) option"
  oss_access_key_id :: "string option"
  oss_access_key_secret :: "string option"


record Volume =
  vol_name :: string
  vol_mount_path :: string
  vol_read_only :: bool
  vol_sub_path :: "string option"
  vol_host :: "string option"
  vol_pvc :: "string option"
  vol_ossfs :: "OSSFS option"





record EgressConfig =
  egress_image :: "string option"
  egress_mode :: string

definition ensure_egress_configured :: "'p option \<Rightarrow> EgressConfig option \<Rightarrow> unit checked" where
  "ensure_egress_configured network_policy egress_config =
     (if network_policy = None then Inr ()
      else let image = Option.bind egress_config egress_image
           in if image \<in> {None, Some []} then reject INVALID_PARAMETER else Inr ())"

text \<open>The argument is \<open>credential_proxy.enabled\<close>, when there is one; the warning about the default action is not modelled.\<close>

definition ensure_credential_proxy_configured :: "bool option \<Rightarrow> EgressConfig option \<Rightarrow> unit checked" where
  "ensure_credential_proxy_configured enabled egress_config =
     (if enabled \<noteq> Some True then Inr ()
      else if map_option egress_mode egress_config \<noteq> Some ''dns+nft'' then reject INVALID_PARAMETER else Inr ())"

definition ensure_egress_runtime_compatible :: "'p option \<Rightarrow> string option \<Rightarrow> string option \<Rightarrow> unit checked" where
  "ensure_egress_runtime_compatible network_policy secure_runtime_type effective_runtime_class =
     (if network_policy = None then Inr ()
      else let runtime_type =
             (if secure_runtime_type \<notin> {None, Some []} then secure_runtime_type
              else if effective_runtime_class \<notin> {None, Some []} then effective_runtime_class else None)
           in case runtime_type of
                None \<Rightarrow> Inr ()
              | Some t \<Rightarrow> if List.member [''gvisor''] t then reject INVALID_PARAMETER else Inr ())"

section \<open>Extensions\<close>

definition ACCESS_RENEW_EXTEND_SECONDS_KEY :: string where
  "ACCESS_RENEW_EXTEND_SECONDS_KEY = ''access.renew.extend.seconds''"

definition ACCESS_RENEW_EXTEND_SECONDS_METADATA_KEY :: string where
  "ACCESS_RENEW_EXTEND_SECONDS_METADATA_KEY = ''opensandbox.io/access-renew-extend-seconds''"

definition EXTENSIONS_ANNOTATION_PREFIX :: string where
  "EXTENSIONS_ANNOTATION_PREFIX = ''opensandbox.extensions.''"

definition ANNOTATION_METADATA_PREFIX :: string where
  "ANNOTATION_METADATA_PREFIX = ''opensandbox.io/extensions.''"

definition validate_access_renew_extend_seconds :: "(string \<times> string option) list \<Rightarrow> unit checked" where
  "validate_access_renew_extend_seconds extensions =
     (case map_of extensions ACCESS_RENEW_EXTEND_SECONDS_KEY of
        None \<Rightarrow> Inr ()
      | Some None \<Rightarrow> reject INVALID_PARAMETER
      | Some (Some raw) \<Rightarrow>
          (let s = py_strip raw
           in if s = [] then reject INVALID_PARAMETER
              else case py_int_of_str s of
                None \<Rightarrow> reject INVALID_PARAMETER
              | Some n \<Rightarrow> if n < 300 \<or> 86400 < n then reject INVALID_PARAMETER else Inr ()))"

definition validate_extensions :: "((string \<times> string option) list) option \<Rightarrow> unit checked" where
  "validate_extensions extensions =
     (case extensions of None \<Rightarrow> Inr () | Some e \<Rightarrow> if e = [] then Inr () else validate_access_renew_extend_seconds e)"

definition apply_access_renew_extend_seconds_to_mapping ::
  "(string \<times> string) list \<Rightarrow> ((string \<times> string option) list) option \<Rightarrow> string \<Rightarrow> (string \<times> string) list" where
  "apply_access_renew_extend_seconds_to_mapping mapping extensions metadata_key =
     (case extensions of
        None \<Rightarrow> mapping
      | Some e \<Rightarrow>
          (case map_of e ACCESS_RENEW_EXTEND_SECONDS_KEY of
             None \<Rightarrow> mapping
           | Some None \<Rightarrow> mapping
           | Some (Some raw) \<Rightarrow> (let s = py_strip raw in if s = [] then mapping else AList.update metadata_key s mapping)))"

fun apply_loop :: "(string \<times> string) list \<Rightarrow> (string \<times> string) list \<Rightarrow> (string \<times> string) list" where
  "apply_loop annotations [] = annotations"
| "apply_loop annotations ((k, v) # e) =
     apply_loop
       (if prefix EXTENSIONS_ANNOTATION_PREFIX k
        then AList.update (ANNOTATION_METADATA_PREFIX @ drop (length EXTENSIONS_ANNOTATION_PREFIX) k) v annotations
        else annotations) e"

definition apply_extensions_to_mapping ::
  "(string \<times> string) list \<Rightarrow> ((string \<times> string) list) option \<Rightarrow> (string \<times> string) list" where
  "apply_extensions_to_mapping annotations extensions =
     (case extensions of None \<Rightarrow> annotations | Some e \<Rightarrow> apply_loop annotations e)"

definition extract_extensions_from_mapping :: "((string \<times> string) list) option \<Rightarrow> ((string \<times> string) list) option" where
  "extract_extensions_from_mapping annotations =
     (case annotations of
        None \<Rightarrow> None
      | Some a \<Rightarrow>
          (let e = map (\<lambda>(k, v). (EXTENSIONS_ANNOTATION_PREFIX @ drop (length ANNOTATION_METADATA_PREFIX) k, v))
                     (filter (\<lambda>(k, v). prefix ANNOTATION_METADATA_PREFIX k) a)
           in if e = [] then None else Some e))"

section \<open>Host paths stay under their prefix\<close>

text \<open>The directory a normalised path denotes: its components, where \<open>.\<close> stays and \<open>..\<close> goes up.\<close>

fun walk :: "string \<Rightarrow> string list \<Rightarrow> string list" where
  "walk w dir = (if w = [] \<or> w = ''.'' then dir else if w = ''..'' then butlast dir else dir @ [w])"

definition resolve :: "string \<Rightarrow> string list" where
  "resolve path = fold walk (py_split (CHR ''/'') (normalize_prefix_path path)) []"

lemma py_split_append_sep: "py_split c (a @ c # b) = py_split c a @ py_split c b"
proof (induction a)
  case (Cons x a)
  obtain w ws where "py_split c a = w # ws" by (cases "py_split c a") auto
  with Cons show ?case by simp
qed simp

lemma hd_py_split: "hd (py_split c s) = takeWhile (\<lambda>x. x \<noteq> c) s"
  by (induction s) (auto split: list.split)

lemma split_part: "w \<in> set (tl (py_split c s)) \<Longrightarrow> sublist (c # w) s"
proof (induction s)
  case (Cons x s)
  obtain v vs where v: "py_split c s = v # vs" by (cases "py_split c s") auto
  have "prefix v s" using hd_py_split [of c s] takeWhile_is_prefix [of "\<lambda>x. x \<noteq> c" s] by (simp add: v)
  with Cons v show ?case by (auto simp: sublist_Cons_right split: if_splits)
qed simp

lemma fold_walk: "''..'' \<notin> set ws \<Longrightarrow> fold walk ws dir = dir @ filter (\<lambda>w. w \<noteq> [] \<and> w \<noteq> ''.'') ws"
  by (induction ws arbitrary: dir) auto

lemma sublist_butlast: "sublist w (butlast s) \<Longrightarrow> sublist w s"
  by (metis append_butlast_last_id butlast.simps(1) sublist_append_rightI sublist_order.dual_order.trans)

lemma lower_alpha: "is_alpha a \<Longrightarrow> hd (py_lower [a]) \<noteq> CHR ''/'' \<and> hd (py_lower [a]) \<noteq> CHR ''.''"
proof -
  assume "is_alpha a"
  then have "is_lower (hd (py_lower [a]))"
    by (cases "is_upper a") (auto simp: py_lower_def is_alpha_def is_lower_def is_upper_def)
  then show ?thesis by (auto simp: is_lower_def)
qed

text \<open>The views of a host path: the text after the drive, and the normalised path; a prefix without \<open>/\<close> precedes the tail.\<close>

lemma host_path_views:
  assumes "HOST_PATH_RE path"
  shows "\<exists>d. CHR ''/'' \<notin> set d \<and> d \<noteq> ''..'' \<and> lower_drive (forward_slashes path) = d @ path_tail path \<and> prefix ''/'' (path_tail path)"
proof (cases "prefix ''/'' path")
  case True
  then obtain r where r: "path = CHR ''/'' # r" by (auto simp: prefix_def)
  have "lower_drive (forward_slashes path) = forward_slashes path \<and> path_tail path = forward_slashes path"
    by (auto simp: r forward_slashes_def lower_drive_def path_tail_def Let_def is_alpha_def is_lower_def is_upper_def split: list.split)
  moreover have "prefix ''/'' (forward_slashes path)" by (simp add: r forward_slashes_def)
  ultimately show ?thesis by (intro exI [of _ "[]"]) simp
next
  case False
  with assms obtain a c r where r: "path = a # CHR '':'' # c # r" "is_alpha a" "c = CHR 0x5C \<or> c = CHR ''/''"
    by (auto simp: HOST_PATH_RE_def split: list.splits)
  then have a: "a \<noteq> CHR 0x5C" "a \<noteq> CHR ''/''" by (auto simp: is_alpha_def is_lower_def is_upper_def)
  have f: "forward_slashes path = a # CHR '':'' # CHR ''/'' # forward_slashes r" using r a by (auto simp: forward_slashes_def)
  show ?thesis
    using r(2) lower_alpha [OF r(2)]
    by (intro exI [of _ "[hd (py_lower [a]), CHR '':'']"]) (auto simp: f lower_drive_def path_tail_def Let_def)
qed

lemma sublist_skip: "x \<notin> set d \<Longrightarrow> sublist (x # w) (d @ s) \<Longrightarrow> sublist (x # w) s"
  by (induction d) (auto simp: sublist_Cons_right)

lemma normalized_no_dotdot:
  assumes "HOST_PATH_RE path" and "\<not> sublist ''/..'' (path_tail path)"
  shows "''..'' \<notin> set (py_split (CHR ''/'') (normalize_prefix_path path))"
proof
  obtain d where d: "CHR ''/'' \<notin> set d" "d \<noteq> ''..''" "lower_drive (forward_slashes path) = d @ path_tail path"
    "prefix ''/'' (path_tail path)" using host_path_views [OF assms(1)] by blast
  obtain r where r: "path_tail path = CHR ''/'' # r" using d(4) by (auto simp: prefix_def)
  let ?n = "normalize_prefix_path path"
  assume dd: "''..'' \<in> set (py_split (CHR ''/'') ?n)"
  have n: "?n = d @ path_tail path \<or> ?n = butlast (d @ path_tail path)" by (auto simp: normalize_prefix_path_def Let_def d(3))
  have "takeWhile (\<lambda>x. x \<noteq> CHR ''/'') ?n = d"
    using n d(1) by (auto simp: r butlast_append takeWhile_append2 takeWhile_tail)
  then have "hd (py_split (CHR ''/'') ?n) \<noteq> ''..''" using d(2) by (simp add: hd_py_split)
  with dd have "''..'' \<in> set (tl (py_split (CHR ''/'') ?n))"
    by (metis hd_Cons_tl py_split_nonempty set_ConsD)
  then have "sublist ''/..'' ?n" using split_part by fastforce
  then have "sublist ''/..'' (d @ path_tail path)" using n sublist_butlast by metis
  then have "sublist ''/..'' (path_tail path)" using d(1) sublist_skip by fastforce
  with assms(2) show False by simp
qed

lemma under_prefix_parts:
  assumes "under_prefix path pre"
  shows "prefix (py_split (CHR ''/'') (normalize_prefix_path pre)) (py_split (CHR ''/'') (normalize_prefix_path path))"
proof -
  consider "normalize_prefix_path path = normalize_prefix_path pre"
    | r where "normalize_prefix_path path = normalize_prefix_path pre @ CHR ''/'' # r"
    using assms by (auto simp: under_prefix_def prefix_def)
  then show ?thesis by cases (simp_all add: py_split_append_sep)
qed

text \<open>
  Claim C17. A host path that is accepted is absolute and has no component \<open>..\<close>, so that it denotes the directory it
  spells; and when prefixes are configured, that directory lies at or below the directory of one of them: the
  restriction cannot be escaped by going up.
\<close>

theorem host_path_is_confined:
  assumes "ensure_valid_host_path path allowed = Inr ()"
  shows "HOST_PATH_RE path \<and> ''..'' \<notin> set (py_split (CHR ''/'') (normalize_prefix_path path)) \<and>
    (\<forall>pres. allowed = Some pres \<longrightarrow> (\<exists>pre\<in>set pres. prefix (resolve pre) (resolve path)))"
proof -
  have ok: "HOST_PATH_RE path" "\<not> sublist ''/..'' (path_tail path)"
    and pre: "\<And>pres. allowed = Some pres \<Longrightarrow> list_ex (under_prefix path) pres"
    using assms by (auto simp: ensure_valid_host_path_def Let_def split: option.splits)
  note dd = normalized_no_dotdot [OF ok]
  have "prefix (resolve q) (resolve path)" if q: "under_prefix path q" for q
  proof -
    from under_prefix_parts [OF q] obtain rest
      where "py_split (CHR ''/'') (normalize_prefix_path path) = py_split (CHR ''/'') (normalize_prefix_path q) @ rest"
      by (auto simp: prefix_def)
    with dd show ?thesis by (simp add: resolve_def fold_walk)
  qed
  with ok dd pre show ?thesis by (fastforce simp: list_ex_iff)
qed

theorem host_path_is_confined_witness:
  "\<exists>pre\<in>set [''/srv'', ''/data/'']. prefix (resolve pre) (resolve ''/data/a'')"
proof -
  have "ensure_valid_host_path ''/data/a'' (Some [''/srv'', ''/data/'']) = Inr ()" by code_simp
  from host_path_is_confined [OF this] show ?thesis by blast
qed

section \<open>Volumes\<close>



lemma dollar_empty [simp]: "\<not> dollar dns_label []" "\<not> dollar label_name []"
  by (auto simp: dollar_def dns_label_def label_name_def bracketed_def)





section \<open>Metadata\<close>






section \<open>Extensions\<close>

lemma apply_loop_other:
  "\<not> prefix ANNOTATION_METADATA_PREFIX a \<Longrightarrow> map_of (apply_loop ann e) a = map_of ann a"
  by (induction ann e rule: apply_loop.induct) (auto simp: update_conv')

lemma apply_loop_key:
  assumes "distinct (map fst e)"
  shows "map_of (apply_loop ann e) (ANNOTATION_METADATA_PREFIX @ x) =
     (case map_of e (EXTENSIONS_ANNOTATION_PREFIX @ x) of None \<Rightarrow> map_of ann (ANNOTATION_METADATA_PREFIX @ x) | Some v \<Rightarrow> Some v)"
  using assms
proof (induction ann e rule: apply_loop.induct)
  case (2 ann k v e)
  then have k: "map_of e k = None" by (simp add: map_of_eq_None_iff)
  show ?case
  proof (cases "prefix EXTENSIONS_ANNOTATION_PREFIX k")
    case True
    then obtain z where "k = EXTENSIONS_ANNOTATION_PREFIX @ z" by (auto simp: prefix_def)
    with 2 k show ?thesis by (cases "x = z") (simp_all add: update_conv' split: option.split)
  next
    case False
    then have "k \<noteq> EXTENSIONS_ANNOTATION_PREFIX @ x" by auto
    with False 2 show ?thesis by simp
  qed
qed simp

lemma extract_lookup:
  "map_of (map (\<lambda>(k, v). (P @ drop (length Q) k, v)) (filter (\<lambda>(k, v). prefix Q k) a)) (P @ x) = map_of a (Q @ x)"
proof (induction a)
  case (Cons p a)
  obtain k v where p: "p = (k, v)" by fastforce
  show ?case
  proof (cases "prefix Q k")
    case True
    then obtain z where "k = Q @ z" by (auto simp: prefix_def)
    with Cons show ?thesis by (simp add: p)
  next
    case False
    then have "k \<noteq> Q @ x" by auto
    with False Cons show ?thesis by (simp add: p)
  qed
qed simp

text \<open>
  Claim C35. Extensions survive being stored as annotations: what is extracted from the annotations of a workload that had
  none of them before is exactly the extension keys with the propagated prefix, with their values.
\<close>

theorem extensions_roundtrip:
  assumes "distinct (map fst e)" and "\<And>a. a \<in> fst ` set ann \<Longrightarrow> \<not> prefix ANNOTATION_METADATA_PREFIX a"
  shows "map_of (case extract_extensions_from_mapping (Some (apply_extensions_to_mapping ann (Some e))) of None \<Rightarrow> [] | Some x \<Rightarrow> x) k =
     (if prefix EXTENSIONS_ANNOTATION_PREFIX k then map_of e k else None)"
proof -
  let ?a = "apply_loop ann e"
  let ?x = "map (\<lambda>(k, v). (EXTENSIONS_ANNOTATION_PREFIX @ drop (length ANNOTATION_METADATA_PREFIX) k, v))
      (filter (\<lambda>(k, v). prefix ANNOTATION_METADATA_PREFIX k) ?a)"
  have eq: "(case extract_extensions_from_mapping (Some (apply_extensions_to_mapping ann (Some e))) of None \<Rightarrow> [] | Some x \<Rightarrow> x) = ?x"
    by (simp add: extract_extensions_from_mapping_def apply_extensions_to_mapping_def Let_def)
  show ?thesis
  proof (cases "prefix EXTENSIONS_ANNOTATION_PREFIX k")
    case True
    then obtain x where k: "k = EXTENSIONS_ANNOTATION_PREFIX @ x" by (auto simp: prefix_def)
    have "map_of ann (ANNOTATION_METADATA_PREFIX @ x) = None"
      using assms(2) [of "ANNOTATION_METADATA_PREFIX @ x"] by (auto simp: map_of_eq_None_iff)
    then show ?thesis
      unfolding eq using True by (simp add: k extract_lookup apply_loop_key [OF assms(1)] split: option.split)
  next
    case False
    then have "k \<notin> fst ` set ?x" by auto
    then show ?thesis unfolding eq using False by (simp add: map_of_eq_None_iff)
  qed
qed

theorem extensions_roundtrip_witness:
  "map_of (case extract_extensions_from_mapping (Some (apply_extensions_to_mapping [(''a'', ''b'')]
      (Some [(''opensandbox.extensions.pool-ref'', ''p''), (''x'', ''y'')]))) of None \<Rightarrow> [] | Some x \<Rightarrow> x)
     ''opensandbox.extensions.pool-ref'' = Some ''p''"
  using extensions_roundtrip [of "[(''opensandbox.extensions.pool-ref'', ''p''), (''x'', ''y'')]" "[(''a'', ''b'')]"
      "''opensandbox.extensions.pool-ref''"]
  by (simp add: ANNOTATION_METADATA_PREFIX_def EXTENSIONS_ANNOTATION_PREFIX_def)

section \<open>Times and platforms\<close>


lemma py_lower_idem [simp]: "py_lower (py_lower s) = py_lower s"
  by (auto simp: py_lower_def is_upper_def)

text \<open>
  An accepted platform is normalised to one of the supported pairs, and validating the normalised platform
  again leaves it as it is.
\<close>

theorem platform_is_normalised:
  "ensure_platform_valid (Some p) = Inr (Some q) \<Longrightarrow>
     plat_os q \<in> {''linux'', ''windows''} \<and> plat_arch q \<in> {''amd64'', ''arm64''} \<and> ensure_platform_valid (Some q) = Inr (Some q)"
proof -
  assume a: "ensure_platform_valid (Some p) = Inr (Some q)"
  then have q: "plat_os q \<in> {''linux'', ''windows''}" "plat_arch q \<in> {''amd64'', ''arm64''}"
    by (auto simp: ensure_platform_valid_def Let_def split: if_splits)
  moreover have "py_lower (py_strip w) = w" if "w \<in> {''linux'', ''windows'', ''amd64'', ''arm64''}" for w
    using that by (elim insertE emptyE; simp) code_simp+
  ultimately have "py_lower (py_strip (plat_os q)) = plat_os q" "py_lower (py_strip (plat_arch q)) = plat_arch q" by auto
  with q show ?thesis by (cases q) (auto simp: ensure_platform_valid_def Let_def)
qed

theorem platform_is_normalised_witness:
  "plat_os \<lparr>plat_os = ''linux'', plat_arch = ''amd64''\<rparr> \<in> {''linux'', ''windows''}"
  using platform_is_normalised [of "\<lparr>plat_os = '' Linux'', plat_arch = ''AMD64''\<rparr>" "\<lparr>plat_os = ''linux'', plat_arch = ''amd64''\<rparr>"]
  by code_simp

section \<open>Observations\<close>

text \<open>A trailing newline passes the anchored patterns; the root prefix admits the root only.\<close>

lemma newline_is_accepted:
  "is_valid_label_value (''abc'' @ [newline])" "ensure_valid_volume_name (''data'' @ [newline]) = Inr ()"
  by code_simp+

lemma root_prefix_admits_only_root:
  "ensure_valid_host_path ''/data'' (Some [''/'']) = Inl (HTTPException 400 HOST_PATH_NOT_ALLOWED)"
  by code_simp

text \<open>A name that merely starts with two dots is refused as a traversal.\<close>

lemma dotted_name_is_refused:
  "ensure_valid_host_path ''/data/..cache'' None = Inl (HTTPException 400 INVALID_HOST_PATH)"
  by code_simp

end
