(* ===== verification/Redis_Service.thy ===== *)
theory Redis_Service
  imports Prog_Logic Py_Text "HOL-Library.Multiset"
begin

text \<open>
  Redis, the service behind \<open>redis_pool_store.py\<close>, as a parameter: a record \<open>Redis\<close> of the commands the store
  and its scripts use, over an arbitrary state. What the store relies on is the documented effect of each
  command on the data set (\<open>Keyspace\<close>); the locale \<open>redis_service\<close> states it as a refinement of \<open>ref_redis\<close>,
  the commands written out on the data set. Code over any such service is then a refinement of the same code over
  \<open>ref_redis\<close>, by the rules \<open>refines_intros\<close>.
\<close>

section \<open>The commands\<close>

text \<open>
  \<open>rd_link\<close> is the passage of one message between a client and the server: it takes time and may raise. The
  commands themselves run on the server. \<open>rd_set key value nx px\<close> answers whether the key was set.
\<close>

record 's Redis =
  rd_link :: "('s, unit) M"
  rd_time :: "('s, nat \<times> nat) M"
  rd_get :: "string \<Rightarrow> ('s, string option) M"
  rd_set :: "string \<Rightarrow> string \<Rightarrow> bool \<Rightarrow> int option \<Rightarrow> ('s, bool) M"
  rd_pexpire :: "string \<Rightarrow> int \<Rightarrow> ('s, unit) M"
  rd_del :: "string list \<Rightarrow> ('s, unit) M"
  rd_lpop :: "string \<Rightarrow> ('s, string option) M"
  rd_rpush :: "string \<Rightarrow> string \<Rightarrow> ('s, unit) M"
  rd_lrem :: "string \<Rightarrow> string \<Rightarrow> ('s, unit) M"
  rd_lrange :: "string \<Rightarrow> ('s, string list) M"
  rd_hget :: "string \<Rightarrow> string \<Rightarrow> ('s, string option) M"
  rd_hset :: "string \<Rightarrow> string \<Rightarrow> string \<Rightarrow> ('s, unit) M"
  rd_hdel :: "string \<Rightarrow> string \<Rightarrow> ('s, unit) M"
  rd_hlen :: "string \<Rightarrow> ('s, nat) M"
  rd_hgetall :: "string \<Rightarrow> ('s, (string \<times> string) list) M"

section \<open>The data set\<close>

datatype rvalue = RString string | RList "string list" | RHash "(string \<times> string) list"

text \<open>
  The clock in microseconds; the keys with their values and expiry in milliseconds; the order in which a hash is
  listed at each instant; and for every message to come how long it takes and whether it is lost.
\<close>

record Keyspace =
  ks_us :: nat
  ks_data :: "string \<Rightarrow> (rvalue \<times> nat option) option"
  ks_order :: "nat \<Rightarrow> (string \<times> string) list \<Rightarrow> (string \<times> string) list"
  ks_link :: "nat \<Rightarrow> nat \<times> exn option"

definition k_ms :: "Keyspace \<Rightarrow> nat" where
  "k_ms s = ks_us s div 1000"

definition live_entry :: "nat \<Rightarrow> (rvalue \<times> nat option) option \<Rightarrow> (rvalue \<times> nat option) option" where
  "live_entry t e = (case e of Some (v, Some d) \<Rightarrow> if t < d then e else None | _ \<Rightarrow> e)"

definition k_entry :: "Keyspace \<Rightarrow> string \<Rightarrow> (rvalue \<times> nat option) option" where
  "k_entry s k = live_entry (k_ms s) (ks_data s k)"

abbreviation k_write :: "string \<Rightarrow> (rvalue \<times> nat option) option \<Rightarrow> Keyspace \<Rightarrow> Keyspace" where
  "k_write k e s \<equiv> s\<lparr>ks_data := (ks_data s)(k := e)\<rparr>"

definition wrongtype :: exn where
  "wrongtype = OtherException ''WRONGTYPE Operation against a key holding the wrong kind of value''"

definition k_string :: "string \<Rightarrow> (Keyspace, string option) M" where
  "k_string k s =
     (case k_entry s k of None \<Rightarrow> (Inr None, s) | Some (RString v, _) \<Rightarrow> (Inr (Some v), s) | _ \<Rightarrow> (Inl wrongtype, s))"

definition k_list :: "string \<Rightarrow> (Keyspace, string list) M" where
  "k_list k s =
     (case k_entry s k of None \<Rightarrow> (Inr [], s) | Some (RList xs, _) \<Rightarrow> (Inr xs, s) | _ \<Rightarrow> (Inl wrongtype, s))"

definition k_hash :: "string \<Rightarrow> (Keyspace, (string \<times> string) list) M" where
  "k_hash k s =
     (case k_entry s k of None \<Rightarrow> (Inr [], s) | Some (RHash h, _) \<Rightarrow> (Inr h, s) | _ \<Rightarrow> (Inl wrongtype, s))"

text \<open>A new value under an old key keeps its expiry; an empty list or hash is removed.\<close>

definition k_store :: "string \<Rightarrow> rvalue \<Rightarrow> Keyspace \<Rightarrow> Keyspace" where
  "k_store k v s =
     k_write k (if v = RList [] \<or> v = RHash [] then None
                else Some (v, case k_entry s k of None \<Rightarrow> None | Some (_, d) \<Rightarrow> d)) s"

definition k_put_list :: "string \<Rightarrow> string list \<Rightarrow> (Keyspace, unit) M" where
  "k_put_list k xs = modifyM (k_store k (RList xs))"

definition k_put_hash :: "string \<Rightarrow> (string \<times> string) list \<Rightarrow> (Keyspace, unit) M" where
  "k_put_hash k h = modifyM (k_store k (RHash h))"

definition k_link :: "(Keyspace, unit) M" where
  "k_link s =
     (let s' = s\<lparr>ks_us := ks_us s + fst (ks_link s 0), ks_link := (\<lambda>n. ks_link s (Suc n))\<rparr>
      in case snd (ks_link s 0) of None \<Rightarrow> (Inr (), s') | Some e \<Rightarrow> (Inl e, s'))"

definition k_set :: "string \<Rightarrow> string \<Rightarrow> bool \<Rightarrow> int option \<Rightarrow> (Keyspace, bool) M" where
  "k_set k v nx px s =
     (if nx \<and> k_entry s k \<noteq> None then (Inr False, s)
      else (Inr True, k_write k (Some (RString v, map_option (\<lambda>d. k_ms s + nat d) px)) s))"

definition k_pexpire :: "string \<Rightarrow> int \<Rightarrow> (Keyspace, unit) M" where
  "k_pexpire k d =
     modifyM (\<lambda>s. case k_entry s k of
                    None \<Rightarrow> s
                  | Some (v, _) \<Rightarrow> k_write k (if d \<le> 0 then None else Some (v, Some (k_ms s + nat d))) s)"

definition ref_redis :: "Keyspace Redis" where
  "ref_redis =
     \<lparr>rd_link = k_link,
      rd_time = getM (\<lambda>s. (ks_us s div 1000000, ks_us s mod 1000000)),
      rd_get = k_string,
      rd_set = k_set,
      rd_pexpire = k_pexpire,
      rd_del = (\<lambda>ks. modifyM (\<lambda>s. s\<lparr>ks_data := (\<lambda>k. if List.member ks k then None else ks_data s k)\<rparr>)),
      rd_lpop = (\<lambda>k. bindM (k_list k) (\<lambda>xs.
        case xs of [] \<Rightarrow> returnM None | y # ys \<Rightarrow> thenM (k_put_list k ys) (returnM (Some y)))),
      rd_rpush = (\<lambda>k x. bindM (k_list k) (\<lambda>xs. k_put_list k (xs @ [x]))),
      rd_lrem = (\<lambda>k x. bindM (k_list k) (\<lambda>xs. k_put_list k (filter (\<lambda>y. y \<noteq> x) xs))),
      rd_lrange = k_list,
      rd_hget = (\<lambda>k f. bindM (k_hash k) (\<lambda>h. returnM (map_of h f))),
      rd_hset = (\<lambda>k f v. bindM (k_hash k) (\<lambda>h. k_put_hash k (AList.update f v h))),
      rd_hdel = (\<lambda>k f. bindM (k_hash k) (\<lambda>h. k_put_hash k (AList.delete f h))),
      rd_hlen = (\<lambda>k. bindM (k_hash k) (\<lambda>h. returnM (length h))),
      rd_hgetall = (\<lambda>k. bindM (k_hash k) (\<lambda>h. getM (\<lambda>s. ks_order s (ks_us s) h)))\<rparr>"

section \<open>Refinement\<close>

text \<open>\<open>refines f m n\<close>: seen through \<open>f\<close>, the computation \<open>m\<close> does what \<open>n\<close> does.\<close>

definition refines :: "('s \<Rightarrow> 'k) \<Rightarrow> ('s, 'a) M \<Rightarrow> ('k, 'a) M \<Rightarrow> bool" where
  "refines f m n \<longleftrightarrow> (\<forall>s. n (f s) = (case m s of (r, s') \<Rightarrow> (r, f s')))"

named_theorems refines_intros \<open>compositional refinement rules\<close>

lemma refines_run: "refines f m n \<Longrightarrow> m s = (r, s') \<Longrightarrow> n (f s) = (r, f s')"
  unfolding refines_def by (metis case_prod_conv)

lemma refines_wp:
  assumes "refines f m n" and "wp n (\<lambda>a k. Q a k) (\<lambda>e k. E e k) (f s)"
  shows "wp m (\<lambda>a s'. Q a (f s')) (\<lambda>e s'. E e (f s')) s"
  using assms refines_run [OF assms(1), of s] by (auto simp: wp_def split: prod.splits sum.splits)

lemma refines_id: "refines (\<lambda>x. x) m m"
  by (simp add: refines_def split: prod.split)

lemma refines_returnM [refines_intros]: "refines f (returnM a) (returnM a)"
  and refines_raiseM [refines_intros]: "refines f (raiseM e) (raiseM e)"
  and refines_liftE [refines_intros]: "refines f (liftE r) (liftE r)"
  by (simp_all add: refines_def)

lemma refines_bindM [refines_intros]:
  assumes "refines f m n" and "\<And>a. refines f (g a) (h a)"
  shows "refines f (bindM m g) (bindM n h)"
  unfolding refines_def
proof
  fix s
  obtain r s' where "m s = (r, s')" by fastforce
  moreover from refines_run [OF assms(1) this] have "n (f s) = (r, f s')" .
  ultimately show "bindM n h (f s) = (case bindM m g s of (r, s') \<Rightarrow> (r, f s'))"
    using assms(2) by (cases r) (simp_all add: bindM_run refines_def)
qed

lemma refines_thenM [refines_intros]: "refines f m n \<Longrightarrow> refines f g h \<Longrightarrow> refines f (thenM m g) (thenM n h)"
  unfolding thenM_def by (rule refines_bindM)

lemma refines_catchM [refines_intros]:
  assumes "refines f m n" and "\<And>e. refines f (g e) (h e)"
  shows "refines f (catchM m g) (catchM n h)"
  unfolding refines_def
proof
  fix s
  obtain r s' where "m s = (r, s')" by fastforce
  moreover from refines_run [OF assms(1) this] have "n (f s) = (r, f s')" .
  ultimately show "catchM n h (f s) = (case catchM m g s of (r, s') \<Rightarrow> (r, f s'))"
    using assms(2) by (cases r) (simp_all add: catchM_run refines_def)
qed

lemma refines_if [refines_intros]:
  "(b \<Longrightarrow> refines f m n) \<Longrightarrow> (\<not> b \<Longrightarrow> refines f g h) \<Longrightarrow> refines f (if b then m else g) (if b then n else h)"
  by simp

lemma refines_option [refines_intros]:
  "(x = None \<Longrightarrow> refines f m n) \<Longrightarrow> (\<And>a. x = Some a \<Longrightarrow> refines f (g a) (h a)) \<Longrightarrow>
   refines f (case x of None \<Rightarrow> m | Some a \<Rightarrow> g a) (case x of None \<Rightarrow> n | Some a \<Rightarrow> h a)"
  by (cases x) simp_all

lemma refines_prod [refines_intros]:
  "(\<And>a b. x = (a, b) \<Longrightarrow> refines f (g a b) (h a b)) \<Longrightarrow>
   refines f (case x of (a, b) \<Rightarrow> g a b) (case x of (a, b) \<Rightarrow> h a b)"
  by (cases x) simp_all

section \<open>What the store relies on\<close>

locale redis_service =
  fixes R :: "'s Redis" and ks :: "'s \<Rightarrow> Keyspace"
  assumes link: "refines ks (rd_link R) (rd_link ref_redis)"
    and time: "refines ks (rd_time R) (rd_time ref_redis)"
    and get: "refines ks (rd_get R k) (rd_get ref_redis k)"
    and set: "refines ks (rd_set R k v nx px) (rd_set ref_redis k v nx px)"
    and pexpire: "refines ks (rd_pexpire R k d) (rd_pexpire ref_redis k d)"
    and del: "refines ks (rd_del R l) (rd_del ref_redis l)"
    and lpop: "refines ks (rd_lpop R k) (rd_lpop ref_redis k)"
    and rpush: "refines ks (rd_rpush R k x) (rd_rpush ref_redis k x)"
    and lrem: "refines ks (rd_lrem R k x) (rd_lrem ref_redis k x)"
    and lrange: "refines ks (rd_lrange R k) (rd_lrange ref_redis k)"
    and hget: "refines ks (rd_hget R k x) (rd_hget ref_redis k x)"
    and hset: "refines ks (rd_hset R k x v) (rd_hset ref_redis k x v)"
    and hdel: "refines ks (rd_hdel R k x) (rd_hdel ref_redis k x)"
    and hlen: "refines ks (rd_hlen R k) (rd_hlen ref_redis k)"
    and hgetall: "refines ks (rd_hgetall R k) (rd_hgetall ref_redis k)"
begin

lemmas commands_refine =
  link time get set pexpire del lpop rpush lrem lrange hget hset hdel hlen hgetall

end

interpretation reference: redis_service ref_redis "\<lambda>s. s"
  by unfold_locales (rule refines_id)+

end
