(* ===== verification/Py_Bytes.thy ===== *)
theory Py_Bytes
  imports Py_Text
begin

text \<open>
  Byte strings, as lists of numbers below 256: \<open>str.encode("utf-8")\<close>, \<open>struct.pack(">I", n)\<close> and
  \<open>bytes.hex()\<close>, which keys, routes and names of the program are made from.
\<close>

section \<open>Encodings\<close>

abbreviation bytes :: "nat list \<Rightarrow> bool" where
  "bytes xs \<equiv> list_all (\<lambda>x. x < 256) xs"

text \<open>\<open>str.encode()\<close> on code points below 256.\<close>

definition utf8_char :: "char \<Rightarrow> nat list" where
  "utf8_char c =
     (if char_code c < 128 then [char_code c] else [192 + char_code c div 64, 128 + char_code c mod 64])"

definition utf8 :: "string \<Rightarrow> nat list" where
  "utf8 s = concat (map utf8_char s)"

definition be32 :: "nat \<Rightarrow> nat list" where
  "be32 n = [n div 16777216 mod 256, n div 65536 mod 256, n div 256 mod 256, n mod 256]"

definition nibble :: "nat \<Rightarrow> char" where
  "nibble n = (if n < 10 then char_of (48 + n) else char_of (87 + n))"

definition bytes_hex :: "nat list \<Rightarrow> string" where
  "bytes_hex xs = concat (map (\<lambda>x. [nibble (x div 16), nibble (x mod 16)]) xs)"

lemma digits_eq:
  fixes a a' b b' n :: nat
  assumes "a * n + b = a' * n + b'" and "b < n" and "b' < n"
  shows "a = a' \<and> b = b'"
proof -
  have "(a * n + b) div n = a" "(a * n + b) mod n = b" "(a' * n + b') div n = a'" "(a' * n + b') mod n = b'"
    using assms(2,3) by simp_all
  with assms(1) show ?thesis by simp
qed

lemma byte_eq: "a div n = a' div n \<Longrightarrow> a mod n = a' mod n \<Longrightarrow> (a :: nat) = a'"
  by (metis div_mult_mod_eq)

lemma bytes_utf8: "bytes (utf8 s)"
proof (induction s)
  case (Cons c s)
  have "char_code c < 64 * 4" using nat_of_char_less_256 [of c] by simp
  then have "char_code c div 64 < 64" using less_mult_imp_div_less [of "char_code c" 4 64] by simp
  with Cons show ?case by (auto simp: utf8_def utf8_char_def)
qed (simp add: utf8_def)

lemma utf8_inj: "utf8 s = utf8 t \<Longrightarrow> s = t"
proof (induction s arbitrary: t)
  case Nil
  then show ?case by (cases t) (auto simp: utf8_def utf8_char_def split: if_splits)
next
  case (Cons c s)
  then obtain d t' where t: "t = d # t'" by (cases t) (auto simp: utf8_def utf8_char_def split: if_splits)
  have "char_code c = char_code d \<and> utf8 s = utf8 t'"
    using Cons.prems byte_eq [of "char_code c" 64 "char_code d"]
    by (auto simp: t utf8_def utf8_char_def split: if_splits)
  with Cons.IH [of t'] show ?case by (simp add: t of_char_eq_iff)
qed

lemma be32_value:
  assumes "n < 2 ^ 32"
  shows "n = ((be32 n ! 0 * 256 + be32 n ! 1) * 256 + be32 n ! 2) * 256 + be32 n ! 3"
proof -
  define q1 q2 q3 where "q1 = n div 256" and "q2 = q1 div 256" and "q3 = q2 div 256"
  have q: "n div 65536 = q2" "n div 16777216 = q3" by (simp_all add: q1_def q2_def q3_def flip: div_mult2_eq)
  have "q3 < 256" using assms unfolding q(2) [symmetric] by (simp add: div_less_iff_less_mult)
  then have be: "be32 n = [q3, q2 mod 256, q1 mod 256, n mod 256]" unfolding be32_def q by (simp add: q1_def)
  have parts: "n = q1 * 256 + n mod 256" "q1 = q2 * 256 + q1 mod 256" "q2 = q3 * 256 + q2 mod 256"
    unfolding q1_def q2_def q3_def by (rule div_mult_mod_eq [symmetric])+
  have "((be32 n ! 0 * 256 + be32 n ! 1) * 256 + be32 n ! 2) * 256 + be32 n ! 3 = ((q3 * 256 + q2 mod 256) * 256 + q1 mod 256) * 256 + n mod 256"
    unfolding be by simp
  also have "\<dots> = n" unfolding parts(3) [symmetric] parts(2) [symmetric] parts(1) [symmetric] ..
  finally show ?thesis ..
qed

lemma be32_inj:
  assumes "n < 2 ^ 32" and "m < 2 ^ 32" and "be32 n = be32 m"
  shows "n = m"
  by (rule trans [OF be32_value [OF assms(1), unfolded assms(3)] be32_value [OF assms(2), symmetric]])

lemma length_be32 [simp]: "length (be32 n) = 4"
  by (simp add: be32_def)

end
