(* ===== verification/Redis_Store.thy ===== *)
theory Redis_Store
  imports Redis_Service Pool_Store Py_Float Py_Bytes
begin

text \<open>
  The distributed store \<open>RedisPoolStateStore\<close> (\<open>opensandbox/redis_pool_store.py\<close>), over an arbitrary Redis
  service. A script runs on the server as one atomic computation; a client call is a script or a command between
  two messages, either of which may be lost. Keys come from the pool name by base64. The numbers of a script are
  integers: Lua computes with doubles, which are exact for instants below \<open>2 ^ 53\<close> milliseconds.
\<close>

section \<open>Keys\<close>

definition b64_char :: "nat \<Rightarrow> char" where
  "b64_char n =
     (if n < 26 then char_of (65 + n) else if n < 52 then char_of (71 + n) else if n < 62 then char_of (n - 4)
      else if n = 62 then CHR ''-'' else CHR ''_'')"

fun urlsafe_b64encode :: "nat list \<Rightarrow> string" where
  "urlsafe_b64encode [] = []"
| "urlsafe_b64encode [a] = [b64_char (a div 4), b64_char (a mod 4 * 16), CHR ''='', CHR ''='']"
| "urlsafe_b64encode [a, b] =
     [b64_char (a div 4), b64_char (a mod 4 * 16 + b div 16), b64_char (b mod 16 * 4), CHR ''='']"
| "urlsafe_b64encode (a # b # c # r) =
     b64_char (a div 4) # b64_char (a mod 4 * 16 + b div 16) # b64_char (b mod 16 * 4 + c div 64) #
     b64_char (c mod 64) # urlsafe_b64encode r"

definition py_rstrip_eq :: "string \<Rightarrow> string" where
  "py_rstrip_eq s = rev (dropWhile (\<lambda>c. c = CHR ''='') (rev s))"

definition pool_key :: "string \<Rightarrow> string \<Rightarrow> string \<Rightarrow> string result" where
  "pool_key pre p part =
     (if is_blank p then Inl (ValueError ''pool_name must not be blank'')
      else Inr (pre @ '':{'' @ py_rstrip_eq (urlsafe_b64encode (utf8 p)) @ ''}:'' @ part))"

section \<open>Scripts\<close>

text \<open>\<open>tonumber\<close> on the decimal integers that the store writes; \<open>None\<close> is \<open>nil\<close>.\<close>

definition lua_tonumber :: "string \<Rightarrow> int option" where
  "lua_tonumber s =
     (case s of
        [] \<Rightarrow> None
      | c # ds \<Rightarrow>
          if c = CHR ''-'' then if ds \<noteq> [] \<and> list_all is_digit ds then Some (- int (nat_of_digits ds)) else None
          else if list_all is_digit s then Some (int (nat_of_digits s)) else None)"

text \<open>An operation on \<open>nil\<close> is an error of the script.\<close>

definition lua_number :: "string \<Rightarrow> ('s, int) M" where
  "lua_number s = liftE (case lua_tonumber s of None \<Rightarrow> Inl (OtherException ''attempt to use a nil value'') | Some n \<Rightarrow> Inr n)"

definition lua_number_or_0 :: "string \<Rightarrow> int" where
  "lua_number_or_0 s = (case lua_tonumber s of None \<Rightarrow> 0 | Some n \<Rightarrow> n)"

definition now_ms :: "'s Redis \<Rightarrow> ('s, int) M" where
  "now_ms R = bindM (rd_time R) (\<lambda>(s, us). returnM (int s * 1000 + int us div 1000))"

text \<open>
  \<open>_TAKE_IDLE_SCRIPT\<close>. The reply is \<open>nil\<close> or the taken id, possibly empty, with the discarded ones. The loop ends
  when the list is empty; \<open>fuel\<close> bounds the iterations that are followed, and a client whose script does not return
  gets an error.
\<close>

fun take_idle_loop ::
  "'s Redis \<Rightarrow> string \<Rightarrow> string \<Rightarrow> int \<Rightarrow> int \<Rightarrow> nat \<Rightarrow> string list \<Rightarrow> ('s, (string \<times> string list) option) M" where
  "take_idle_loop R list_key expires_key now cutoff 0 discarded = raiseM (OtherException ''script does not return'')"
| "take_idle_loop R list_key expires_key now cutoff (Suc n) discarded =
     bindM (rd_lpop R list_key) (\<lambda>popped.
       case popped of
         None \<Rightarrow> returnM (if discarded = [] then None else Some ([], discarded))
       | Some x \<Rightarrow>
           bindM (rd_hget R expires_key x) (\<lambda>expires_at.
             case expires_at of
               None \<Rightarrow> take_idle_loop R list_key expires_key now cutoff n discarded
             | Some v \<Rightarrow>
                 thenM (rd_hdel R expires_key x)
                 (bindM (lua_number v) (\<lambda>ex.
                   if cutoff < ex then returnM (Some (x, discarded))
                   else take_idle_loop R list_key expires_key now cutoff n
                          (if now < ex then discarded @ [x] else discarded)))))"

definition TAKE_IDLE_SCRIPT ::
  "'s Redis \<Rightarrow> nat \<Rightarrow> string \<Rightarrow> string \<Rightarrow> string \<Rightarrow> ('s, (string \<times> string list) option) M" where
  "TAKE_IDLE_SCRIPT R fuel list_key expires_key arg =
     bindM (now_ms R) (\<lambda>now. take_idle_loop R list_key expires_key now (now + lua_number_or_0 arg) fuel [])"

definition PUT_IDLE_SCRIPT ::
  "'s Redis \<Rightarrow> string \<Rightarrow> string \<Rightarrow> string \<Rightarrow> string \<Rightarrow> string \<Rightarrow> ('s, int) M" where
  "PUT_IDLE_SCRIPT R list_key expires_key destroy_key x ttl =
     bindM (rd_get R destroy_key) (\<lambda>destroy_state.
       if destroy_state \<noteq> None then returnM (- 1)
       else bindM (now_ms R) (\<lambda>now.
         bindM (lua_number ttl) (\<lambda>t.
         bindM (rd_hget R expires_key x) (\<lambda>current.
           bindM (case current of None \<Rightarrow> returnM False | Some v \<Rightarrow> bindM (lua_number v) (\<lambda>c. returnM (now < c))) (\<lambda>fresh.
             if fresh then returnM 0
             else thenM (if current = None then rd_rpush R list_key x else returnM ())
                    (thenM (rd_hset R expires_key x (str_of_int (now + t))) (returnM 1)))))))"

definition ACQUIRE_LOCK_SCRIPT :: "'s Redis \<Rightarrow> string \<Rightarrow> string \<Rightarrow> string \<Rightarrow> int \<Rightarrow> ('s, int) M" where
  "ACQUIRE_LOCK_SCRIPT R lock_key destroy_key owner ttl =
     bindM (rd_get R destroy_key) (\<lambda>destroy_state.
       if destroy_state \<noteq> None then returnM 0
       else bindM (rd_set R lock_key owner True (Some ttl)) (\<lambda>ok.
         if ok then returnM 1
         else bindM (rd_get R lock_key) (\<lambda>holder.
           if holder = Some owner then thenM (rd_pexpire R lock_key ttl) (returnM 1) else returnM 0)))"

definition RENEW_LOCK_SCRIPT :: "'s Redis \<Rightarrow> string \<Rightarrow> string \<Rightarrow> string \<Rightarrow> int \<Rightarrow> ('s, int) M" where
  "RENEW_LOCK_SCRIPT R lock_key destroy_key owner ttl =
     bindM (rd_get R destroy_key) (\<lambda>destroy_state.
       if destroy_state \<noteq> None then returnM 0
       else bindM (rd_get R lock_key) (\<lambda>holder.
         if holder = Some owner then thenM (rd_pexpire R lock_key ttl) (returnM 1) else returnM 0))"

definition RELEASE_LOCK_SCRIPT :: "'s Redis \<Rightarrow> string \<Rightarrow> string \<Rightarrow> ('s, int) M" where
  "RELEASE_LOCK_SCRIPT R lock_key owner =
     bindM (rd_get R lock_key) (\<lambda>holder.
       if holder = Some owner then thenM (rd_del R [lock_key]) (returnM 1) else returnM 0)"

fun reap_loop ::
  "'s Redis \<Rightarrow> string \<Rightarrow> string \<Rightarrow> int \<Rightarrow> int \<Rightarrow> (string \<times> string) list \<Rightarrow> string list \<Rightarrow> ('s, string list) M" where
  "reap_loop R list_key expires_key now cutoff [] discarded = returnM discarded"
| "reap_loop R list_key expires_key now cutoff ((x, v) # items) discarded =
     bindM (lua_number v) (\<lambda>ex.
       if ex \<le> cutoff
       then thenM (rd_hdel R expires_key x)
              (thenM (rd_lrem R list_key x)
                (reap_loop R list_key expires_key now cutoff items (if now < ex then discarded @ [x] else discarded)))
       else reap_loop R list_key expires_key now cutoff items discarded)"

definition REAP_EXPIRED_SCRIPT :: "'s Redis \<Rightarrow> string \<Rightarrow> string \<Rightarrow> string \<Rightarrow> ('s, string list) M" where
  "REAP_EXPIRED_SCRIPT R list_key expires_key arg =
     bindM (now_ms R) (\<lambda>now.
     bindM (rd_hgetall R expires_key) (\<lambda>items.
       reap_loop R list_key expires_key now (now + lua_number_or_0 arg) items []))"

definition SET_VALUE_SCRIPT :: "'s Redis \<Rightarrow> string \<Rightarrow> string \<Rightarrow> string \<Rightarrow> ('s, int) M" where
  "SET_VALUE_SCRIPT R key destroy_key v =
     bindM (rd_get R destroy_key) (\<lambda>destroy_state.
       if destroy_state \<noteq> None then returnM (- 1) else thenM (rd_set R key v False None) (returnM 1))"

definition BEGIN_DESTROY_SCRIPT ::
  "'s Redis \<Rightarrow> string \<Rightarrow> string \<Rightarrow> string \<Rightarrow> string \<Rightarrow> string \<Rightarrow> ('s, int) M" where
  "BEGIN_DESTROY_SCRIPT R state_key owner_key destroying destroyed owner =
     bindM (rd_get R state_key) (\<lambda>destroy_state.
       if destroy_state = Some destroyed then returnM (- 1)
       else thenM (rd_set R state_key destroying False None)
              (thenM (rd_set R owner_key owner False None) (returnM 1)))"

section \<open>The client\<close>

record 's RedisPoolStateStore =
  rp_redis :: "'s Redis"
  rp_key_prefix :: string
  rp_default_idle_ttl :: timedelta
  rp_fuel :: nat

definition DEFAULT_KEY_PREFIX :: string where
  "DEFAULT_KEY_PREFIX = ''opensandbox:pool''"

definition RedisPoolStateStore_init :: "'s Redis \<Rightarrow> string \<Rightarrow> nat \<Rightarrow> 's RedisPoolStateStore" where
  "RedisPoolStateStore_init R pre fuel =
     \<lparr>rp_redis = R, rp_key_prefix = pre, rp_default_idle_ttl = seconds (24 * 3600), rp_fuel = fuel\<rparr>"

definition key_of :: "'s RedisPoolStateStore \<Rightarrow> string \<Rightarrow> string \<Rightarrow> ('s, string) M" where
  "key_of self p part = liftE (pool_key (rp_key_prefix self) p part)"

definition idle_list_key :: "'s RedisPoolStateStore \<Rightarrow> string \<Rightarrow> ('s, string) M" where
  "idle_list_key self p = key_of self p ''idle:list''"

definition idle_expires_key :: "'s RedisPoolStateStore \<Rightarrow> string \<Rightarrow> ('s, string) M" where
  "idle_expires_key self p = key_of self p ''idle:expires''"

definition primary_lock_key :: "'s RedisPoolStateStore \<Rightarrow> string \<Rightarrow> ('s, string) M" where
  "primary_lock_key self p = key_of self p ''lock''"

definition max_idle_key :: "'s RedisPoolStateStore \<Rightarrow> string \<Rightarrow> ('s, string) M" where
  "max_idle_key self p = key_of self p ''maxIdle''"

definition idle_ttl_key :: "'s RedisPoolStateStore \<Rightarrow> string \<Rightarrow> ('s, string) M" where
  "idle_ttl_key self p = key_of self p ''idleTtlMillis''"

definition destroy_state_key :: "'s RedisPoolStateStore \<Rightarrow> string \<Rightarrow> ('s, string) M" where
  "destroy_state_key self p = key_of self p ''destroy:state''"

definition destroy_owner_key :: "'s RedisPoolStateStore \<Rightarrow> string \<Rightarrow> ('s, string) M" where
  "destroy_owner_key self p = key_of self p ''destroy:owner''"

text \<open>A request and its reply.\<close>

definition round_trip :: "'s Redis \<Rightarrow> ('s, 'a) M \<Rightarrow> ('s, 'a) M" where
  "round_trip R m = thenM (rd_link R) (bindM m (\<lambda>r. thenM (rd_link R) (returnM r)))"

fun passes_through :: "exn \<Rightarrow> bool" where
  "passes_through (ValueError _) = True"
| "passes_through (PoolDestroyedException _) = True"
| "passes_through _ = False"

definition rp_execute :: "string \<Rightarrow> string \<Rightarrow> ('s, 'a) M \<Rightarrow> ('s, 'a) M" where
  "rp_execute operation p block =
     catchM block (\<lambda>e.
       if passes_through e then raiseM e
       else if is_Exception e
       then raiseM (PoolStateStoreUnavailableException
              (''Redis pool state store operation failed: operation='' @ operation @ '' pool_name='' @ p) (Some e))
       else raiseM e)"

definition millis :: "timedelta \<Rightarrow> int" where
  "millis d = py_int (fl (total_seconds d * 1000))"

definition decode_take_idle_result :: "(string \<times> string list) option \<Rightarrow> TakeIdleResult" where
  "decode_take_idle_result result =
     (case result of
        None \<Rightarrow> \<lparr>taken_id = None, discarded_alive_sandbox_ids = []\<rparr>
      | Some (taken, discarded) \<Rightarrow>
          \<lparr>taken_id = (if taken = [] then None else Some taken), discarded_alive_sandbox_ids = discarded\<rparr>)"

definition rp_eval_take_idle :: "'s RedisPoolStateStore \<Rightarrow> string \<Rightarrow> string \<Rightarrow> ('s, TakeIdleResult) M" where
  "rp_eval_take_idle self p min_ms =
     bindM (rp_execute ''try_take_idle'' p
       (bindM (idle_list_key self p) (\<lambda>l. bindM (idle_expires_key self p) (\<lambda>h.
         round_trip (rp_redis self) (TAKE_IDLE_SCRIPT (rp_redis self) (rp_fuel self) l h min_ms)))))
     (\<lambda>r. returnM (decode_take_idle_result r))"

definition rp_try_take_idle :: "'s RedisPoolStateStore \<Rightarrow> string \<Rightarrow> ('s, string option) M" where
  "rp_try_take_idle self p = bindM (rp_eval_take_idle self p ''0'') (\<lambda>r. returnM (taken_id r))"

definition rp_try_take_idle_min_ttl :: "'s RedisPoolStateStore \<Rightarrow> string \<Rightarrow> timedelta \<Rightarrow> ('s, TakeIdleResult) M" where
  "rp_try_take_idle_min_ttl self p min_ttl =
     (if min_ttl \<le> 0
      then bindM (rp_try_take_idle self p) (\<lambda>r. returnM \<lparr>taken_id = r, discarded_alive_sandbox_ids = []\<rparr>)
      else rp_eval_take_idle self p (str_of_int (max 0 (millis min_ttl))))"

definition rp_get_destroy_state :: "'s RedisPoolStateStore \<Rightarrow> string \<Rightarrow> ('s, PoolDestroyState) M" where
  "rp_get_destroy_state self p =
     bindM (rp_execute ''get_destroy_state'' p
       (bindM (destroy_state_key self p) (\<lambda>k. round_trip (rp_redis self) (rd_get (rp_redis self) k))))
     (\<lambda>v. returnM (case v of
             None \<Rightarrow> ACTIVE
           | Some d \<Rightarrow> if d = PoolDestroyState_value DESTROYING then DESTROYING
                       else if d = PoolDestroyState_value DESTROYED then DESTROYED else ACTIVE))"

text \<open>\<open>_eval_fenced_write\<close>, given the script with its keys and arguments.\<close>

definition rp_eval_fenced_write :: "'s RedisPoolStateStore \<Rightarrow> string \<Rightarrow> ('s, int) M \<Rightarrow> ('s, int) M" where
  "rp_eval_fenced_write self p script =
     bindM (round_trip (rp_redis self) script) (\<lambda>result.
       if result = - 1
       then bindM (rp_get_destroy_state self p) (\<lambda>d. raiseM (PoolDestroyedException (namespace_is d p)))
       else returnM result)"

definition TIMEDELTA_MAX_MS :: int where
  "TIMEDELTA_MAX_MS = 1000000000 * 86400000"

definition rp_resolve_idle_ttl :: "'s RedisPoolStateStore \<Rightarrow> string \<Rightarrow> ('s, timedelta) M" where
  "rp_resolve_idle_ttl self p =
     bindM (rp_execute ''resolve_idle_ttl'' p
       (bindM (idle_ttl_key self p) (\<lambda>k. round_trip (rp_redis self) (rd_get (rp_redis self) k))))
     (\<lambda>v. case v of
            None \<Rightarrow> returnM (rp_default_idle_ttl self)
          | Some t \<Rightarrow>
              (case py_int_of_str t of
                 None \<Rightarrow> returnM (rp_default_idle_ttl self)
               | Some n \<Rightarrow>
                   if TIMEDELTA_MAX_MS \<le> max 1 n then raiseM (OverflowError ''days; must have magnitude <= 999999999'')
                   else returnM (milliseconds (max 1 n))))"

definition rp_put_idle :: "'s RedisPoolStateStore \<Rightarrow> string \<Rightarrow> string \<Rightarrow> ('s, unit) M" where
  "rp_put_idle self p x =
     (if is_blank x then raiseM (ValueError ''sandbox_id must not be blank'')
      else bindM (rp_resolve_idle_ttl self p) (\<lambda>ttl.
        thenM (rp_execute ''put_idle'' p
          (bindM (idle_list_key self p) (\<lambda>l. bindM (idle_expires_key self p) (\<lambda>h. bindM (destroy_state_key self p) (\<lambda>d.
            rp_eval_fenced_write self p (PUT_IDLE_SCRIPT (rp_redis self) l h d x (str_of_int (max 1 (millis ttl)))))))))
        (returnM ())))"

definition rp_remove_idle :: "'s RedisPoolStateStore \<Rightarrow> string \<Rightarrow> string \<Rightarrow> ('s, unit) M" where
  "rp_remove_idle self p x =
     rp_execute ''remove_idle'' p
       (bindM (idle_expires_key self p) (\<lambda>h.
        thenM (round_trip (rp_redis self) (rd_hdel (rp_redis self) h x))
         (bindM (idle_list_key self p) (\<lambda>l. round_trip (rp_redis self) (rd_lrem (rp_redis self) l x)))))"

definition validate_owner_and_ttl :: "string \<Rightarrow> timedelta \<Rightarrow> ('s, unit) M" where
  "validate_owner_and_ttl owner ttl =
     (if is_blank owner then raiseM (ValueError ''owner_id must not be blank'')
      else if ttl \<le> 0 then raiseM (ValueError ''ttl must be positive'') else returnM ())"

definition rp_try_acquire_primary_lock ::
  "'s RedisPoolStateStore \<Rightarrow> string \<Rightarrow> string \<Rightarrow> timedelta \<Rightarrow> ('s, bool) M" where
  "rp_try_acquire_primary_lock self p owner ttl =
     thenM (validate_owner_and_ttl owner ttl)
     (bindM (rp_execute ''try_acquire_primary_lock'' p
       (bindM (primary_lock_key self p) (\<lambda>l. bindM (destroy_state_key self p) (\<lambda>d.
         round_trip (rp_redis self) (ACQUIRE_LOCK_SCRIPT (rp_redis self) l d owner (max 1 (millis ttl)))))))
     (\<lambda>result. returnM (result = 1)))"

definition rp_renew_primary_lock ::
  "'s RedisPoolStateStore \<Rightarrow> string \<Rightarrow> string \<Rightarrow> timedelta \<Rightarrow> ('s, bool) M" where
  "rp_renew_primary_lock self p owner ttl =
     thenM (validate_owner_and_ttl owner ttl)
     (bindM (rp_execute ''renew_primary_lock'' p
       (bindM (primary_lock_key self p) (\<lambda>l. bindM (destroy_state_key self p) (\<lambda>d.
         round_trip (rp_redis self) (RENEW_LOCK_SCRIPT (rp_redis self) l d owner (max 1 (millis ttl)))))))
     (\<lambda>result. returnM (result = 1)))"

definition rp_release_primary_lock :: "'s RedisPoolStateStore \<Rightarrow> string \<Rightarrow> string \<Rightarrow> ('s, unit) M" where
  "rp_release_primary_lock self p owner =
     thenM (rp_execute ''release_primary_lock'' p
       (bindM (primary_lock_key self p) (\<lambda>l. round_trip (rp_redis self) (RELEASE_LOCK_SCRIPT (rp_redis self) l owner))))
     (returnM ())"

definition rp_reap_idle :: "'s RedisPoolStateStore \<Rightarrow> string \<Rightarrow> string \<Rightarrow> ('s, string list) M" where
  "rp_reap_idle self p min_ms =
     rp_execute ''reap_expired_idle'' p
       (bindM (idle_list_key self p) (\<lambda>l. bindM (idle_expires_key self p) (\<lambda>h.
         round_trip (rp_redis self) (REAP_EXPIRED_SCRIPT (rp_redis self) l h min_ms))))"

definition rp_reap_expired_idle :: "'s RedisPoolStateStore \<Rightarrow> string \<Rightarrow> datetime \<Rightarrow> ('s, unit) M" where
  "rp_reap_expired_idle self p now = thenM (rp_reap_idle self p ''0'') (returnM ())"

definition rp_reap_expired_idle_min_ttl ::
  "'s RedisPoolStateStore \<Rightarrow> string \<Rightarrow> datetime \<Rightarrow> timedelta \<Rightarrow> ('s, string list) M" where
  "rp_reap_expired_idle_min_ttl self p now min_ttl =
     (if min_ttl \<le> 0 then thenM (rp_reap_expired_idle self p now) (returnM [])
      else rp_reap_idle self p (str_of_int (max 0 (millis min_ttl))))"

definition rp_snapshot_counters :: "'s RedisPoolStateStore \<Rightarrow> string \<Rightarrow> ('s, StoreCounters) M" where
  "rp_snapshot_counters self p =
     rp_execute ''snapshot_counters'' p
       (bindM (idle_expires_key self p) (\<lambda>h.
        bindM (round_trip (rp_redis self) (rd_hlen (rp_redis self) h)) (\<lambda>n. returnM \<lparr>idle_count = n\<rparr>)))"

text \<open>\<open>datetime.fromtimestamp(int(expires_at) / 1000, timezone.utc)\<close>\<close>

definition fromtimestamp_ms :: "string \<Rightarrow> datetime result" where
  "fromtimestamp_ms v =
     (case py_int_of_str v of
        None \<Rightarrow> Inl (ValueError ''invalid literal for int() with base 10'')
      | Some n \<Rightarrow>
          (let t = timedelta_seconds (fl (of_int n / 1000))
           in if - 62135596800000000 \<le> t \<and> t \<le> 253402300799999999 then Inr t
              else Inl (ValueError ''year is out of range'')))"

fun idle_entries_of :: "(string \<times> string) list \<Rightarrow> string list \<Rightarrow> IdleEntry list result" where
  "idle_entries_of expires_by_id [] = Inr []"
| "idle_entries_of expires_by_id (x # ids) =
     (case map_of expires_by_id x of
        None \<Rightarrow> idle_entries_of expires_by_id ids
      | Some v \<Rightarrow>
          bindE (fromtimestamp_ms v) (\<lambda>t.
          bindE (idle_entries_of expires_by_id ids) (\<lambda>es. Inr (\<lparr>ent_sandbox_id = x, expires_at = t\<rparr> # es))))"

definition rp_snapshot_idle_entries :: "'s RedisPoolStateStore \<Rightarrow> string \<Rightarrow> ('s, IdleEntry list) M" where
  "rp_snapshot_idle_entries self p =
     rp_execute ''snapshot_idle_entries'' p
       (bindM (idle_list_key self p) (\<lambda>l.
        bindM (round_trip (rp_redis self) (rd_lrange (rp_redis self) l)) (\<lambda>ids.
        bindM (idle_expires_key self p) (\<lambda>h.
        bindM (round_trip (rp_redis self) (rd_hgetall (rp_redis self) h)) (\<lambda>expires_by_id.
          liftE (idle_entries_of expires_by_id ids))))))"

definition rp_get_max_idle :: "'s RedisPoolStateStore \<Rightarrow> string \<Rightarrow> ('s, int option) M" where
  "rp_get_max_idle self p =
     bindM (rp_execute ''get_max_idle'' p
       (bindM (max_idle_key self p) (\<lambda>k. round_trip (rp_redis self) (rd_get (rp_redis self) k))))
     (\<lambda>v. returnM (Option.bind v py_int_of_str))"

definition rp_set_max_idle :: "'s RedisPoolStateStore \<Rightarrow> string \<Rightarrow> int \<Rightarrow> ('s, unit) M" where
  "rp_set_max_idle self p n =
     (if n < 0 then raiseM (ValueError ''max_idle must be >= 0'')
      else thenM (rp_execute ''set_max_idle'' p
             (bindM (max_idle_key self p) (\<lambda>k. bindM (destroy_state_key self p) (\<lambda>d.
               rp_eval_fenced_write self p (SET_VALUE_SCRIPT (rp_redis self) k d (str_of_int n))))))
           (returnM ()))"

definition rp_set_idle_entry_ttl :: "'s RedisPoolStateStore \<Rightarrow> string \<Rightarrow> timedelta \<Rightarrow> ('s, unit) M" where
  "rp_set_idle_entry_ttl self p ttl =
     (if ttl \<le> 0 then raiseM (ValueError ''idle_ttl must be positive'')
      else thenM (rp_execute ''set_idle_entry_ttl'' p
             (bindM (idle_ttl_key self p) (\<lambda>k. bindM (destroy_state_key self p) (\<lambda>d.
               rp_eval_fenced_write self p (SET_VALUE_SCRIPT (rp_redis self) k d (str_of_int (max 1 (millis ttl))))))))
           (returnM ()))"

definition rp_begin_destroy :: "'s RedisPoolStateStore \<Rightarrow> string \<Rightarrow> string \<Rightarrow> ('s, unit) M" where
  "rp_begin_destroy self p owner =
     (if is_blank owner then raiseM (ValueError ''owner_id must not be blank'')
      else rp_execute ''begin_destroy'' p
        (bindM (destroy_state_key self p) (\<lambda>d. bindM (destroy_owner_key self p) (\<lambda>w.
         bindM (round_trip (rp_redis self) (BEGIN_DESTROY_SCRIPT (rp_redis self) d w
                  (PoolDestroyState_value DESTROYING) (PoolDestroyState_value DESTROYED) owner)) (\<lambda>result.
           if result = - 1
           then raiseM (PoolDestroyedException (''Pool namespace is already DESTROYED: pool_name='' @ p))
           else returnM ())))))"

definition rp_clear_pool_state :: "'s RedisPoolStateStore \<Rightarrow> string \<Rightarrow> ('s, unit) M" where
  "rp_clear_pool_state self p =
     rp_execute ''clear_pool_state'' p
       (bindM (idle_list_key self p) (\<lambda>l. bindM (idle_expires_key self p) (\<lambda>h. bindM (primary_lock_key self p) (\<lambda>k.
        bindM (max_idle_key self p) (\<lambda>m. bindM (idle_ttl_key self p) (\<lambda>t.
          round_trip (rp_redis self) (rd_del (rp_redis self) [l, h, k, m, t])))))))"

definition rp_mark_destroyed :: "'s RedisPoolStateStore \<Rightarrow> string \<Rightarrow> string \<Rightarrow> timedelta option \<Rightarrow> ('s, unit) M" where
  "rp_mark_destroyed self p owner tombstone =
     (if is_blank owner then raiseM (ValueError ''owner_id must not be blank'')
      else if (case tombstone of None \<Rightarrow> False | Some t \<Rightarrow> t \<le> 0) then raiseM (ValueError ''tombstone_ttl must be positive'')
      else rp_execute ''mark_destroyed'' p
        (let px = map_option (\<lambda>t. max 1 (millis t)) tombstone
         in bindM (destroy_state_key self p) (\<lambda>d.
            thenM (round_trip (rp_redis self) (rd_set (rp_redis self) d (PoolDestroyState_value DESTROYED) False px))
             (bindM (destroy_owner_key self p) (\<lambda>w.
              thenM (round_trip (rp_redis self) (rd_set (rp_redis self) w owner False px)) (returnM ()))))))"

definition redis_store :: "'s RedisPoolStateStore \<Rightarrow> 's PoolStateStore" where
  "redis_store self =
     \<lparr>st_try_take_idle = rp_try_take_idle self,
      st_try_take_idle_min_ttl = Some (rp_try_take_idle_min_ttl self),
      st_put_idle = rp_put_idle self,
      st_remove_idle = rp_remove_idle self,
      st_try_acquire_primary_lock = rp_try_acquire_primary_lock self,
      st_renew_primary_lock = rp_renew_primary_lock self,
      st_release_primary_lock = rp_release_primary_lock self,
      st_reap_expired_idle = rp_reap_expired_idle self,
      st_reap_expired_idle_min_ttl =
        Some (\<lambda>p now t. bindM (rp_reap_expired_idle_min_ttl self p now t) (\<lambda>xs. returnM (Some xs))),
      st_snapshot_counters = rp_snapshot_counters self,
      st_snapshot_idle_entries = rp_snapshot_idle_entries self,
      st_get_max_idle = rp_get_max_idle self,
      st_set_max_idle = rp_set_max_idle self,
      st_set_idle_entry_ttl = rp_set_idle_entry_ttl self,
      st_get_destroy_state = rp_get_destroy_state self,
      st_begin_destroy = rp_begin_destroy self,
      st_clear_pool_state = rp_clear_pool_state self,
      st_mark_destroyed = rp_mark_destroyed self\<rparr>"

end
