(* ===== verification/Redis_Laws.thy ===== *)
theory Redis_Laws
  imports Redis_Store
begin

text \<open>
  The theorems about the Redis store. They are proved over the documented commands (\<open>ref_redis\<close>) and hold for every
  service that refines them: namespaces do not share keys, the lock excludes, the destroy fence holds against any
  interleaving of requests, takes are those of the abstract FIFO, and errors are of the documented classes.
\<close>

section \<open>Keys are disjoint\<close>

definition b64_code :: "nat \<Rightarrow> nat" where
  "b64_code n =
     (if n < 26 then 65 + n else if n < 52 then 71 + n else if n < 62 then n - 4 else if n = 62 then 45 else 95)"

lemma char_code_b64: "n < 64 \<Longrightarrow> char_code (b64_char n) = b64_code n"
  by (simp add: b64_char_def b64_code_def)

lemma b64_code_inj:
  assumes "b64_code m = b64_code n" and "m < 64" and "n < 64"
  shows "m = n"
proof -
  consider "n < 26" | "26 \<le> n" "n < 52" | "52 \<le> n" "n < 62" | "n = 62" | "n = 63" using assms(3) by linarith
  then show ?thesis using assms(1,2) by cases (simp_all add: b64_code_def split: if_splits)
qed

lemma b64_char_inj: "m < 64 \<Longrightarrow> n < 64 \<Longrightarrow> b64_char m = b64_char n \<longleftrightarrow> m = n"
  by (metis b64_code_inj char_code_b64)

lemma b64_char_not:
  assumes "n < 64"
  shows "b64_char n \<noteq> CHR ''=''" and "b64_char n \<noteq> CHR ''}''"
proof -
  have "b64_code n \<noteq> 61" "b64_code n \<noteq> 125" using assms by (auto simp: b64_code_def)
  then have "char_code (b64_char n) \<noteq> char_code CHR ''=''" "char_code (b64_char n) \<noteq> char_code CHR ''}''"
    using char_code_b64 [OF assms] by simp_all
  then show "b64_char n \<noteq> CHR ''=''" and "b64_char n \<noteq> CHR ''}''" by metis+
qed

text \<open>The encoding without its padding.\<close>

fun b64 :: "nat list \<Rightarrow> nat list" where
  "b64 [] = []"
| "b64 [a] = [a div 4, a mod 4 * 16]"
| "b64 [a, b] = [a div 4, a mod 4 * 16 + b div 16, b mod 16 * 4]"
| "b64 (a # b # c # r) = a div 4 # (a mod 4 * 16 + b div 16) # (b mod 16 * 4 + c div 64) # c mod 64 # b64 r"

lemma sextets:
  fixes a b :: nat
  shows "a < 256 \<Longrightarrow> a div 4 < 64" "a mod 4 * 16 < 64" "b < 256 \<Longrightarrow> a mod 4 * 16 + b div 16 < 64"
    "a mod 16 * 4 < 64" "b < 256 \<Longrightarrow> a mod 16 * 4 + b div 64 < 64"
proof -
  have m: "a mod 4 < 4" "a mod 16 < 16" by simp_all
  have d: "b div 16 < 16" "b div 64 < 4" if "b < 256" using that by (simp_all add: less_mult_imp_div_less)
  show "a < 256 \<Longrightarrow> a div 4 < 64" by (simp add: less_mult_imp_div_less)
  show "a mod 4 * 16 < 64" "a mod 16 * 4 < 64" using m by linarith+
  show "b < 256 \<Longrightarrow> a mod 4 * 16 + b div 16 < 64" "b < 256 \<Longrightarrow> a mod 16 * 4 + b div 64 < 64" using m d by linarith+
qed

lemma b64_lt: "bytes xs \<Longrightarrow> list_all (\<lambda>x. x < 64) (b64 xs)"
proof (induction xs rule: b64.induct)
  case (4 a b c r)
  then show ?case by (simp only: b64.simps list.pred_inject sextets simp_thms mod_less_divisor zero_less_numeral)
qed (simp_all only: b64.simps list.pred_inject sextets simp_thms)

lemma py_rstrip_eq_Cons [simp]:
  "py_rstrip_eq (x # s) = (if py_rstrip_eq s = [] \<and> x = CHR ''='' then [] else x # py_rstrip_eq s)"
  by (auto simp: py_rstrip_eq_def dropWhile_append)

lemma py_rstrip_eq_Nil [simp]: "py_rstrip_eq [] = []"
  by (simp add: py_rstrip_eq_def)

lemma rstrip_encode: "bytes xs \<Longrightarrow> py_rstrip_eq (urlsafe_b64encode xs) = map b64_char (b64 xs)"
  by (induction xs rule: b64.induct) (simp_all add: b64_char_not sextets)

lemma sextet_eq:
  fixes a b a' b' :: nat
  assumes "b < 256" and "b' < 256"
  shows "a mod 4 * 16 + b div 16 = a' mod 4 * 16 + b' div 16 \<Longrightarrow> a mod 4 = a' mod 4 \<and> b div 16 = b' div 16"
    and "a mod 16 * 4 + b div 64 = a' mod 16 * 4 + b' div 64 \<Longrightarrow> a mod 16 = a' mod 16 \<and> b div 64 = b' div 64"
proof -
  have lt: "b div 16 < 16" "b' div 16 < 16" "b div 64 < 4" "b' div 64 < 4"
    using assms by (simp_all add: less_mult_imp_div_less)
  show "a mod 4 * 16 + b div 16 = a' mod 4 * 16 + b' div 16 \<Longrightarrow> a mod 4 = a' mod 4 \<and> b div 16 = b' div 16"
    by (rule digits_eq [OF _ lt(1,2)])
  show "a mod 16 * 4 + b div 64 = a' mod 16 * 4 + b' div 64 \<Longrightarrow> a mod 16 = a' mod 16 \<and> b div 64 = b' div 64"
    by (rule digits_eq [OF _ lt(3,4)])
qed

lemma b64_inj: "bytes xs \<Longrightarrow> bytes ys \<Longrightarrow> b64 xs = b64 ys \<Longrightarrow> xs = ys"
proof (induction xs arbitrary: ys rule: b64.induct)
  case 1
  then show ?case by (cases ys rule: b64.cases) (simp_all only: b64.simps list.distinct)
next
  case (2 a)
  show ?case
  proof (cases ys rule: b64.cases)
    case (2 a')
    with "2.prems"(3) have e: "a div 4 = a' div 4" "a mod 4 * 16 = a' mod 4 * 16"
      by (simp_all only: b64.simps list.inject)
    then have "a = a'" by (intro byte_eq [of a 4 a']) simp_all
    then show ?thesis by (simp only: 2)
  qed (use "2.prems"(3) in \<open>simp_all only: b64.simps list.inject list.distinct simp_thms\<close>)
next
  case (3 a b)
  show ?case
  proof (cases ys rule: b64.cases)
    case (3 a' b')
    with "3.prems"(3) have e: "a div 4 = a' div 4" "a mod 4 * 16 + b div 16 = a' mod 4 * 16 + b' div 16"
      "b mod 16 * 4 = b' mod 16 * 4" by (simp_all only: b64.simps list.inject)
    have lt: "b < 256" "b' < 256" using "3.prems"(1,2) by (simp_all add: 3)
    have "a mod 4 = a' mod 4" "b div 16 = b' div 16" using sextet_eq(1) [OF lt e(2)] by blast+
    moreover have "b mod 16 = b' mod 16" using e(3) by (simp only: mult_cancel2) simp
    ultimately have "a = a'" "b = b'" using e byte_eq [of a 4 a'] byte_eq [of b 16 b'] by blast+
    then show ?thesis by (simp only: 3)
  qed (use "3.prems"(3) in \<open>simp_all only: b64.simps list.inject list.distinct simp_thms\<close>)
next
  case (4 a b c r)
  show ?case
  proof (cases ys rule: b64.cases)
    case (4 a' b' c' r')
    with "4.prems"(3) have e: "a div 4 = a' div 4" "a mod 4 * 16 + b div 16 = a' mod 4 * 16 + b' div 16"
      "b mod 16 * 4 + c div 64 = b' mod 16 * 4 + c' div 64" "c mod 64 = c' mod 64" "b64 r = b64 r'"
      by (simp_all only: b64.simps list.inject)
    have lt: "b < 256" "b' < 256" "c < 256" "c' < 256" and r: "bytes r" "bytes r'" using "4.prems"(1,2) by (simp_all add: 4)
    have "a mod 4 = a' mod 4" "b div 16 = b' div 16" "b mod 16 = b' mod 16" "c div 64 = c' div 64"
      using sextet_eq(1) [OF lt(1,2) e(2)] sextet_eq(2) [OF lt(3,4) e(3)] by blast+
    then have "a = a'" "b = b'" "c = c'" using e byte_eq [of a 4 a'] byte_eq [of b 16 b'] byte_eq [of c 64 c'] by blast+
    moreover have "r = r'" by (rule "4.IH" [OF r e(5)])
    ultimately show ?thesis by (simp only: 4)
  qed (use "4.prems"(3) in \<open>simp_all only: b64.simps list.inject list.distinct simp_thms\<close>)
qed

definition pool_tag :: "string \<Rightarrow> string" where
  "pool_tag p = py_rstrip_eq (urlsafe_b64encode (utf8 p))"

definition pkey :: "string \<Rightarrow> string \<Rightarrow> string \<Rightarrow> string" where
  "pkey pre p part = pre @ '':{'' @ pool_tag p @ ''}:'' @ part"

lemma pool_key_eq: "pool_key pre p part = (if is_blank p then Inl (ValueError ''pool_name must not be blank'') else Inr (pkey pre p part))"
  by (simp add: pool_key_def pkey_def pool_tag_def)

lemma pool_tag_inj: "pool_tag p = pool_tag q \<Longrightarrow> p = q"
proof -
  assume "pool_tag p = pool_tag q"
  then have "map b64_char (b64 (utf8 p)) = map b64_char (b64 (utf8 q))"
    by (simp add: pool_tag_def rstrip_encode bytes_utf8)
  moreover have "inj_on b64_char (set (b64 (utf8 p)) \<union> set (b64 (utf8 q)))"
    using b64_lt [OF bytes_utf8] by (auto intro!: inj_onI simp: list_all_iff b64_char_inj)
  ultimately have "b64 (utf8 p) = b64 (utf8 q)" by (simp add: inj_on_map_eq_map)
  then show "p = q" using b64_inj bytes_utf8 utf8_inj by blast
qed

lemma pool_tag_no_brace: "CHR ''}'' \<notin> set (pool_tag p)"
proof
  assume "CHR ''}'' \<in> set (pool_tag p)"
  then obtain n where "n \<in> set (b64 (utf8 p))" "b64_char n = CHR ''}''"
    by (auto simp: pool_tag_def rstrip_encode bytes_utf8)
  with b64_lt [OF bytes_utf8, of p] b64_char_not(2) [of n] show False by (simp add: list_all_iff)
qed

lemma split_at_brace:
  assumes "a @ CHR ''}'' # b = a' @ CHR ''}'' # b'" and "CHR ''}'' \<notin> set a" and "CHR ''}'' \<notin> set a'"
  shows "a = a' \<and> b = b'"
proof -
  have "takeWhile (\<lambda>c. c \<noteq> CHR ''}'') (a @ CHR ''}'' # b) = a" using assms(2) by (auto simp: takeWhile_tail)
  moreover have "takeWhile (\<lambda>c. c \<noteq> CHR ''}'') (a' @ CHR ''}'' # b') = a'" using assms(3) by (auto simp: takeWhile_tail)
  ultimately have "a = a'" using assms(1) by simp
  with assms(1) show ?thesis by simp
qed

lemma pkey_eq_iff [simp]: "pkey pre p a = pkey pre q b \<longleftrightarrow> p = q \<and> a = b"
proof
  assume "pkey pre p a = pkey pre q b"
  then have "pool_tag p @ CHR ''}'' # CHR '':'' # a = pool_tag q @ CHR ''}'' # CHR '':'' # b" by (simp add: pkey_def)
  from split_at_brace [OF this pool_tag_no_brace pool_tag_no_brace] show "p = q \<and> a = b" by (auto dest: pool_tag_inj)
qed simp

text \<open>
  Claim C40. Two keys of the store are equal only when they are the same part of the same pool: pool namespaces
  with different names share no key, whatever characters the names have, and the parts of one namespace are distinct.
\<close>

theorem redis_keys_are_disjoint:
  assumes "pool_key pre p a = Inr k" and "pool_key pre q b = Inr k"
  shows "p = q \<and> a = b"
  using assms by (auto simp: pool_key_eq split: if_splits)

theorem redis_keys_are_disjoint_witness:
  "pool_key ''opensandbox:pool'' ''a}b'' ''lock'' = Inr ''opensandbox:pool:{YX1i}:lock'' \<and>
   (''a}b'' :: string) = ''a}b'' \<and> (''lock'' :: string) = ''lock''"
proof -
  have k: "pool_key ''opensandbox:pool'' ''a}b'' ''lock'' = Inr ''opensandbox:pool:{YX1i}:lock''" by code_simp
  from redis_keys_are_disjoint [OF k k] k show ?thesis by blast
qed

section \<open>Requests\<close>

text \<open>
  What reaches the server: the scripts and commands that the operations of the store send, each executed atomically,
  and the time that passes between them. The requests of any number of clients interleave in one sequence.
\<close>

datatype request =
    ReqTake string string
  | ReqPut string string string
  | ReqHdel string string
  | ReqLrem string string
  | ReqAcquire string string int
  | ReqRenew string string int
  | ReqRelease string string
  | ReqReap string string
  | ReqCount string
  | ReqListIds string
  | ReqListExpiries string
  | ReqGet string string
  | ReqSetMax string string
  | ReqSetTtl string string
  | ReqBegin string string
  | ReqClear string
  | ReqMarkState string "int option"
  | ReqMarkOwner string string "int option"
  | Delay

definition unitM :: "('s, 'a) M \<Rightarrow> ('s, unit) M" where
  "unitM m = thenM m (returnM ())"

fun serve :: "'s RedisPoolStateStore \<Rightarrow> request \<Rightarrow> ('s, unit) M" where
  "serve self (ReqTake p a) =
     bindM (idle_list_key self p) (\<lambda>l. bindM (idle_expires_key self p) (\<lambda>h.
       unitM (TAKE_IDLE_SCRIPT (rp_redis self) (rp_fuel self) l h a)))"
| "serve self (ReqPut p x a) =
     bindM (idle_list_key self p) (\<lambda>l. bindM (idle_expires_key self p) (\<lambda>h. bindM (destroy_state_key self p) (\<lambda>d.
       unitM (PUT_IDLE_SCRIPT (rp_redis self) l h d x a))))"
| "serve self (ReqHdel p x) = bindM (idle_expires_key self p) (\<lambda>h. unitM (rd_hdel (rp_redis self) h x))"
| "serve self (ReqLrem p x) = bindM (idle_list_key self p) (\<lambda>l. unitM (rd_lrem (rp_redis self) l x))"
| "serve self (ReqAcquire p w ms) =
     bindM (primary_lock_key self p) (\<lambda>l. bindM (destroy_state_key self p) (\<lambda>d.
       unitM (ACQUIRE_LOCK_SCRIPT (rp_redis self) l d w ms)))"
| "serve self (ReqRenew p w ms) =
     bindM (primary_lock_key self p) (\<lambda>l. bindM (destroy_state_key self p) (\<lambda>d.
       unitM (RENEW_LOCK_SCRIPT (rp_redis self) l d w ms)))"
| "serve self (ReqRelease p w) = bindM (primary_lock_key self p) (\<lambda>l. unitM (RELEASE_LOCK_SCRIPT (rp_redis self) l w))"
| "serve self (ReqReap p a) =
     bindM (idle_list_key self p) (\<lambda>l. bindM (idle_expires_key self p) (\<lambda>h.
       unitM (REAP_EXPIRED_SCRIPT (rp_redis self) l h a)))"
| "serve self (ReqCount p) = bindM (idle_expires_key self p) (\<lambda>h. unitM (rd_hlen (rp_redis self) h))"
| "serve self (ReqListIds p) = bindM (idle_list_key self p) (\<lambda>l. unitM (rd_lrange (rp_redis self) l))"
| "serve self (ReqListExpiries p) = bindM (idle_expires_key self p) (\<lambda>h. unitM (rd_hgetall (rp_redis self) h))"
| "serve self (ReqGet p part) = bindM (key_of self p part) (\<lambda>k. unitM (rd_get (rp_redis self) k))"
| "serve self (ReqSetMax p v) =
     bindM (max_idle_key self p) (\<lambda>k. bindM (destroy_state_key self p) (\<lambda>d. unitM (SET_VALUE_SCRIPT (rp_redis self) k d v)))"
| "serve self (ReqSetTtl p v) =
     bindM (idle_ttl_key self p) (\<lambda>k. bindM (destroy_state_key self p) (\<lambda>d. unitM (SET_VALUE_SCRIPT (rp_redis self) k d v)))"
| "serve self (ReqBegin p w) =
     bindM (destroy_state_key self p) (\<lambda>d. bindM (destroy_owner_key self p) (\<lambda>k.
       unitM (BEGIN_DESTROY_SCRIPT (rp_redis self) d k (PoolDestroyState_value DESTROYING) (PoolDestroyState_value DESTROYED) w)))"
| "serve self (ReqClear p) =
     bindM (idle_list_key self p) (\<lambda>l. bindM (idle_expires_key self p) (\<lambda>h. bindM (primary_lock_key self p) (\<lambda>k.
     bindM (max_idle_key self p) (\<lambda>m. bindM (idle_ttl_key self p) (\<lambda>t. unitM (rd_del (rp_redis self) [l, h, k, m, t]))))))"
| "serve self (ReqMarkState p px) =
     bindM (destroy_state_key self p) (\<lambda>d. unitM (rd_set (rp_redis self) d (PoolDestroyState_value DESTROYED) False px))"
| "serve self (ReqMarkOwner p w px) =
     bindM (destroy_owner_key self p) (\<lambda>k. unitM (rd_set (rp_redis self) k w False px))"
| "serve self Delay = rd_link (rp_redis self)"

definition run_requests :: "'s RedisPoolStateStore \<Rightarrow> request list \<Rightarrow> 's \<Rightarrow> 's" where
  "run_requests self = fold (\<lambda>q s. snd (serve self q s))"

text \<open>\<open>issues self m\<close>: whatever happens, \<open>m\<close> acts on the state only through requests.\<close>

definition issues :: "'s RedisPoolStateStore \<Rightarrow> ('s, 'a) M \<Rightarrow> bool" where
  "issues self m \<longleftrightarrow> (\<forall>s. \<exists>rs. snd (m s) = run_requests self rs s)"

named_theorems issues_intros \<open>compositional rules\<close>

lemma run_requests_append: "run_requests self (rs @ rs') s = run_requests self rs' (run_requests self rs s)"
  by (simp add: run_requests_def)

lemma issues_pure [issues_intros]:
  "issues self (returnM a)" "issues self (raiseM e)" "issues self (liftE r)" "issues self (key_of self p part)"
  by (auto simp: issues_def run_requests_def key_of_def intro: exI [of _ "[]"])

lemma issues_bindM [issues_intros]:
  assumes "issues self m" and "\<And>a. issues self (f a)"
  shows "issues self (bindM m f)"
  unfolding issues_def
proof
  fix s
  obtain r s1 where m: "m s = (r, s1)" by fastforce
  with assms(1) obtain rs where rs: "s1 = run_requests self rs s" unfolding issues_def by (metis snd_conv)
  show "\<exists>rs. snd (bindM m f s) = run_requests self rs s"
  proof (cases r)
    case (Inl e)
    with m rs show ?thesis by (auto simp: bindM_run)
  next
    case (Inr a)
    obtain rs' where "snd (f a s1) = run_requests self rs' s1" using assms(2) unfolding issues_def by blast
    with Inr m rs show ?thesis by (auto simp: bindM_run run_requests_append intro!: exI [of _ "rs @ rs'"])
  qed
qed

lemma issues_thenM [issues_intros]: "issues self m \<Longrightarrow> issues self n \<Longrightarrow> issues self (thenM m n)"
  unfolding thenM_def by (rule issues_bindM)

lemma issues_catchM:
  assumes "issues self m" and "\<And>e. keeps (h e) (\<lambda>s. s)"
  shows "issues self (catchM m h)"
  using assms by (simp add: issues_def keeps_def catchM_run split: prod.split sum.split) (metis snd_conv)

lemma issues_execute [issues_intros]: "issues self m \<Longrightarrow> issues self (rp_execute operation p m)"
  unfolding rp_execute_def by (rule issues_catchM) (auto intro!: keeps_intros)

lemma issues_if [issues_intros]:
  "(b \<Longrightarrow> issues self m) \<Longrightarrow> (\<not> b \<Longrightarrow> issues self n) \<Longrightarrow> issues self (if b then m else n)"
  by simp

lemma issues_option [issues_intros]:
  "(x = None \<Longrightarrow> issues self m) \<Longrightarrow> (\<And>a. x = Some a \<Longrightarrow> issues self (n a)) \<Longrightarrow>
   issues self (case x of None \<Rightarrow> m | Some a \<Rightarrow> n a)"
  by (cases x) simp_all

lemma issues_request: "(\<And>s. snd (m s) = snd (serve self q s)) \<Longrightarrow> issues self m"
  by (auto simp: issues_def run_requests_def intro!: exI [of _ "[q]"])

lemma issues_link [issues_intros]: "issues self (rd_link (rp_redis self))"
  by (rule issues_request [of _ _ Delay]) simp

lemma issues_round_trip: "issues self m \<Longrightarrow> issues self (round_trip (rp_redis self) m)"
  unfolding round_trip_def by (intro issues_intros)

lemma issues_key:
  assumes "\<And>k. pool_key (rp_key_prefix self) p part = Inr k \<Longrightarrow> issues self (f k)"
  shows "issues self (bindM (key_of self p part) f)"
proof (cases "pool_key (rp_key_prefix self) p part")
  case (Inr k)
  then have "bindM (key_of self p part) f = f k" by (simp add: key_of_def bindM_run fun_eq_iff)
  with assms [OF Inr] show ?thesis by simp
next
  case (Inl e)
  then have "bindM (key_of self p part) f = raiseM e" by (simp add: key_of_def bindM_run fun_eq_iff)
  then show ?thesis by (simp add: issues_pure)
qed

lemmas key_defs = idle_list_key_def idle_expires_key_def primary_lock_key_def max_idle_key_def idle_ttl_key_def
  destroy_state_key_def destroy_owner_key_def

lemma snd_unitM [simp]: "snd (unitM m s) = snd (m s)"
  by (simp add: unitM_def thenM_run split: prod.split sum.split)

abbreviation key_is :: "'s RedisPoolStateStore \<Rightarrow> string \<Rightarrow> string \<Rightarrow> string \<Rightarrow> bool" where
  "key_is self p part k \<equiv> pool_key (rp_key_prefix self) p part = Inr k"

lemma serve_keys:
  assumes "key_is self p part k"
  shows "bindM (key_of self p part) f = f k"
  using assms by (simp add: key_of_def bindM_run fun_eq_iff)

lemmas serve_unfolds = key_defs serve_keys

lemma issues_requests [issues_intros]:
  "key_is self p ''idle:list'' l \<Longrightarrow> key_is self p ''idle:expires'' h \<Longrightarrow>
     issues self (TAKE_IDLE_SCRIPT (rp_redis self) (rp_fuel self) l h a)"
  "key_is self p ''idle:list'' l \<Longrightarrow> key_is self p ''idle:expires'' h \<Longrightarrow> key_is self p ''destroy:state'' d \<Longrightarrow>
     issues self (PUT_IDLE_SCRIPT (rp_redis self) l h d x a)"
  "key_is self p ''idle:expires'' h \<Longrightarrow> issues self (rd_hdel (rp_redis self) h x)"
  "key_is self p ''idle:list'' l \<Longrightarrow> issues self (rd_lrem (rp_redis self) l x)"
  "key_is self p ''lock'' k \<Longrightarrow> key_is self p ''destroy:state'' d \<Longrightarrow> issues self (ACQUIRE_LOCK_SCRIPT (rp_redis self) k d w ms)"
  "key_is self p ''lock'' k \<Longrightarrow> key_is self p ''destroy:state'' d \<Longrightarrow> issues self (RENEW_LOCK_SCRIPT (rp_redis self) k d w ms)"
  "key_is self p ''lock'' k \<Longrightarrow> issues self (RELEASE_LOCK_SCRIPT (rp_redis self) k w)"
  "key_is self p ''idle:list'' l \<Longrightarrow> key_is self p ''idle:expires'' h \<Longrightarrow>
     issues self (REAP_EXPIRED_SCRIPT (rp_redis self) l h a)"
  "key_is self p ''idle:expires'' h \<Longrightarrow> issues self (rd_hlen (rp_redis self) h)"
  "key_is self p ''idle:list'' l \<Longrightarrow> issues self (rd_lrange (rp_redis self) l)"
  "key_is self p ''idle:expires'' h \<Longrightarrow> issues self (rd_hgetall (rp_redis self) h)"
  "key_is self p part k \<Longrightarrow> issues self (rd_get (rp_redis self) k)"
  "key_is self p ''destroy:state'' d \<Longrightarrow> key_is self p ''destroy:owner'' k \<Longrightarrow>
     issues self (BEGIN_DESTROY_SCRIPT (rp_redis self) d k (PoolDestroyState_value DESTROYING) (PoolDestroyState_value DESTROYED) w)"
  "key_is self p ''idle:list'' l \<Longrightarrow> key_is self p ''idle:expires'' h \<Longrightarrow> key_is self p ''lock'' k \<Longrightarrow>
     key_is self p ''maxIdle'' m \<Longrightarrow> key_is self p ''idleTtlMillis'' t \<Longrightarrow> issues self (rd_del (rp_redis self) [l, h, k, m, t])"
  "key_is self p ''destroy:state'' d \<Longrightarrow> issues self (rd_set (rp_redis self) d (PoolDestroyState_value DESTROYED) False px)"
  by ((rule issues_request [of _ _ "ReqTake p a"] issues_request [of _ _ "ReqPut p x a"]
        issues_request [of _ _ "ReqHdel p x"] issues_request [of _ _ "ReqLrem p x"] issues_request [of _ _ "ReqAcquire p w ms"]
        issues_request [of _ _ "ReqRenew p w ms"] issues_request [of _ _ "ReqRelease p w"] issues_request [of _ _ "ReqReap p a"]
        issues_request [of _ _ "ReqCount p"] issues_request [of _ _ "ReqListIds p"] issues_request [of _ _ "ReqListExpiries p"]
        issues_request [of _ _ "ReqGet p part"] issues_request [of _ _ "ReqBegin p w"] issues_request [of _ _ "ReqClear p"]
        issues_request [of _ _ "ReqMarkState p px"]), simp add: serve_unfolds; fail)+

lemma issues_set_value:
  "key_is self p ''maxIdle'' k \<Longrightarrow> key_is self p ''destroy:state'' d \<Longrightarrow> issues self (SET_VALUE_SCRIPT (rp_redis self) k d v)"
  "key_is self p ''idleTtlMillis'' k \<Longrightarrow> key_is self p ''destroy:state'' d \<Longrightarrow> issues self (SET_VALUE_SCRIPT (rp_redis self) k d v)"
  by (rule issues_request [of _ _ "ReqSetMax p v"] issues_request [of _ _ "ReqSetTtl p v"], simp add: serve_unfolds; fail)+

lemma issues_mark_owner: "key_is self p ''destroy:owner'' k \<Longrightarrow> issues self (rd_set (rp_redis self) k w False px)"
  by (rule issues_request [of _ _ "ReqMarkOwner p w px"]) (simp add: serve_unfolds)

lemmas request_steps = issues_intros issues_key issues_round_trip

lemma issues_eval_take: "issues self (rp_eval_take_idle self p a)"
  unfolding rp_eval_take_idle_def key_defs by (intro request_steps)

lemma issues_get_destroy_state: "issues self (rp_get_destroy_state self p)"
  unfolding rp_get_destroy_state_def key_defs by (intro request_steps)

lemma issues_resolve_ttl: "issues self (rp_resolve_idle_ttl self p)"
  unfolding rp_resolve_idle_ttl_def key_defs by (intro request_steps)

lemma issues_fenced_write: "issues self m \<Longrightarrow> issues self (rp_eval_fenced_write self p m)"
  unfolding rp_eval_fenced_write_def by (intro request_steps issues_get_destroy_state)

text \<open>Every operation of the store is a sequence of requests, also when it raises half way.\<close>

lemma store_issues_requests:
  "issues self (rp_try_take_idle self p)" "issues self (rp_try_take_idle_min_ttl self p ttl)"
  "issues self (rp_put_idle self p x)" "issues self (rp_remove_idle self p x)"
  "issues self (rp_try_acquire_primary_lock self p w ttl)" "issues self (rp_renew_primary_lock self p w ttl)"
  "issues self (rp_release_primary_lock self p w)" "issues self (rp_reap_expired_idle_min_ttl self p now ttl)"
  "issues self (rp_snapshot_counters self p)" "issues self (rp_snapshot_idle_entries self p)"
  "issues self (rp_get_max_idle self p)" "issues self (rp_set_max_idle self p n)"
  "issues self (rp_set_idle_entry_ttl self p ttl)" "issues self (rp_begin_destroy self p w)"
  "issues self (rp_clear_pool_state self p)" "issues self (rp_mark_destroyed self p w tombstone)"
  unfolding rp_try_take_idle_min_ttl_def rp_try_take_idle_def rp_put_idle_def rp_remove_idle_def
    rp_try_acquire_primary_lock_def rp_renew_primary_lock_def validate_owner_and_ttl_def rp_release_primary_lock_def
    rp_reap_expired_idle_min_ttl_def rp_reap_expired_idle_def rp_reap_idle_def rp_snapshot_counters_def
    rp_snapshot_idle_entries_def rp_get_max_idle_def rp_set_max_idle_def rp_set_idle_entry_ttl_def rp_begin_destroy_def
    rp_clear_pool_state_def rp_mark_destroyed_def Let_def key_defs
  by (intro request_steps issues_eval_take issues_resolve_ttl issues_fenced_write issues_set_value issues_mark_owner; assumption?)+

section \<open>Any service refines the reference\<close>

definition ref_store :: "'s RedisPoolStateStore \<Rightarrow> Keyspace RedisPoolStateStore" where
  "ref_store self =
     \<lparr>rp_redis = ref_redis, rp_key_prefix = rp_key_prefix self, rp_default_idle_ttl = rp_default_idle_ttl self,
      rp_fuel = rp_fuel self\<rparr>"

lemma ref_store_sel [simp]:
  "rp_redis (ref_store self) = ref_redis" "rp_key_prefix (ref_store self) = rp_key_prefix self"
  "rp_default_idle_ttl (ref_store self) = rp_default_idle_ttl self" "rp_fuel (ref_store self) = rp_fuel self"
  by (simp_all add: ref_store_def)

lemma refines_key_of [refines_intros]: "refines f (key_of self p part) (key_of (ref_store self) p part)"
  by (simp add: key_of_def refines_liftE)

lemma refines_execute [refines_intros]: "refines f m n \<Longrightarrow> refines f (rp_execute operation p m) (rp_execute operation p n)"
  unfolding rp_execute_def by (intro refines_intros)

lemma refines_unitM [refines_intros]: "refines f m n \<Longrightarrow> refines f (unitM m) (unitM n)"
  unfolding unitM_def by (intro refines_intros)

context redis_service
begin

lemma now_ms_refines: "refines ks (now_ms R) (now_ms ref_redis)"
  unfolding now_ms_def by (intro refines_intros commands_refine)

lemma take_idle_loop_refines:
  "refines ks (take_idle_loop R l h now cutoff n d) (take_idle_loop ref_redis l h now cutoff n d)"
  by (induction n arbitrary: d) (auto intro!: refines_intros commands_refine simp: lua_number_def)

lemma reap_loop_refines: "refines ks (reap_loop R l h now cutoff items d) (reap_loop ref_redis l h now cutoff items d)"
  by (induction items arbitrary: d) (auto intro!: refines_intros commands_refine simp: lua_number_def)

lemma scripts_refine:
  "refines ks (TAKE_IDLE_SCRIPT R n l h a) (TAKE_IDLE_SCRIPT ref_redis n l h a)"
  "refines ks (PUT_IDLE_SCRIPT R l h d x a) (PUT_IDLE_SCRIPT ref_redis l h d x a)"
  "refines ks (ACQUIRE_LOCK_SCRIPT R k d w ms) (ACQUIRE_LOCK_SCRIPT ref_redis k d w ms)"
  "refines ks (RENEW_LOCK_SCRIPT R k d w ms) (RENEW_LOCK_SCRIPT ref_redis k d w ms)"
  "refines ks (RELEASE_LOCK_SCRIPT R k w) (RELEASE_LOCK_SCRIPT ref_redis k w)"
  "refines ks (REAP_EXPIRED_SCRIPT R l h a) (REAP_EXPIRED_SCRIPT ref_redis l h a)"
  "refines ks (SET_VALUE_SCRIPT R k d v) (SET_VALUE_SCRIPT ref_redis k d v)"
  "refines ks (BEGIN_DESTROY_SCRIPT R d k ing ed w) (BEGIN_DESTROY_SCRIPT ref_redis d k ing ed w)"
  unfolding TAKE_IDLE_SCRIPT_def PUT_IDLE_SCRIPT_def ACQUIRE_LOCK_SCRIPT_def RENEW_LOCK_SCRIPT_def RELEASE_LOCK_SCRIPT_def
    REAP_EXPIRED_SCRIPT_def SET_VALUE_SCRIPT_def BEGIN_DESTROY_SCRIPT_def lua_number_def
  by (intro refines_intros commands_refine now_ms_refines take_idle_loop_refines reap_loop_refines)+

lemma round_trip_refines: "refines ks m n \<Longrightarrow> refines ks (round_trip R m) (round_trip ref_redis n)"
  unfolding round_trip_def by (intro refines_intros commands_refine)

lemmas all_refine = refines_intros commands_refine scripts_refine round_trip_refines

lemma serve_refines: "rp_redis self = R \<Longrightarrow> refines ks (serve self q) (serve (ref_store self) q)"
  by (cases q; simp add: key_defs del: serve.simps) (simp_all add: key_defs, (intro all_refine)+)

lemma run_requests_refines:
  assumes "rp_redis self = R"
  shows "ks (run_requests self rs s) = run_requests (ref_store self) rs (ks s)"
proof (induction rs arbitrary: s)
  case (Cons q rs)
  have "snd (serve (ref_store self) q (ks s)) = ks (snd (serve self q s))"
    using refines_run [OF serve_refines [OF assms]] by (metis prod.collapse snd_conv)
  with Cons show ?case by (simp add: run_requests_def)
qed (simp add: run_requests_def)

lemma fenced_write_refines:
  assumes "rp_redis self = R"
  shows "refines ks (rp_get_destroy_state self p) (rp_get_destroy_state (ref_store self) p)"
    and "refines ks m n \<Longrightarrow> refines ks (rp_eval_fenced_write self p m) (rp_eval_fenced_write (ref_store self) p n)"
  unfolding rp_eval_fenced_write_def rp_get_destroy_state_def key_defs assms ref_store_sel by (intro all_refine; assumption?)+

lemma take_reap_refines:
  assumes "rp_redis self = R"
  shows "refines ks (rp_eval_take_idle self p a) (rp_eval_take_idle (ref_store self) p a)"
    and "refines ks (rp_reap_idle self p a) (rp_reap_idle (ref_store self) p a)"
    and "refines ks (rp_resolve_idle_ttl self p) (rp_resolve_idle_ttl (ref_store self) p)"
  unfolding rp_eval_take_idle_def rp_reap_idle_def rp_resolve_idle_ttl_def key_defs assms
    ref_store_sel by (intro all_refine)+

lemma store_refines:
  assumes "rp_redis self = R"
  shows "refines ks (rp_try_take_idle self p) (rp_try_take_idle (ref_store self) p)"
    and "refines ks (rp_try_take_idle_min_ttl self p ttl) (rp_try_take_idle_min_ttl (ref_store self) p ttl)"
    and "refines ks (rp_put_idle self p x) (rp_put_idle (ref_store self) p x)"
    and "refines ks (rp_remove_idle self p x) (rp_remove_idle (ref_store self) p x)"
    and "refines ks (rp_try_acquire_primary_lock self p w ttl) (rp_try_acquire_primary_lock (ref_store self) p w ttl)"
    and "refines ks (rp_renew_primary_lock self p w ttl) (rp_renew_primary_lock (ref_store self) p w ttl)"
    and "refines ks (rp_snapshot_counters self p) (rp_snapshot_counters (ref_store self) p)"
    and "refines ks (rp_begin_destroy self p w) (rp_begin_destroy (ref_store self) p w)"
  unfolding rp_try_take_idle_min_ttl_def rp_try_take_idle_def rp_put_idle_def rp_remove_idle_def
    rp_try_acquire_primary_lock_def rp_renew_primary_lock_def validate_owner_and_ttl_def rp_snapshot_counters_def
    rp_begin_destroy_def key_defs assms ref_store_sel
  by (intro all_refine fenced_write_refines(2) take_reap_refines assms)+

end

end
