(* ===== verification/Redis_Lock.thy ===== *)
theory Redis_Lock
  imports Redis_Laws
begin

text \<open>
  What the Redis store promises to several clients at once: the primary lock excludes, the destroy fence holds, and
  the errors a client sees are of the documented classes. The invariants are proved for the reference commands, one
  request at a time, and carried to every service by refinement.
\<close>

section \<open>Frames\<close>

lemma ref_sel:
  "rd_link ref_redis = k_link" "rd_get ref_redis = k_string" "rd_set ref_redis = k_set" "rd_pexpire ref_redis = k_pexpire"
  "rd_lrange ref_redis = k_list"
  "rd_del ref_redis l = modifyM (\<lambda>s. s\<lparr>ks_data := (\<lambda>k. if List.member l k then None else ks_data s k)\<rparr>)"
  "rd_time ref_redis = getM (\<lambda>s. (ks_us s div 1000000, ks_us s mod 1000000))"
  "rd_lpop ref_redis k = bindM (k_list k) (\<lambda>xs.
     case xs of [] \<Rightarrow> returnM None | y # ys \<Rightarrow> thenM (k_put_list k ys) (returnM (Some y)))"
  "rd_rpush ref_redis k x = bindM (k_list k) (\<lambda>xs. k_put_list k (xs @ [x]))"
  "rd_lrem ref_redis k x = bindM (k_list k) (\<lambda>xs. k_put_list k (filter (\<lambda>y. y \<noteq> x) xs))"
  "rd_hget ref_redis k f = bindM (k_hash k) (\<lambda>h. returnM (map_of h f))"
  "rd_hset ref_redis k f v = bindM (k_hash k) (\<lambda>h. k_put_hash k (AList.update f v h))"
  "rd_hdel ref_redis k f = bindM (k_hash k) (\<lambda>h. k_put_hash k (AList.delete f h))"
  "rd_hlen ref_redis k = bindM (k_hash k) (\<lambda>h. returnM (length h))"
  "rd_hgetall ref_redis k = bindM (k_hash k) (\<lambda>h. getM (\<lambda>s. ks_order s (ks_us s) h))"
  by (simp_all add: ref_redis_def)

text \<open>One key and the clock: what a request leaves alone when it works on other keys.\<close>

definition cell :: "string \<Rightarrow> Keyspace \<Rightarrow> (rvalue \<times> nat option) option \<times> nat" where
  "cell k s = (ks_data s k, ks_us s)"

lemma keeps_reads [keeps_intros]: "keeps (k_string k) f" "keeps (k_list k) f" "keeps (k_hash k) f"
  by (auto simp: keeps_def k_string_def k_list_def k_hash_def split: option.splits rvalue.splits)

lemma keeps_now_ms [keeps_intros]: "keeps (now_ms ref_redis) f"
  unfolding now_ms_def ref_sel by (intro keeps_intros)

lemma keeps_lua_number [keeps_intros]: "keeps (lua_number v) f"
  unfolding lua_number_def by (rule keeps_intros)

lemma keeps_list_case [keeps_intros]:
  "(x = [] \<Longrightarrow> keeps m f) \<Longrightarrow> (\<And>y ys. x = y # ys \<Longrightarrow> keeps (n y ys) f) \<Longrightarrow>
   keeps (case x of [] \<Rightarrow> m | y # ys \<Rightarrow> n y ys) f"
  by (cases x) simp_all

lemma cell_k_write [simp]: "k \<noteq> k' \<Longrightarrow> cell k' (k_write k e s) = cell k' s"
  by (simp add: cell_def)

lemma keeps_writes:
  assumes "k \<noteq> k'"
  shows "keeps (k_put_list k xs) (cell k')" "keeps (k_put_hash k h) (cell k')" "keeps (k_set k v nx px) (cell k')"
    "keeps (k_pexpire k d) (cell k')"
  using assms
  by (auto simp: keeps_def k_put_list_def k_put_hash_def k_set_def k_pexpire_def k_store_def split: option.split)

lemma keeps_commands:
  assumes "k \<noteq> k'"
  shows "keeps (rd_set ref_redis k v nx px) (cell k')" "keeps (rd_pexpire ref_redis k d) (cell k')"
    "keeps (rd_lpop ref_redis k) (cell k')" "keeps (rd_rpush ref_redis k x) (cell k')" "keeps (rd_lrem ref_redis k x) (cell k')"
    "keeps (rd_hset ref_redis k x v) (cell k')" "keeps (rd_hdel ref_redis k x) (cell k')"
  unfolding ref_sel by (intro keeps_intros keeps_writes assms)+

lemma keeps_del: "k' \<notin> set l \<Longrightarrow> keeps (rd_del ref_redis l) (cell k')"
  unfolding ref_sel by (intro keeps_intros) (simp add: cell_def)

lemma keeps_read_commands [keeps_intros]:
  "keeps (rd_get ref_redis k) f" "keeps (rd_lrange ref_redis k) f" "keeps (rd_hget ref_redis k x) f"
  "keeps (rd_hlen ref_redis k) f" "keeps (rd_hgetall ref_redis k) f"
  unfolding ref_sel by (intro keeps_intros)+

lemma keeps_take_loop:
  "l \<noteq> k \<Longrightarrow> h \<noteq> k \<Longrightarrow> keeps (take_idle_loop ref_redis l h now cutoff n d) (cell k)"
  by (induction n arbitrary: d) (auto intro!: keeps_intros keeps_commands)

lemma keeps_reap_loop:
  "l \<noteq> k \<Longrightarrow> h \<noteq> k \<Longrightarrow> keeps (reap_loop ref_redis l h now cutoff items d) (cell k)"
  by (induction items arbitrary: d) (auto intro!: keeps_intros keeps_commands)

lemma keeps_scripts:
  "l \<noteq> k \<Longrightarrow> h \<noteq> k \<Longrightarrow> keeps (TAKE_IDLE_SCRIPT ref_redis n l h a) (cell k)"
  "l \<noteq> k \<Longrightarrow> h \<noteq> k \<Longrightarrow> keeps (PUT_IDLE_SCRIPT ref_redis l h d x a) (cell k)"
  "c \<noteq> k \<Longrightarrow> keeps (ACQUIRE_LOCK_SCRIPT ref_redis c d w ms) (cell k)"
  "c \<noteq> k \<Longrightarrow> keeps (RENEW_LOCK_SCRIPT ref_redis c d w ms) (cell k)"
  "c \<noteq> k \<Longrightarrow> keeps (RELEASE_LOCK_SCRIPT ref_redis c w) (cell k)"
  "l \<noteq> k \<Longrightarrow> h \<noteq> k \<Longrightarrow> keeps (REAP_EXPIRED_SCRIPT ref_redis l h a) (cell k)"
  "c \<noteq> k \<Longrightarrow> keeps (SET_VALUE_SCRIPT ref_redis c d v) (cell k)"
  "d \<noteq> k \<Longrightarrow> c \<noteq> k \<Longrightarrow> keeps (BEGIN_DESTROY_SCRIPT ref_redis d c ing ed w) (cell k)"
proof -
  show "l \<noteq> k \<Longrightarrow> h \<noteq> k \<Longrightarrow> keeps (TAKE_IDLE_SCRIPT ref_redis n l h a) (cell k)"
    unfolding TAKE_IDLE_SCRIPT_def by (intro keeps_intros keeps_commands keeps_take_loop keeps_reap_loop keeps_del) simp_all
  show "l \<noteq> k \<Longrightarrow> h \<noteq> k \<Longrightarrow> keeps (PUT_IDLE_SCRIPT ref_redis l h d x a) (cell k)"
    unfolding PUT_IDLE_SCRIPT_def by (intro keeps_intros keeps_commands keeps_take_loop keeps_reap_loop keeps_del) simp_all
  show "c \<noteq> k \<Longrightarrow> keeps (ACQUIRE_LOCK_SCRIPT ref_redis c d w ms) (cell k)"
    unfolding ACQUIRE_LOCK_SCRIPT_def by (intro keeps_intros keeps_commands keeps_take_loop keeps_reap_loop keeps_del) simp_all
  show "c \<noteq> k \<Longrightarrow> keeps (RENEW_LOCK_SCRIPT ref_redis c d w ms) (cell k)"
    unfolding RENEW_LOCK_SCRIPT_def by (intro keeps_intros keeps_commands keeps_take_loop keeps_reap_loop keeps_del) simp_all
  show "c \<noteq> k \<Longrightarrow> keeps (RELEASE_LOCK_SCRIPT ref_redis c w) (cell k)"
    unfolding RELEASE_LOCK_SCRIPT_def by (intro keeps_intros keeps_commands keeps_take_loop keeps_reap_loop keeps_del) simp_all
  show "l \<noteq> k \<Longrightarrow> h \<noteq> k \<Longrightarrow> keeps (REAP_EXPIRED_SCRIPT ref_redis l h a) (cell k)"
    unfolding REAP_EXPIRED_SCRIPT_def by (intro keeps_intros keeps_commands keeps_take_loop keeps_reap_loop keeps_del) simp_all
  show "c \<noteq> k \<Longrightarrow> keeps (SET_VALUE_SCRIPT ref_redis c d v) (cell k)"
    unfolding SET_VALUE_SCRIPT_def by (intro keeps_intros keeps_commands keeps_take_loop keeps_reap_loop keeps_del) simp_all
  show "d \<noteq> k \<Longrightarrow> c \<noteq> k \<Longrightarrow> keeps (BEGIN_DESTROY_SCRIPT ref_redis d c ing ed w) (cell k)"
    unfolding BEGIN_DESTROY_SCRIPT_def by (intro keeps_intros keeps_commands keeps_take_loop keeps_reap_loop keeps_del) simp_all
qed

lemma keeps_unitM [keeps_intros]: "keeps m f \<Longrightarrow> keeps (unitM m) f"
  unfolding unitM_def by (intro keeps_intros)

lemma preserves_unitM [preserves_intros]: "preserves m I \<Longrightarrow> preserves (unitM m) I"
  unfolding unitM_def by (intro preserves_intros)

lemma keeps_key:
  assumes "\<not> is_blank p \<Longrightarrow> keeps (f (pkey (rp_key_prefix self) p part)) g"
  shows "keeps (bindM (key_of self p part) f) g"
  using assms by (simp add: key_of_def pool_key_eq keeps_def bindM_run)

lemma preserves_key:
  assumes "\<not> is_blank p \<Longrightarrow> preserves (f (pkey (rp_key_prefix self) p part)) I"
  shows "preserves (bindM (key_of self p part) f) I"
  using assms by (simp add: key_of_def pool_key_eq preserves_def bindM_run)

lemma keeps_cell: "keeps m (cell k) \<Longrightarrow> (\<And>s s'. cell k s' = cell k s \<Longrightarrow> I s' = I s) \<Longrightarrow> preserves m I"
  unfolding keeps_def preserves_def by blast

lemma k_ms_cell: "cell k s' = cell k s \<Longrightarrow> k_ms s' = k_ms s"
  by (simp add: cell_def k_ms_def)

section \<open>What a key holds until an instant\<close>

text \<open>
  \<open>holds_until k P d e\<close>: until the instant \<open>e\<close>, which is at most \<open>d\<close> milliseconds ahead, the entry under the key \<open>k\<close>
  satisfies \<open>P\<close>, which says what it is and that it does not expire earlier.
\<close>

definition holds_until :: "string \<Rightarrow> (nat \<Rightarrow> (rvalue \<times> nat option) option \<Rightarrow> bool) \<Rightarrow> nat \<Rightarrow> nat \<Rightarrow> Keyspace \<Rightarrow> bool" where
  "holds_until k P d e s \<longleftrightarrow> e \<le> k_ms s + d \<and> (e \<le> k_ms s \<or> P e (ks_data s k))"

lemma holds_until_cell: "cell k s' = cell k s \<Longrightarrow> holds_until k P d e s' = holds_until k P d e s"
  by (simp add: holds_until_def cell_def k_ms_def)

lemma keeps_holds: "keeps m (cell k) \<Longrightarrow> preserves m (holds_until k P d e)"
  by (rule keeps_cell [OF _ holds_until_cell])

lemma holds_over: "e \<le> k_ms s' \<Longrightarrow> holds_until k P d e s'"
  by (simp add: holds_until_def)

lemma holds_later:
  "holds_until k P d e s \<Longrightarrow> k_ms s \<le> k_ms s' \<Longrightarrow> ks_data s' = ks_data s \<Longrightarrow> holds_until k P d e s'"
  unfolding holds_until_def by fastforce

lemma link_run: "ks_data (snd (k_link s)) = ks_data s" "k_ms s \<le> k_ms (snd (k_link s))"
  by (auto simp: k_link_def Let_def k_ms_def div_le_mono split: option.split)

lemma link_holds: "preserves (rd_link ref_redis) (holds_until k P d e)"
  unfolding preserves_def ref_sel using holds_later link_run by blast

lemma keeps_us_commands [keeps_intros]:
  "keeps (rd_set ref_redis k v nx px) k_ms" "keeps (rd_pexpire ref_redis k x) k_ms" "keeps (rd_del ref_redis l) k_ms"
  by (auto simp: keeps_def ref_sel k_set_def k_pexpire_def k_ms_def split: option.split)

lemma holds_preserved_by:
  assumes "keeps m k_ms" and "\<And>s. holds_until k P d e s \<Longrightarrow> k_ms s < e \<Longrightarrow> holds_until k P d e (snd (m s))"
  shows "preserves m (holds_until k P d e)"
  unfolding preserves_def
proof (intro allI impI)
  fix s
  assume l: "holds_until k P d e s"
  show "holds_until k P d e (snd (m s))"
  proof (cases "k_ms s < e")
    case True
    with assms(2) l show ?thesis by blast
  next
    case False
    with keepsD [OF assms(1), of s] show ?thesis by (simp add: holds_over)
  qed
qed

section \<open>The primary lock\<close>

text \<open>The owner \<open>w\<close> took or renewed the lock for at least \<open>d\<close> milliseconds.\<close>

definition owned_by :: "string \<Rightarrow> nat \<Rightarrow> (rvalue \<times> nat option) option \<Rightarrow> bool" where
  "owned_by w e c \<longleftrightarrow> (\<exists>x. c = Some (RString w, Some x) \<and> e \<le> x)"

abbreviation lease :: "string \<Rightarrow> string \<Rightarrow> nat \<Rightarrow> nat \<Rightarrow> Keyspace \<Rightarrow> bool" where
  "lease k w \<equiv> holds_until k (owned_by w)"

lemmas lease_def = holds_until_def owned_by_def

lemma lease_held:
  assumes "lease k w d e s" and "k_ms s < e"
  shows "k_string k s = (Inr (Some w), s)" and "k_entry s k \<noteq> None"
  using assms by (auto simp: lease_def k_string_def k_entry_def live_entry_def)

text \<open>The steps of the scripts on the key itself.\<close>

lemma set_nx_lease: "preserves (rd_set ref_redis k v True px) (lease k w d e)"
proof (rule holds_preserved_by)
  show "keeps (rd_set ref_redis k v True px) k_ms" by (rule keeps_intros)
qed (auto simp: ref_sel k_set_def lease_held(2))

lemma extend_lease:
  assumes "v = w \<Longrightarrow> d \<le> nat ms"
  shows "preserves (bindM (rd_get ref_redis k) (\<lambda>holder.
      if holder = Some v then thenM (rd_pexpire ref_redis k ms) (returnM 1) else returnM 0)) (lease k w d e)"
proof (rule holds_preserved_by)
  fix s
  assume l: "lease k w d e s" and t: "k_ms s < e"
  obtain x where x: "ks_data s k = Some (RString w, Some x)" "e \<le> x" using l t by (auto simp: lease_def)
  have "lease k w d e (snd (k_pexpire k ms s))" if "d \<le> nat ms"
    using that l t x by (auto simp: lease_def k_pexpire_def k_entry_def live_entry_def k_ms_def)
  then show "lease k w d e (snd (bindM (rd_get ref_redis k) (\<lambda>holder.
      if holder = Some v then thenM (rd_pexpire ref_redis k ms) (returnM 1) else returnM 0) s))"
    using lease_held(1) [OF l t] l assms
    by (auto simp: bindM_run thenM_run ref_sel split: prod.split sum.split)
qed (auto intro!: keeps_intros)

lemma release_lease: "v \<noteq> w \<Longrightarrow> preserves (RELEASE_LOCK_SCRIPT ref_redis k v) (lease k w d e)"
proof (rule holds_preserved_by)
  show "keeps (RELEASE_LOCK_SCRIPT ref_redis k v) k_ms" unfolding RELEASE_LOCK_SCRIPT_def by (intro keeps_intros)
qed (auto simp: RELEASE_LOCK_SCRIPT_def bindM_run ref_sel lease_held(1))

lemma get_lease [preserves_intros]: "preserves (rd_get ref_redis k') (lease k w d e)"
  by (rule keeps_holds) (rule keeps_intros)

lemma acquire_lease:
  "(v = w \<Longrightarrow> d \<le> nat ms) \<Longrightarrow> preserves (ACQUIRE_LOCK_SCRIPT ref_redis k c v ms) (lease k w d e)"
  unfolding ACQUIRE_LOCK_SCRIPT_def by (intro preserves_intros set_nx_lease extend_lease)

lemma renew_lease: "(v = w \<Longrightarrow> d \<le> nat ms) \<Longrightarrow> preserves (RENEW_LOCK_SCRIPT ref_redis k c v ms) (lease k w d e)"
  unfolding RENEW_LOCK_SCRIPT_def by (intro preserves_intros extend_lease)

text \<open>The requests that do not shorten the lease of \<open>w\<close> on \<open>p\<close>: all but its own release, or a shorter renewal, and a clear.\<close>

fun respects_lease :: "string \<Rightarrow> string \<Rightarrow> nat \<Rightarrow> request \<Rightarrow> bool" where
  "respects_lease p w d (ReqAcquire q v ms) \<longleftrightarrow> (q = p \<and> v = w \<longrightarrow> d \<le> nat ms)"
| "respects_lease p w d (ReqRenew q v ms) \<longleftrightarrow> (q = p \<and> v = w \<longrightarrow> d \<le> nat ms)"
| "respects_lease p w d (ReqRelease q v) \<longleftrightarrow> \<not> (q = p \<and> v = w)"
| "respects_lease p w d (ReqClear q) \<longleftrightarrow> q \<noteq> p"
| "respects_lease p w d _ \<longleftrightarrow> True"

abbreviation lock_key :: "'s RedisPoolStateStore \<Rightarrow> string \<Rightarrow> string" where
  "lock_key self p \<equiv> pkey (rp_key_prefix self) p ''lock''"

text \<open>The keys a request may write, as pool and part.\<close>

fun writes :: "request \<Rightarrow> (string \<times> string) list" where
  "writes (ReqTake q a) = [(q, ''idle:list''), (q, ''idle:expires'')]"
| "writes (ReqPut q x a) = [(q, ''idle:list''), (q, ''idle:expires'')]"
| "writes (ReqHdel q x) = [(q, ''idle:expires'')]"
| "writes (ReqLrem q x) = [(q, ''idle:list'')]"
| "writes (ReqAcquire q w ms) = [(q, ''lock'')]"
| "writes (ReqRenew q w ms) = [(q, ''lock'')]"
| "writes (ReqRelease q w) = [(q, ''lock'')]"
| "writes (ReqReap q a) = [(q, ''idle:list''), (q, ''idle:expires'')]"
| "writes (ReqSetMax q v) = [(q, ''maxIdle'')]"
| "writes (ReqSetTtl q v) = [(q, ''idleTtlMillis'')]"
| "writes (ReqBegin q w) = [(q, ''destroy:state''), (q, ''destroy:owner'')]"
| "writes (ReqClear q) = [(q, ''idle:list''), (q, ''idle:expires''), (q, ''lock''), (q, ''maxIdle''), (q, ''idleTtlMillis'')]"
| "writes (ReqMarkState q px) = [(q, ''destroy:state'')]"
| "writes (ReqMarkOwner q w px) = [(q, ''destroy:owner'')]"
| "writes _ = []"

lemma serve_keeps_cell:
  assumes "rp_redis self = ref_redis" and "(p, part) \<notin> set (writes r)" and "r \<noteq> Delay"
  shows "keeps (serve self r) (cell (pkey (rp_key_prefix self) p part))"
proof -
  note rules = keeps_key keeps_unitM keeps_scripts keeps_commands keeps_del keeps_read_commands
  show ?thesis
    using assms(2,3)
    by (cases r; simp only: serve.simps key_defs assms(1) writes.simps) (intro rules; auto)+
qed

lemma serve_lease:
  assumes "rp_redis self = ref_redis" and "respects_lease p w d r"
  shows "preserves (serve self r) (lease (lock_key self p) w d e)"
proof (cases "(p, ''lock'') \<notin> set (writes r) \<and> r \<noteq> Delay")
  case True
  with assms(1) show ?thesis by (intro keeps_holds serve_keeps_cell) auto
next
  case False
  then consider "r = Delay" | v ms where "r = ReqAcquire p v ms" | v ms where "r = ReqRenew p v ms" | v where "r = ReqRelease p v"
    using assms(2) by (cases r) auto
  then show ?thesis
  proof cases
    case 1
    then show ?thesis by (simp add: assms(1) link_holds)
  next
    case 2
    with assms(2) show ?thesis
      unfolding 2 serve.simps key_defs assms(1) by (intro preserves_key preserves_unitM acquire_lease) simp
  next
    case 3
    with assms(2) show ?thesis
      unfolding 3 serve.simps key_defs assms(1) by (intro preserves_key preserves_unitM renew_lease) simp
  next
    case 4
    with assms(2) show ?thesis
      unfolding 4 serve.simps key_defs assms(1) by (intro preserves_key preserves_unitM release_lease) simp
  qed
qed

lemma run_requests_invariant:
  assumes "\<And>r. r \<in> set rs \<Longrightarrow> preserves (serve self r) I" and "I s"
  shows "I (run_requests self rs s)"
  using assms by (induction rs arbitrary: s) (auto simp: run_requests_def dest: preservesD)

text \<open>What the calls of the client do with the clock and the key.\<close>

lemma wp_key [wp_simps]: "wp (key_of self p part) Q E s =
    (if is_blank p then E (ValueError ''pool_name must not be blank'') s else Q (pkey (rp_key_prefix self) p part) s)"
  by (simp add: key_of_def pool_key_eq wp_simps)

lemma wp_link: "(\<And>s'. k_ms s \<le> k_ms s' \<Longrightarrow> ks_data s' = ks_data s \<Longrightarrow> Q () s') \<Longrightarrow> wp (rd_link ref_redis) Q (\<lambda>_ _. True) s"
  using link_run [of s] by (cases "k_link s") (simp add: wp_def ref_sel split: sum.split)

lemma wp_round_trip:
  assumes "\<And>s1. k_ms s \<le> k_ms s1 \<Longrightarrow> ks_data s1 = ks_data s \<Longrightarrow>
      wp m (\<lambda>a s2. \<forall>s'. k_ms s2 \<le> k_ms s' \<longrightarrow> ks_data s' = ks_data s2 \<longrightarrow> Q a s') (\<lambda>_ _. True) s1"
  shows "wp (round_trip ref_redis m) Q (\<lambda>_ _. True) s"
  unfolding round_trip_def wp_simps by (rule wp_link) (auto intro: wp_mono [OF assms] wp_link simp: wp_simps)

lemma wp_execute: "wp m Q (\<lambda>_ _. True) s \<Longrightarrow> wp (rp_execute operation p m) Q (\<lambda>_ _. True) s"
  unfolding rp_execute_def wp_catchM by (erule wp_mono) (auto simp: wp_simps)

lemma lease_earlier:
  "lease k w d (t + d) s \<Longrightarrow> t' \<le> t \<Longrightarrow> k_ms s \<le> k_ms s' \<Longrightarrow> ks_data s' = ks_data s \<Longrightarrow> lease k w d (t' + d) s'"
  unfolding lease_def by fastforce

lemma acquire_takes_lease:
  assumes "1 \<le> ms"
  shows "wp (ACQUIRE_LOCK_SCRIPT ref_redis k c w ms) (\<lambda>r s'. r = 1 \<longrightarrow> lease k w (nat ms) (k_ms s + nat ms) s') (\<lambda>_ _. True) s"
  using assms
  by (auto simp: ACQUIRE_LOCK_SCRIPT_def wp_def bindM_run thenM_run ref_sel k_string_def k_set_def k_pexpire_def lease_def k_ms_def
      split: prod.splits sum.splits option.splits rvalue.splits if_splits)

lemma lease_excludes:
  assumes "lease k w d e s" and "v \<noteq> w"
  shows "wp (ACQUIRE_LOCK_SCRIPT ref_redis k c v ms) (\<lambda>r s'. r = 1 \<longrightarrow> e \<le> k_ms s') (\<lambda>_ _. True) s"
    and "wp (RENEW_LOCK_SCRIPT ref_redis k c v ms) (\<lambda>r s'. r = 1 \<longrightarrow> e \<le> k_ms s') (\<lambda>_ _. True) s"
proof -
  have k: "keeps (ACQUIRE_LOCK_SCRIPT ref_redis k c v ms) k_ms" "keeps (RENEW_LOCK_SCRIPT ref_redis k c v ms) k_ms"
    unfolding ACQUIRE_LOCK_SCRIPT_def RENEW_LOCK_SCRIPT_def by (intro keeps_intros)+
  have "wp (ACQUIRE_LOCK_SCRIPT ref_redis k c v ms) (\<lambda>r s'. r = 1 \<longrightarrow> e \<le> k_ms s') (\<lambda>_ _. True) s \<and>
      wp (RENEW_LOCK_SCRIPT ref_redis k c v ms) (\<lambda>r s'. r = 1 \<longrightarrow> e \<le> k_ms s') (\<lambda>_ _. True) s"
  proof (cases "k_ms s < e")
    case True
    obtain a where a: "k_string c s = (a, s)" using keeps_run [OF keeps_reads(1) [of c "\<lambda>s. s"]] by (cases "k_string c s") auto
    show ?thesis
      using lease_held [OF assms(1) True] assms(2) a
      by (cases a) (auto simp: ACQUIRE_LOCK_SCRIPT_def RENEW_LOCK_SCRIPT_def wp_def bindM_run ref_sel k_set_def)
  next
    case False
    then show ?thesis by (auto intro!: wp_keeps_any [OF k(1)] wp_keeps_any [OF k(2)])
  qed
  then show "wp (ACQUIRE_LOCK_SCRIPT ref_redis k c v ms) (\<lambda>r s'. r = 1 \<longrightarrow> e \<le> k_ms s') (\<lambda>_ _. True) s"
    and "wp (RENEW_LOCK_SCRIPT ref_redis k c v ms) (\<lambda>r s'. r = 1 \<longrightarrow> e \<le> k_ms s') (\<lambda>_ _. True) s" by blast+
qed

lemma client_takes_lease:
  assumes "rp_redis self = ref_redis"
  shows "wp (rp_try_acquire_primary_lock self p w ttl)
    (\<lambda>r s'. r \<longrightarrow> lease (lock_key self p) w (nat (max 1 (millis ttl))) (k_ms s + nat (max 1 (millis ttl))) s') (\<lambda>_ _. True) s"
  unfolding rp_try_acquire_primary_lock_def validate_owner_and_ttl_def key_defs assms wp_simps
  by (auto simp: wp_simps intro!: wp_execute wp_round_trip wp_mono [OF acquire_takes_lease] elim!: lease_earlier)

lemma client_excluded:
  assumes "rp_redis self = ref_redis" and "lease (lock_key self p) w d e s" and "v \<noteq> w"
  shows "wp (rp_try_acquire_primary_lock self p v ttl) (\<lambda>r s'. r \<longrightarrow> e \<le> k_ms s') (\<lambda>_ _. True) s"
    and "wp (rp_renew_primary_lock self p v ttl) (\<lambda>r s'. r \<longrightarrow> e \<le> k_ms s') (\<lambda>_ _. True) s"
proof -
  have step: "wp (ACQUIRE_LOCK_SCRIPT ref_redis (lock_key self p) c v ms) (\<lambda>r s2. \<forall>s'. k_ms s2 \<le> k_ms s' \<longrightarrow>
        ks_data s' = ks_data s2 \<longrightarrow> r = 1 \<longrightarrow> e \<le> k_ms s') (\<lambda>_ _. True) s1"
      "wp (RENEW_LOCK_SCRIPT ref_redis (lock_key self p) c v ms) (\<lambda>r s2. \<forall>s'. k_ms s2 \<le> k_ms s' \<longrightarrow>
        ks_data s' = ks_data s2 \<longrightarrow> r = 1 \<longrightarrow> e \<le> k_ms s') (\<lambda>_ _. True) s1"
    if "k_ms s \<le> k_ms s1" and "ks_data s1 = ks_data s" for s1 c ms
    by (rule wp_mono [OF lease_excludes(1) [OF holds_later [OF assms(2) that] assms(3)]]
        wp_mono [OF lease_excludes(2) [OF holds_later [OF assms(2) that] assms(3)]]; fastforce)+
  show "wp (rp_try_acquire_primary_lock self p v ttl) (\<lambda>r s'. r \<longrightarrow> e \<le> k_ms s') (\<lambda>_ _. True) s"
    and "wp (rp_renew_primary_lock self p v ttl) (\<lambda>r s'. r \<longrightarrow> e \<le> k_ms s') (\<lambda>_ _. True) s"
    unfolding rp_try_acquire_primary_lock_def rp_renew_primary_lock_def validate_owner_and_ttl_def key_defs assms(1) wp_simps
    by (auto simp: wp_simps intro!: wp_execute wp_round_trip step)
qed

text \<open>
  Claim C6. The primary lock excludes: when one owner has taken the lock of a pool, another owner's acquire or renew
  succeeds only after the time to live has passed since the first owner's call began, whatever requests any clients
  sent in between to this or other pools, as long as the first owner neither released the lock nor renewed it for
  less, and the pool was not cleared.
\<close>

theorem redis_lock_is_exclusive:
  fixes self :: "'s RedisPoolStateStore"
  assumes "redis_service (rp_redis self) ks"
    and "rp_try_acquire_primary_lock self p w ttl s = (Inr True, s1)"
    and "list_all (respects_lease p w (nat (max 1 (millis ttl)))) rs"
    and "rp_try_acquire_primary_lock self p v ttl' (run_requests self rs s1) = (Inr True, s3) \<or>
         rp_renew_primary_lock self p v ttl' (run_requests self rs s1) = (Inr True, s3)"
    and "v \<noteq> w"
  shows "k_ms (ks s) + nat (max 1 (millis ttl)) \<le> k_ms (ks s3)"
proof -
  let ?R = "ref_store self"
  define d where "d = nat (max 1 (millis ttl))"
  note refine = redis_service.store_refines(5,6) [OF assms(1) refl]
  have "lease (lock_key ?R p) w d (k_ms (ks s) + d) (ks s1)"
    using wp_run [OF client_takes_lease [OF ref_store_sel(1)] refines_run [OF refine(1) assms(2)]] unfolding d_def by blast
  then have "lease (lock_key ?R p) w d (k_ms (ks s) + d) (run_requests ?R rs (ks s1))"
    using assms(3) unfolding d_def [symmetric]
    by (intro run_requests_invariant [where I = "holds_until _ _ _ _"] serve_lease ref_store_sel) (auto simp: list_all_iff)
  then have l: "lease (lock_key ?R p) w d (k_ms (ks s) + d) (ks (run_requests self rs s1))"
    using redis_service.run_requests_refines [OF assms(1) refl, of rs s1] by (simp only:)
  note excluded = client_excluded [OF ref_store_sel(1) l assms(5)]
  from assms(4) show ?thesis
  proof
    assume "rp_try_acquire_primary_lock self p v ttl' (run_requests self rs s1) = (Inr True, s3)"
    from wp_run [OF excluded(1) refines_run [OF refine(1) this]] show ?thesis by (simp only: d_def simp_thms)
  next
    assume "rp_renew_primary_lock self p v ttl' (run_requests self rs s1) = (Inr True, s3)"
    from wp_run [OF excluded(2) refines_run [OF refine(2) this]] show ?thesis by (simp only: d_def simp_thms)
  qed
qed

lemma millis_second [simp]: "millis 1000000 = 1000"
  using total_seconds_whole [of 1] fl_int [of 1000] by (simp add: millis_def py_int_def)

lemma demo_names [simp]: "\<not> is_blank ''p''" "\<not> is_blank ''a''" "\<not> is_blank ''b''"
  by code_simp+

definition slow_redis :: Keyspace where
  "slow_redis = \<lparr>ks_us = 0, ks_data = (\<lambda>k. None), ks_order = (\<lambda>n h. h), ks_link = (\<lambda>n. (1000000, None))\<rparr>"

definition demo_redis :: "Keyspace RedisPoolStateStore" where
  "demo_redis = RedisPoolStateStore_init ref_redis DEFAULT_KEY_PREFIX 5"

lemma demo_redis_sel [simp]: "rp_redis demo_redis = ref_redis"
  by (simp add: demo_redis_def RedisPoolStateStore_init_def)

lemmas lock_eval = rp_try_acquire_primary_lock_def validate_owner_and_ttl_def key_defs key_of_def pool_key_eq rp_execute_def
  round_trip_def ACQUIRE_LOCK_SCRIPT_def RELEASE_LOCK_SCRIPT_def ref_sel k_link_def k_string_def k_set_def k_entry_def live_entry_def
  k_ms_def slow_redis_def bindM_run thenM_run catchM_run

theorem redis_lock_is_exclusive_witness:
  "k_ms slow_redis + nat (max 1 (millis 1000000)) \<le>
     k_ms (snd (rp_try_acquire_primary_lock demo_redis ''p'' ''b'' 1000000
       (run_requests demo_redis [Delay, ReqRelease ''p'' ''b'']
         (snd (rp_try_acquire_primary_lock demo_redis ''p'' ''a'' 1000000 slow_redis)))))"
proof -
  let ?r1 = "rp_try_acquire_primary_lock demo_redis ''p'' ''a'' 1000000 slow_redis"
  let ?r2 = "rp_try_acquire_primary_lock demo_redis ''p'' ''b'' 1000000
    (run_requests demo_redis [Delay, ReqRelease ''p'' ''b''] (snd ?r1))"
  have "fst ?r1 = Inr True" "fst ?r2 = Inr True" by (simp_all add: lock_eval run_requests_def unitM_def)
  then have "?r1 = (Inr True, snd ?r1)" "?r2 = (Inr True, snd ?r2)" by (metis prod.collapse)+
  from redis_lock_is_exclusive [of demo_redis "\<lambda>s. s", OF _ this(1) _ disjI1 [OF this(2)]] show ?thesis
    by (simp add: reference.redis_service_axioms)
qed

end
