(* ===== verification/Redis_Fence.thy ===== *)
theory Redis_Fence
  imports Redis_Lock
begin

text \<open>
  The destroy fence of the Redis store: from the moment \<open>begin_destroy\<close> has returned, no client adds an idle sandbox,
  changes the configuration or holds the lock of the namespace, until a tombstone that was written with a time to
  live expires. And the classes of errors the operations raise.
\<close>

section \<open>The fence\<close>

definition fence_entry :: "nat \<Rightarrow> (rvalue \<times> nat option) option \<Rightarrow> bool" where
  "fence_entry e c \<longleftrightarrow> (\<exists>v x. c = Some (RString v, x) \<and> (case x of None \<Rightarrow> True | Some t \<Rightarrow> e \<le> t))"

abbreviation state_key :: "'s RedisPoolStateStore \<Rightarrow> string \<Rightarrow> string" where
  "state_key self p \<equiv> pkey (rp_key_prefix self) p ''destroy:state''"

abbreviation expires_key :: "'s RedisPoolStateStore \<Rightarrow> string \<Rightarrow> string" where
  "expires_key self p \<equiv> pkey (rp_key_prefix self) p ''idle:expires''"

text \<open>The ids that the expiry hash of a pool names: the sandboxes that a take can return.\<close>

definition hash_ids :: "Keyspace \<Rightarrow> string \<Rightarrow> string set" where
  "hash_ids s k = (case ks_data s k of Some (RHash h, _) \<Rightarrow> fst ` set h | _ \<Rightarrow> {})"

text \<open>The fence stands until \<open>e\<close>, and until then no id comes to the ids \<open>X\<close>.\<close>

definition fenced_off :: "string \<Rightarrow> string \<Rightarrow> string set \<Rightarrow> nat \<Rightarrow> nat \<Rightarrow> Keyspace \<Rightarrow> bool" where
  "fenced_off d h X n e s \<longleftrightarrow> holds_until d fence_entry n e s \<and> (e \<le> k_ms s \<or> hash_ids s h \<subseteq> X)"

lemma fence_seen:
  assumes "holds_until d fence_entry n e s" and "k_ms s < e"
  shows "\<exists>v. k_string d s = (Inr (Some v), s)"
  using assms by (auto simp: holds_until_def fence_entry_def k_string_def k_entry_def live_entry_def split: option.splits)

lemma fence_cells:
  assumes "keeps m (cell d)" and "keeps m (cell h)"
  shows "preserves m (fenced_off d h X n e)"
  using keepsD [OF assms(1)] keepsD [OF assms(2)]
  by (simp add: preserves_def fenced_off_def holds_until_def hash_ids_def cell_def k_ms_def)

lemma fence_link: "preserves (rd_link ref_redis) (fenced_off d h X n e)"
proof -
  have "fenced_off d h X n e (snd (k_link s))" if "fenced_off d h X n e s" for s
    using that holds_later [OF _ link_run(2) link_run(1)] link_run [of s]
    by (auto simp: fenced_off_def hash_ids_def)
  then show ?thesis by (simp add: preserves_def ref_sel)
qed

lemma fence_ids:
  assumes "keeps m (cell d)" and "\<And>s. hash_ids (snd (m s)) h \<subseteq> hash_ids s h"
  shows "preserves m (fenced_off d h X n e)"
  unfolding preserves_def
proof (intro allI impI)
  fix s
  assume f: "fenced_off d h X n e s"
  have "holds_until d fence_entry n e (snd (m s))"
    using f holds_until_cell [OF keepsD [OF assms(1)]] by (simp add: fenced_off_def)
  moreover have "k_ms (snd (m s)) = k_ms s" using k_ms_cell [OF keepsD [OF assms(1)]] .
  ultimately show "fenced_off d h X n e (snd (m s))" using f assms(2) [of s] by (auto simp: fenced_off_def)
qed

section \<open>Every request keeps it\<close>

lemma fence_preserved:
  assumes "keeps m k_ms" and "\<And>s. fenced_off d h X n e s \<Longrightarrow> k_ms s < e \<Longrightarrow> fenced_off d h X n e (snd (m s))"
  shows "preserves m (fenced_off d h X n e)"
  unfolding preserves_def
proof (intro allI impI)
  fix s
  assume f: "fenced_off d h X n e s"
  show "fenced_off d h X n e (snd (m s))"
  proof (cases "k_ms s < e")
    case True
    with f assms(2) show ?thesis by blast
  next
    case False
    with keepsD [OF assms(1), of s] show ?thesis by (simp add: fenced_off_def holds_over)
  qed
qed

lemma ids_delete: "hash_ids (snd (rd_hdel ref_redis h x s)) h \<subseteq> hash_ids s h"
  by (auto simp: ref_sel bindM_run k_hash_def k_put_hash_def k_store_def hash_ids_def k_entry_def live_entry_def AList.delete_eq
      split: option.splits rvalue.splits if_splits)

lemma ids_del: "hash_ids (snd (rd_del ref_redis l s)) h \<subseteq> hash_ids s h"
  by (simp add: ref_sel hash_ids_def)

lemma fence_hdel [preserves_intros]: "h \<noteq> d \<Longrightarrow> preserves (rd_hdel ref_redis h x) (fenced_off d h X n e)"
  by (intro fence_ids keeps_commands ids_delete)

lemma fence_list [preserves_intros]:
  "l \<noteq> d \<Longrightarrow> l \<noteq> h \<Longrightarrow> preserves (rd_lpop ref_redis l) (fenced_off d h X n e)"
  "l \<noteq> d \<Longrightarrow> l \<noteq> h \<Longrightarrow> preserves (rd_lrem ref_redis l x) (fenced_off d h X n e)"
  by (intro fence_cells keeps_commands; assumption)+

lemma fence_reads [preserves_intros]:
  "preserves (rd_get ref_redis k) (fenced_off d h X n e)" "preserves (rd_hget ref_redis k x) (fenced_off d h X n e)"
  "preserves (rd_hgetall ref_redis k) (fenced_off d h X n e)" "preserves (now_ms ref_redis) (fenced_off d h X n e)"
  "preserves (lua_number v) (fenced_off d h X n e)"
  by (intro fence_cells keeps_intros)+

lemma preserves_option [preserves_intros]:
  "(x = None \<Longrightarrow> preserves m I) \<Longrightarrow> (\<And>a. x = Some a \<Longrightarrow> preserves (n a) I) \<Longrightarrow>
   preserves (case x of None \<Rightarrow> m | Some a \<Rightarrow> n a) I"
  by (cases x) simp_all

lemma fence_take_loop:
  "l \<noteq> d \<Longrightarrow> l \<noteq> h \<Longrightarrow> h \<noteq> d \<Longrightarrow> preserves (take_idle_loop ref_redis l h now cutoff k disc) (fenced_off d h X n e)"
  by (induction k arbitrary: disc) (auto intro!: preserves_intros)

lemma fence_reap_loop:
  "l \<noteq> d \<Longrightarrow> l \<noteq> h \<Longrightarrow> h \<noteq> d \<Longrightarrow> preserves (reap_loop ref_redis l h now cutoff items disc) (fenced_off d h X n e)"
  by (induction items arbitrary: disc) (auto intro!: preserves_intros)

lemma fence_take_reap:
  assumes "l \<noteq> d" and "l \<noteq> h" and "h \<noteq> d"
  shows "preserves (TAKE_IDLE_SCRIPT ref_redis k l h a) (fenced_off d h X n e)"
    and "preserves (REAP_EXPIRED_SCRIPT ref_redis l h a) (fenced_off d h X n e)"
  unfolding TAKE_IDLE_SCRIPT_def REAP_EXPIRED_SCRIPT_def
  by (intro preserves_intros fence_take_loop fence_reap_loop assms)+

lemma put_is_fenced:
  assumes "fenced_off d h X n e s" and "k_ms s < e"
  shows "PUT_IDLE_SCRIPT ref_redis l h d x a s = (Inr (- 1), s)"
  using fence_seen [of d n e s] assms by (auto simp: PUT_IDLE_SCRIPT_def fenced_off_def bindM_run ref_sel)

lemma keeps_k_ms: "keeps m (cell k) \<Longrightarrow> keeps m k_ms"
  unfolding keeps_def using k_ms_cell by blast

lemma fresh_key: "\<exists>k. k \<noteq> l \<and> k \<noteq> (h :: string) \<and> k \<noteq> d"
  using ex_new_if_finite [OF infinite_UNIV_listI, of "{l, h, d}"] by auto

lemma fence_put: "preserves (PUT_IDLE_SCRIPT ref_redis l h d x a) (fenced_off d h X n e)"
proof (rule fence_preserved)
  obtain k where "k \<noteq> l" "k \<noteq> h" "k \<noteq> d" using fresh_key by blast
  then show "keeps (PUT_IDLE_SCRIPT ref_redis l h d x a) k_ms" by (intro keeps_k_ms keeps_scripts(2)) auto
qed (simp add: put_is_fenced)

lemma set_state_fence:
  assumes "h \<noteq> d" and "\<And>t. px = Some t \<Longrightarrow> n \<le> nat t"
  shows "preserves (rd_set ref_redis d v False px) (fenced_off d h X n e)"
proof (rule fence_preserved)
  fix s
  assume "fenced_off d h X n e s" "k_ms s < e"
  moreover have "k_ms (k_write d c s) = k_ms s" for c by (simp add: k_ms_def)
  ultimately show "fenced_off d h X n e (snd (rd_set ref_redis d v False px s))"
    using assms by (cases px) (auto simp: ref_sel k_set_def fenced_off_def holds_until_def fence_entry_def hash_ids_def)
qed (rule keeps_intros)

lemma fence_begin:
  assumes "h \<noteq> d" and "c \<noteq> d" and "c \<noteq> h"
  shows "preserves (BEGIN_DESTROY_SCRIPT ref_redis d c ing ed w) (fenced_off d h X n e)"
  unfolding BEGIN_DESTROY_SCRIPT_def
  by (intro preserves_intros set_state_fence fence_cells [OF keeps_commands(1) keeps_commands(1)]) (use assms in auto)

text \<open>A tombstone of this pool is written for at least \<open>n\<close> milliseconds.\<close>

fun respects_fence :: "string \<Rightarrow> nat \<Rightarrow> request \<Rightarrow> bool" where
  "respects_fence p n (ReqMarkState q (Some px)) \<longleftrightarrow> (q = p \<longrightarrow> n \<le> nat px)"
| "respects_fence p n _ \<longleftrightarrow> True"

lemma serve_fence:
  assumes "rp_redis self = ref_redis" and "respects_fence p n r"
  shows "preserves (serve self r) (fenced_off (state_key self p) (expires_key self p) X n e)"
proof (cases "(p, ''destroy:state'') \<notin> set (writes r) \<and> (p, ''idle:expires'') \<notin> set (writes r) \<and> r \<noteq> Delay")
  case True
  with assms(1) show ?thesis by (intro fence_cells serve_keeps_cell) auto
next
  case False
  then consider "r = Delay" | a where "r = ReqTake p a" | x a where "r = ReqPut p x a" | x where "r = ReqHdel p x"
    | a where "r = ReqReap p a" | w where "r = ReqBegin p w" | "r = ReqClear p" | px where "r = ReqMarkState p px"
    by (cases r) auto
  then show ?thesis
  proof cases
    case 1
    then show ?thesis by (simp add: assms(1) fence_link)
  next
    case 7
    then show ?thesis
      unfolding 7 serve.simps key_defs assms(1) by (intro preserves_key preserves_unitM fence_ids keeps_del ids_del) auto
  next
    case 8
    with assms(2) show ?thesis
      unfolding 8 serve.simps key_defs assms(1) by (intro preserves_key preserves_unitM set_state_fence) (auto split: option.splits)
  qed (simp only: serve.simps key_defs assms(1),
       intro preserves_key preserves_unitM fence_take_reap fence_put fence_hdel fence_begin; simp)+
qed

section \<open>What the clients see\<close>

lemma begin_sets_fence:
  assumes "c \<noteq> d" and "ing \<noteq> ed"
  shows "wp (BEGIN_DESTROY_SCRIPT ref_redis d c ing ed w)
    (\<lambda>r s'. r \<noteq> - 1 \<longrightarrow> k_ms s' = k_ms s \<and> ks_data s' d = Some (RString ing, None)) (\<lambda>_ _. True) s"
  using assms
  by (auto simp: BEGIN_DESTROY_SCRIPT_def wp_def bindM_run thenM_run ref_sel k_string_def k_set_def k_ms_def
      split: prod.splits sum.splits option.splits rvalue.splits)

lemma client_fences:
  assumes "rp_redis self = ref_redis"
  shows "wp (rp_begin_destroy self p w)
    (\<lambda>_ s'. fenced_off (state_key self p) (expires_key self p) (hash_ids s' (expires_key self p)) n (k_ms s + n) s') (\<lambda>_ _. True) s"
  unfolding rp_begin_destroy_def key_defs assms
  by (auto simp: wp_simps fenced_off_def holds_until_def fence_entry_def
      intro!: wp_execute wp_round_trip wp_mono [OF begin_sets_fence])

text \<open>A write that the fence guards answers \<open>-1\<close>, a lock script \<open>0\<close>, while it stands.\<close>

lemma fence_refuses:
  assumes "holds_until d fence_entry n e s" and "\<And>v. k_string d s = (Inr (Some v), s) \<Longrightarrow> m s = (Inr b, s)"
    and "keeps m k_ms"
  shows "wp m (\<lambda>r s'. r \<noteq> b \<longrightarrow> e \<le> k_ms s') (\<lambda>_ _. True) s"
proof (cases "k_ms s < e")
  case True
  with fence_seen [OF assms(1)] assms(2) show ?thesis by (auto simp: wp_def)
next
  case False
  then show ?thesis by (intro wp_keeps_any [OF assms(3)]) auto
qed

lemma scripts_keep_k_ms:
  "keeps (PUT_IDLE_SCRIPT ref_redis l h d x a) k_ms" "keeps (ACQUIRE_LOCK_SCRIPT ref_redis k d w ms) k_ms"
proof -
  obtain c where "c \<noteq> l" "c \<noteq> h" using fresh_key by blast
  then show "keeps (PUT_IDLE_SCRIPT ref_redis l h d x a) k_ms" by (intro keeps_k_ms keeps_scripts(2)) auto
  show "keeps (ACQUIRE_LOCK_SCRIPT ref_redis k d w ms) k_ms" unfolding ACQUIRE_LOCK_SCRIPT_def by (intro keeps_intros)
qed

lemma put_refused:
  "holds_until d fence_entry n e s \<Longrightarrow>
   wp (PUT_IDLE_SCRIPT ref_redis l h d x a) (\<lambda>r s'. r \<noteq> - 1 \<longrightarrow> e \<le> k_ms s') (\<lambda>_ _. True) s"
  by (erule fence_refuses [OF _ _ scripts_keep_k_ms(1)]) (simp add: PUT_IDLE_SCRIPT_def bindM_run ref_sel)

lemma acquire_refused:
  "holds_until d fence_entry n e s \<Longrightarrow>
   wp (ACQUIRE_LOCK_SCRIPT ref_redis k d w ms) (\<lambda>r s'. r \<noteq> 0 \<longrightarrow> e \<le> k_ms s') (\<lambda>_ _. True) s"
  by (erule fence_refuses [OF _ _ scripts_keep_k_ms(2)]) (simp add: ACQUIRE_LOCK_SCRIPT_def bindM_run ref_sel)

lemma wp_get_later:
  assumes "\<And>v s'. k_ms s \<le> k_ms s' \<Longrightarrow> ks_data s' = ks_data s \<Longrightarrow> Q v s'"
  shows "wp (round_trip ref_redis (rd_get ref_redis k)) Q (\<lambda>_ _. True) s"
  by (rule wp_round_trip, rule wp_keeps_any [OF keeps_read_commands(1) [where f = "\<lambda>s. s"]]) (auto intro!: assms)

lemma wp_resolve_ttl:
  assumes "rp_redis self = ref_redis" and "\<And>t s'. k_ms s \<le> k_ms s' \<Longrightarrow> ks_data s' = ks_data s \<Longrightarrow> Q t s'"
  shows "wp (rp_resolve_idle_ttl self p) Q (\<lambda>_ _. True) s"
  unfolding rp_resolve_idle_ttl_def key_defs assms(1) wp_bindM
  by (rule wp_execute) (auto simp: wp_simps intro!: wp_get_later assms(2) split: option.splits)

lemma client_put_fenced:
  assumes "rp_redis self = ref_redis" and "holds_until (state_key self p) fence_entry n e s"
  shows "wp (rp_put_idle self p x) (\<lambda>_ s'. e \<le> k_ms s') (\<lambda>_ _. True) s"
proof -
  have put: "wp (round_trip ref_redis (PUT_IDLE_SCRIPT ref_redis l h (state_key self p) x a))
      (\<lambda>r s2. r \<noteq> - 1 \<longrightarrow> e \<le> k_ms s2) (\<lambda>_ _. True) s1"
    if "k_ms s \<le> k_ms s1" and "ks_data s1 = ks_data s" for s1 l h a
    by (rule wp_round_trip, rule wp_mono [OF put_refused [OF holds_later [OF assms(2)]]]) (use that in auto)
  have "wp (rp_eval_fenced_write self p (PUT_IDLE_SCRIPT ref_redis l h (state_key self p) x a)) (\<lambda>_ s'. e \<le> k_ms s') (\<lambda>_ _. True) s1"
    if "k_ms s \<le> k_ms s1" and "ks_data s1 = ks_data s" for s1 l h a
    unfolding rp_eval_fenced_write_def wp_bindM assms(1)
    by (rule wp_mono [OF put [OF that]]) (auto simp: wp_simps intro: wp_any)
  then show ?thesis
    unfolding rp_put_idle_def key_defs assms(1)
    by (auto simp: wp_simps assms(1) intro!: wp_resolve_ttl wp_execute)
qed

lemma client_lock_fenced:
  assumes "rp_redis self = ref_redis" and "holds_until (state_key self p) fence_entry n e s"
  shows "wp (rp_try_acquire_primary_lock self p w ttl) (\<lambda>r s'. r \<longrightarrow> e \<le> k_ms s') (\<lambda>_ _. True) s"
proof -
  have "wp (round_trip ref_redis (ACQUIRE_LOCK_SCRIPT ref_redis k (state_key self p) w ms))
      (\<lambda>r s2. r = 1 \<longrightarrow> e \<le> k_ms s2) (\<lambda>_ _. True) s" for k ms
    by (rule wp_round_trip, rule wp_mono [OF acquire_refused [OF holds_later [OF assms(2)]]]) auto
  then show ?thesis
    unfolding rp_try_acquire_primary_lock_def validate_owner_and_ttl_def key_defs assms(1)
    by (auto simp: wp_simps intro!: wp_execute)
qed

text \<open>
  Claim C7. The destroy fence holds: after \<open>begin_destroy\<close> has returned, and whatever requests any clients send
  afterwards, no sandbox is added to the namespace, \<open>put_idle\<close> does not return normally and nobody acquires the lock,
  for the next \<open>n\<close> milliseconds, for every \<open>n\<close> that no tombstone written meanwhile cuts short; without such a
  tombstone that is for ever.
\<close>

theorem redis_fence_holds:
  fixes self :: "'s RedisPoolStateStore"
  assumes "redis_service (rp_redis self) ks"
    and "rp_begin_destroy self p w s = (Inr (), s1)"
    and "list_all (respects_fence p n) rs"
    and "s2 = run_requests self rs s1"
  shows "(k_ms (ks s2) < k_ms (ks s) + n \<longrightarrow> hash_ids (ks s2) (expires_key self p) \<subseteq> hash_ids (ks s1) (expires_key self p)) \<and>
    (rp_put_idle self p x s2 = (Inr (), s3) \<longrightarrow> k_ms (ks s) + n \<le> k_ms (ks s3)) \<and>
    (rp_try_acquire_primary_lock self p v ttl s2 = (Inr True, s3) \<longrightarrow> k_ms (ks s) + n \<le> k_ms (ks s3))"
proof -
  let ?R = "ref_store self"
  define e where "e = k_ms (ks s) + n"
  note refine = redis_service.store_refines(3,5,8) [OF assms(1) refl]
  have "fenced_off (state_key ?R p) (expires_key ?R p) (hash_ids (ks s1) (expires_key ?R p)) n e (ks s1)"
    using wp_run [OF client_fences [OF ref_store_sel(1)] refines_run [OF refine(3) assms(2)]] unfolding e_def by blast
  then have "fenced_off (state_key ?R p) (expires_key ?R p) (hash_ids (ks s1) (expires_key ?R p)) n e (run_requests ?R rs (ks s1))"
    using assms(3) by (intro run_requests_invariant [where I = "fenced_off _ _ _ _ _"] serve_fence ref_store_sel) (auto simp: list_all_iff)
  then have f: "fenced_off (state_key ?R p) (expires_key ?R p) (hash_ids (ks s1) (expires_key ?R p)) n e (ks s2)"
    using redis_service.run_requests_refines [OF assms(1) refl, of rs s1] by (simp only: assms(4))
  then have h: "holds_until (state_key ?R p) fence_entry n e (ks s2)" by (simp only: fenced_off_def)
  have "k_ms (ks s2) < e \<longrightarrow> hash_ids (ks s2) (expires_key self p) \<subseteq> hash_ids (ks s1) (expires_key self p)"
    using f by (auto simp: fenced_off_def)
  moreover have "e \<le> k_ms (ks s3)" if "rp_put_idle self p x s2 = (Inr (), s3)"
    using wp_run [OF client_put_fenced [OF ref_store_sel(1) h] refines_run [OF refine(1) that]] .
  moreover have "e \<le> k_ms (ks s3)" if "rp_try_acquire_primary_lock self p v ttl s2 = (Inr True, s3)"
    using wp_run [OF client_lock_fenced [OF ref_store_sel(1) h] refines_run [OF refine(2) that]] by blast
  ultimately show ?thesis unfolding e_def by blast
qed

lemmas fence_eval = rp_begin_destroy_def key_defs key_of_def pool_key_eq rp_execute_def round_trip_def BEGIN_DESTROY_SCRIPT_def
  ref_sel k_link_def k_string_def k_set_def k_entry_def live_entry_def k_ms_def slow_redis_def bindM_run thenM_run catchM_run

theorem redis_fence_holds_witness:
  "hash_ids (run_requests demo_redis [ReqPut ''p'' ''x'' ''1'', ReqMarkState ''p'' (Some 9000)] (snd (rp_begin_destroy demo_redis ''p'' ''a'' slow_redis)))
     (expires_key demo_redis ''p'') \<subseteq> hash_ids (snd (rp_begin_destroy demo_redis ''p'' ''a'' slow_redis)) (expires_key demo_redis ''p'')"
proof -
  let ?r = "rp_begin_destroy demo_redis ''p'' ''a'' slow_redis"
  let ?rs = "[ReqPut ''p'' ''x'' ''1'', ReqMarkState ''p'' (Some 9000)]"
  have "fst ?r = Inr ()" by (simp add: fence_eval)
  then have r: "?r = (Inr (), snd ?r)" by (metis prod.collapse)
  moreover have "k_ms (run_requests demo_redis ?rs (snd ?r)) < k_ms slow_redis + 9000"
    by (simp add: run_requests_def unitM_def PUT_IDLE_SCRIPT_def fence_eval)
  ultimately show ?thesis
    using redis_fence_holds [of demo_redis "\<lambda>s. s" "''p''" "''a''" slow_redis "snd ?r" 9000 ?rs]
    by (simp add: reference.redis_service_axioms)
qed

section \<open>Errors\<close>

text \<open>The exceptions that the clients of a store handle: a bad argument, a destroyed namespace, an outage.\<close>

definition documented :: "exn \<Rightarrow> bool" where
  "documented e \<longleftrightarrow> passes_through e \<or> is_outage_exn e \<or> \<not> is_Exception e"

definition raises_documented :: "('s, 'a) M \<Rightarrow> bool" where
  "raises_documented m \<longleftrightarrow> (\<forall>s. wp m (\<lambda>_ _. True) (\<lambda>e _. documented e) s)"

named_theorems errors_intros \<open>compositional rules\<close>

lemma documented_execute [errors_intros]: "raises_documented (rp_execute operation p m)"
  unfolding raises_documented_def rp_execute_def wp_simps
  by (intro allI wp_any) (auto simp: documented_def wp_simps)

lemma documented_pure [errors_intros]:
  "raises_documented (returnM a)" "raises_documented (raiseM (ValueError msg))"
  by (simp_all add: raises_documented_def wp_simps documented_def)

lemma documented_bindM [errors_intros]:
  assumes "raises_documented m" and "\<And>a. raises_documented (f a)"
  shows "raises_documented (bindM m f)"
  using assms unfolding raises_documented_def wp_bindM by (blast intro: wp_mono)

lemma documented_thenM [errors_intros]:
  "raises_documented m \<Longrightarrow> raises_documented n \<Longrightarrow> raises_documented (thenM m n)"
  unfolding thenM_def by (rule documented_bindM)

lemma documented_if [errors_intros]:
  "(b \<Longrightarrow> raises_documented m) \<Longrightarrow> (\<not> b \<Longrightarrow> raises_documented n) \<Longrightarrow> raises_documented (if b then m else n)"
  by simp

text \<open>
  Claim C39. Whatever the Redis service does, and whatever the client library raises, an exception of one of these
  operations is a ValueError, a PoolDestroyedException or a PoolStateStoreUnavailableException, the classes that the
  pool, the reconciler and the pool manager handle; only exceptions outside the class Exception pass unchanged.
\<close>

theorem redis_errors_are_documented:
  "raises_documented (rp_try_take_idle self p) \<and> raises_documented (rp_try_take_idle_min_ttl self p ttl) \<and>
   raises_documented (rp_remove_idle self p x) \<and> raises_documented (rp_try_acquire_primary_lock self p w ttl) \<and>
   raises_documented (rp_renew_primary_lock self p w ttl) \<and> raises_documented (rp_release_primary_lock self p w) \<and>
   raises_documented (rp_reap_expired_idle_min_ttl self p now ttl) \<and> raises_documented (rp_snapshot_counters self p) \<and>
   raises_documented (rp_snapshot_idle_entries self p) \<and> raises_documented (rp_get_max_idle self p) \<and>
   raises_documented (rp_set_max_idle self p n) \<and> raises_documented (rp_set_idle_entry_ttl self p ttl) \<and>
   raises_documented (rp_get_destroy_state self p) \<and> raises_documented (rp_begin_destroy self p w) \<and>
   raises_documented (rp_clear_pool_state self p) \<and> raises_documented (rp_mark_destroyed self p w tombstone)"
  unfolding rp_try_take_idle_min_ttl_def rp_try_take_idle_def rp_eval_take_idle_def rp_remove_idle_def
    rp_try_acquire_primary_lock_def rp_renew_primary_lock_def validate_owner_and_ttl_def rp_release_primary_lock_def
    rp_reap_expired_idle_min_ttl_def rp_reap_expired_idle_def rp_reap_idle_def rp_snapshot_counters_def
    rp_snapshot_idle_entries_def rp_get_max_idle_def rp_set_max_idle_def rp_set_idle_entry_ttl_def rp_get_destroy_state_def
    rp_begin_destroy_def rp_clear_pool_state_def rp_mark_destroyed_def
  by (intro conjI errors_intros)

text \<open>
  \<open>put_idle\<close> is the exception: a stored time to live beyond the range of \<open>timedelta\<close> escapes as an OverflowError,
  which is converted outside \<open>_execute\<close>.
\<close>

lemma put_idle_overflows:
  "fst (rp_put_idle demo_redis ''p'' ''x''
     (slow_redis\<lparr>ks_data := [pkey DEFAULT_KEY_PREFIX ''p'' ''idleTtlMillis'' \<mapsto> (RString (str_of_int TIMEDELTA_MAX_MS), None)]\<rparr>)) =
   Inl (OverflowError ''days; must have magnitude <= 999999999'')"
proof -
  have "\<not> is_blank ''x''" by code_simp
  moreover have "py_int_of_str (str_of_int TIMEDELTA_MAX_MS) = Some TIMEDELTA_MAX_MS"
  proof (rule py_int_of_str_of_int)
    have "\<bar>TIMEDELTA_MAX_MS\<bar> < 10 ^ 18" by (simp add: TIMEDELTA_MAX_MS_def)
    also have "(10 :: int) ^ 18 \<le> 10 ^ 4300" by (rule power_increasing) simp_all
    finally show "\<bar>TIMEDELTA_MAX_MS\<bar> < 10 ^ 4300" .
  qed
  moreover have "rp_key_prefix demo_redis = DEFAULT_KEY_PREFIX" by (simp add: demo_redis_def RedisPoolStateStore_init_def)
  ultimately show ?thesis by (simp add: rp_put_idle_def rp_resolve_idle_ttl_def fence_eval)
qed

end
