(* ===== verification/Redis_Idle.thy ===== *)
theory Redis_Idle
  imports Redis_Fence
begin

text \<open>
  The idle buffer in Redis, a list of ids and a hash of their expiries, refines the abstract FIFO: the take script
  is the loop of the in-memory store run over the two keys, and the store satisfies the contract \<open>idle_store\<close> that the
  pool and the reconciler are proved against.
\<close>

section \<open>The two keys of a pool\<close>

definition list_at :: "Keyspace \<Rightarrow> string \<Rightarrow> string list" where
  "list_at s k = (case ks_data s k of Some (RList xs, _) \<Rightarrow> xs | _ \<Rightarrow> [])"

definition hash_at :: "Keyspace \<Rightarrow> string \<Rightarrow> (string \<times> string) list" where
  "hash_at s k = (case ks_data s k of Some (RHash h, _) \<Rightarrow> h | _ \<Rightarrow> [])"

definition entry_at :: "string \<times> string \<Rightarrow> string \<times> IdleEntry" where
  "entry_at = (\<lambda>(x, v). (x, \<lparr>ent_sandbox_id = x, expires_at = milliseconds (the (lua_tonumber v))\<rparr>))"

definition redis_pool :: "Keyspace \<Rightarrow> string \<Rightarrow> string \<Rightarrow> PoolIdleState" where
  "redis_pool s l h = \<lparr>entries = map entry_at (hash_at s h), queue = list_at s l\<rparr>"

text \<open>The keys hold a list of names and a hash of numbers, and do not expire.\<close>

definition idle_keys_ok :: "Keyspace \<Rightarrow> string \<Rightarrow> string \<Rightarrow> bool" where
  "idle_keys_ok s l h \<longleftrightarrow>
     l \<noteq> h \<and> (\<forall>c. ks_data s l = Some c \<longrightarrow> (\<exists>xs. c = (RList xs, None) \<and> [] \<notin> set xs)) \<and>
     (\<forall>c. ks_data s h = Some c \<longrightarrow> (\<exists>m. c = (RHash m, None) \<and> snd ` set m \<subseteq> range str_of_int))"

lemma entry_at_simp [simp]: "entry_at (x, v) = (x, \<lparr>ent_sandbox_id = x, expires_at = milliseconds (the (lua_tonumber v))\<rparr>)"
  by (simp add: entry_at_def)

lemma lua_tonumber_digits: "list_all is_digit ds \<Longrightarrow> ds \<noteq> [] \<Longrightarrow> lua_tonumber ds = Some (int (nat_of_digits ds))"
proof (cases ds)
  case (Cons c cs)
  assume "list_all is_digit ds"
  moreover have "\<not> is_digit (CHR ''-'')" by code_simp
  ultimately have "c \<noteq> CHR ''-''" using Cons by auto
  with \<open>list_all is_digit ds\<close> show ?thesis by (simp add: Cons lua_tonumber_def)
qed simp

lemma lua_tonumber_str [simp]: "lua_tonumber (str_of_int n) = Some n"
proof -
  have d: "nat_of_digits (digits_of_nat k) = k" "list_all is_digit (digits_of_nat k)" "digits_of_nat k \<noteq> []" for k
    using digits_of_nat_facts by simp_all
  show ?thesis
  proof (cases "n < 0")
    case True
    with d show ?thesis by (simp add: str_of_int_def lua_tonumber_def)
  next
    case False
    then show ?thesis by (simp add: str_of_int_def lua_tonumber_digits [OF d(2,3)] d(1))
  qed
qed

lemma list_key_cases:
  assumes "idle_keys_ok s l h"
  obtains "ks_data s l = None" "list_at s l = []"
    | "ks_data s l = Some (RList (list_at s l), None)" "[] \<notin> set (list_at s l)"
  using assms by (cases "ks_data s l") (auto simp: idle_keys_ok_def list_at_def)

lemma hash_key_cases:
  assumes "idle_keys_ok s l h"
  obtains "ks_data s h = None" "hash_at s h = []"
    | "ks_data s h = Some (RHash (hash_at s h), None)" "snd ` set (hash_at s h) \<subseteq> range str_of_int"
  using assms by (cases "ks_data s h") (auto simp: idle_keys_ok_def hash_at_def)

lemma idle_reads:
  assumes "idle_keys_ok s l h"
  shows "k_list l s = (Inr (list_at s l), s)" and "k_hash h s = (Inr (hash_at s h), s)"
  by (rule list_key_cases [OF assms]; simp add: k_list_def k_entry_def live_entry_def)
     (rule hash_key_cases [OF assms]; simp add: k_hash_def k_entry_def live_entry_def)

lemma list_names: "idle_keys_ok s l h \<Longrightarrow> [] \<notin> set (list_at s l)"
  by (erule list_key_cases) simp_all

lemma hash_at_values: "idle_keys_ok s l h \<Longrightarrow> snd ` set (hash_at s h) \<subseteq> range str_of_int"
  by (erule hash_key_cases) simp_all

lemma hash_values:
  assumes "idle_keys_ok s l h" and "map_of (hash_at s h) x = Some v"
  shows "\<exists>n. v = str_of_int n"
  using hash_at_values [OF assms(1)] map_of_SomeD [OF assms(2)] by force

text \<open>Writing the keys.\<close>

lemma k_store_data:
  assumes "\<And>c. ks_data s k = Some c \<Longrightarrow> snd c = None"
  shows "ks_data (k_store k v s) = (ks_data s)(k := if v = RList [] \<or> v = RHash [] then None else Some (v, None))"
    and "ks_us (k_store k v s) = ks_us s"
  using assms by (auto simp: k_store_def k_entry_def live_entry_def fun_eq_iff split: option.splits)

lemma persistent:
  assumes "idle_keys_ok s l h"
  shows "ks_data s l = Some c \<Longrightarrow> snd c = None" and "ks_data s h = Some c \<Longrightarrow> snd c = None"
  using assms by (auto simp: idle_keys_ok_def)

lemma put_list_run:
  assumes "idle_keys_ok s l h" and "[] \<notin> set xs"
  obtains s' where "k_put_list l xs s = (Inr (), s')" and "idle_keys_ok s' l h" and "list_at s' l = xs"
    and "hash_at s' h = hash_at s h" and "ks_us s' = ks_us s"
proof
  have d: "ks_data (k_store l (RList xs) s) = (ks_data s)(l := if xs = [] then None else Some (RList xs, None))"
    "ks_us (k_store l (RList xs) s) = ks_us s"
    using k_store_data [of s l "RList xs", OF persistent(1) [OF assms(1)]] by simp_all
  show "k_put_list l xs s = (Inr (), k_store l (RList xs) s)" by (simp add: k_put_list_def)
  show "idle_keys_ok (k_store l (RList xs) s) l h" "list_at (k_store l (RList xs) s) l = xs"
    "hash_at (k_store l (RList xs) s) h = hash_at s h" "ks_us (k_store l (RList xs) s) = ks_us s"
    using assms d by (auto simp: idle_keys_ok_def list_at_def hash_at_def)
qed

lemma put_hash_run:
  assumes "idle_keys_ok s l h" and "snd ` set m \<subseteq> range str_of_int"
  obtains s' where "k_put_hash h m s = (Inr (), s')" and "idle_keys_ok s' l h" and "hash_at s' h = m"
    and "list_at s' l = list_at s l" and "ks_us s' = ks_us s"
proof
  have d: "ks_data (k_store h (RHash m) s) = (ks_data s)(h := if m = [] then None else Some (RHash m, None))"
    "ks_us (k_store h (RHash m) s) = ks_us s"
    using k_store_data [of s h "RHash m", OF persistent(2) [OF assms(1)]] by simp_all
  show "k_put_hash h m s = (Inr (), k_store h (RHash m) s)" by (simp add: k_put_hash_def)
  show "idle_keys_ok (k_store h (RHash m) s) l h" "hash_at (k_store h (RHash m) s) h = m"
    "list_at (k_store h (RHash m) s) l = list_at s l" "ks_us (k_store h (RHash m) s) = ks_us s"
    using assms d by (auto simp: idle_keys_ok_def list_at_def hash_at_def)
qed

lemma values_delete: "snd ` set m \<subseteq> X \<Longrightarrow> snd ` set (AList.delete x m) \<subseteq> X"
  by (auto simp: AList.delete_eq)

lemma map_of_entries: "map_of (map entry_at m) x = map_option (\<lambda>v. snd (entry_at (x, v))) (map_of m x)"
  by (induction m) auto

lemma entries_delete: "map entry_at (AList.delete x m) = AList.delete x (map entry_at m)"
  by (induction m) auto

section \<open>The take script\<close>

lemma take_idle_loop_run:
  assumes "idle_keys_ok s l h"
  shows "wp (take_idle_loop ref_redis l h now cutoff n d)
    (\<lambda>r s'. idle_keys_ok s' l h \<and>
       take_min_loop (milliseconds now) (milliseconds cutoff) d (map entry_at (hash_at s h)) (list_at s l) =
         (decode_take_idle_result r, redis_pool s' l h))
    (\<lambda>_ _. n \<le> length (list_at s l)) s"
  using assms
proof (induction n arbitrary: s d)
  case (Suc n)
  note ok = Suc.prems
  show ?case
  proof (cases "list_at s l")
    case Nil
    with idle_reads [OF ok] ok show ?thesis
      by (simp add: wp_def bindM_run ref_sel decode_take_idle_result_def redis_pool_def)
  next
    case (Cons x q)
    have q: "[] \<notin> set q" "x \<noteq> []" using list_names [OF ok] Cons by auto
    obtain s1 where s1: "k_put_list l q s = (Inr (), s1)" "idle_keys_ok s1 l h" "list_at s1 l = q" "hash_at s1 h = hash_at s h"
      using put_list_run [OF ok q(1)] .
    have pop: "rd_lpop ref_redis l s = (Inr (Some x), s1)"
      using idle_reads(1) [OF ok] Cons s1(1) by (simp add: ref_sel bindM_run thenM_run)
    have get: "rd_hget ref_redis h x s1 = (Inr (map_of (hash_at s h) x), s1)"
      using idle_reads(2) [OF s1(2)] s1(4) by (simp add: ref_sel bindM_run)
    show ?thesis
    proof (cases "map_of (hash_at s h) x")
      case None
      with Suc.IH [OF s1(2), of d] Cons s1(3,4) pop get show ?thesis
        by (simp add: wp_def bindM_run map_of_entries)
    next
      case (Some v)
      then obtain e where v: "v = str_of_int e" using hash_values [OF ok] by blast
      obtain s2 where s2: "k_put_hash h (AList.delete x (hash_at s h)) s1 = (Inr (), s2)" "idle_keys_ok s2 l h"
        "hash_at s2 h = AList.delete x (hash_at s h)" "list_at s2 l = q"
        using put_hash_run [OF s1(2) values_delete [OF hash_at_values [OF s1(2)]], of x] s1(3,4) by metis
      have del: "rd_hdel ref_redis h x s1 = (Inr (), s2)"
        using idle_reads(2) [OF s1(2)] s1(4) s2(1) by (simp add: ref_sel bindM_run)
      note run = pop get del Some v Cons s2(3,4)
      show ?thesis
      proof (cases "cutoff < e")
        case True
        with run s2(2) q(2) show ?thesis
          by (simp add: wp_def bindM_run thenM_run lua_number_def map_of_entries entries_delete decode_take_idle_result_def
              redis_pool_def)
      next
        case False
        with Suc.IH [OF s2(2), of "if now < e then d @ [x] else d"] run show ?thesis
          by (auto simp: wp_def bindM_run thenM_run lua_number_def map_of_entries entries_delete Let_def
              split: if_splits prod.splits sum.splits)
      qed
    qed
  qed
qed (simp add: wp_simps)

section \<open>The contract\<close>

definition rp_list_key :: "string \<Rightarrow> string \<Rightarrow> string" where
  "rp_list_key pre p = pkey pre p ''idle:list''"

definition rp_hash_key :: "string \<Rightarrow> string \<Rightarrow> string" where
  "rp_hash_key pre p = pkey pre p ''idle:expires''"

definition rp_pool :: "string \<Rightarrow> Keyspace \<Rightarrow> string \<Rightarrow> PoolIdleState" where
  "rp_pool pre s p = redis_pool s (rp_list_key pre p) (rp_hash_key pre p)"

text \<open>The abstraction of the store: the FIFO list of each pool, and the representation invariant of all of them.\<close>

definition rp_idle :: "string \<Rightarrow> Keyspace \<Rightarrow> string \<Rightarrow> idle_list" where
  "rp_idle pre s p = idle_of (rp_pool pre s p)"

definition rp_pool_ok :: "string \<Rightarrow> Keyspace \<Rightarrow> string \<Rightarrow> bool" where
  "rp_pool_ok pre s p \<longleftrightarrow> idle_keys_ok s (rp_list_key pre p) (rp_hash_key pre p) \<and> idle_inv (rp_pool pre s p)"

definition rp_ok :: "string \<Rightarrow> Keyspace \<Rightarrow> bool" where
  "rp_ok pre s \<longleftrightarrow> (\<forall>p. rp_pool_ok pre s p)"

text \<open>Only the two keys of a pool matter, and no request on another pool touches them.\<close>

lemma pool_frame:
  assumes "ks_data s' (rp_list_key pre p) = ks_data s (rp_list_key pre p)"
    and "ks_data s' (rp_hash_key pre p) = ks_data s (rp_hash_key pre p)"
  shows "rp_pool pre s' p = rp_pool pre s p" and "rp_pool_ok pre s' p = rp_pool_ok pre s p"
  using assms by (simp_all add: rp_pool_def rp_pool_ok_def redis_pool_def list_at_def hash_at_def idle_keys_ok_def)

lemma same_data:
  assumes "ks_data s' = ks_data s"
  shows "rp_idle pre s' = rp_idle pre s" and "rp_ok pre s' = rp_ok pre s"
  using pool_frame [of s' pre _ s] assms by (simp_all add: rp_idle_def rp_ok_def fun_eq_iff)

lemma same_hash: "ks_data s' = ks_data s \<Longrightarrow> hash_at s' = hash_at s"
  by (simp add: hash_at_def fun_eq_iff)

text \<open>A computation on the pool \<open>p\<close>: it leaves the two keys of the others alone.\<close>

definition local_to :: "string \<Rightarrow> string \<Rightarrow> (Keyspace, 'a) M \<Rightarrow> bool" where
  "local_to pre p m \<longleftrightarrow>
     (\<forall>q. q \<noteq> p \<longrightarrow> keeps m (cell (rp_list_key pre q)) \<and> keeps m (cell (rp_hash_key pre q)))"

lemma local_run:
  assumes "local_to pre p m" and "m s = (r, s')" and "rp_ok pre s" and "rp_pool_ok pre s' p"
  shows "rp_ok pre s'" and "rp_idle pre s' = (rp_idle pre s)(p := rp_idle pre s' p)"
proof -
  have f: "rp_pool pre s' q = rp_pool pre s q" "rp_pool_ok pre s' q = rp_pool_ok pre s q" if "q \<noteq> p" for q
  proof -
    have "cell (rp_list_key pre q) s' = cell (rp_list_key pre q) s" "cell (rp_hash_key pre q) s' = cell (rp_hash_key pre q) s"
      using assms(1,2) that by (auto simp: local_to_def intro: keeps_run)
    then show "rp_pool pre s' q = rp_pool pre s q" "rp_pool_ok pre s' q = rp_pool_ok pre s q"
      using pool_frame [of s' pre q s] by (simp_all add: cell_def)
  qed
  show "rp_ok pre s'" using assms(3,4) f(2) unfolding rp_ok_def by metis
  show "rp_idle pre s' = (rp_idle pre s)(p := rp_idle pre s' p)" using f(1) by (auto simp: fun_eq_iff rp_idle_def)
qed

section \<open>Calls with their failures\<close>

lemma wp_link_any:
  assumes "\<And>s'. k_ms s \<le> k_ms s' \<Longrightarrow> ks_data s' = ks_data s \<Longrightarrow> Q () s'"
    and "\<And>e s'. k_ms s \<le> k_ms s' \<Longrightarrow> ks_data s' = ks_data s \<Longrightarrow> E e s'"
  shows "wp (rd_link ref_redis) Q E s"
  using link_run [of s] assms by (cases "k_link s") (simp add: wp_def ref_sel split: sum.split)

lemma wp_round_trip_any:
  assumes "\<And>s'. k_ms s \<le> k_ms s' \<Longrightarrow> ks_data s' = ks_data s \<Longrightarrow> F s'"
    and "\<And>s1. k_ms s \<le> k_ms s1 \<Longrightarrow> ks_data s1 = ks_data s \<Longrightarrow>
      wp m (\<lambda>a s2. \<forall>s'. ks_data s' = ks_data s2 \<longrightarrow> Q a s' \<and> F s') (\<lambda>_. F) s1"
  shows "wp (round_trip ref_redis m) Q (\<lambda>_. F) s"
  unfolding round_trip_def wp_simps
  by (rule wp_link_any) (auto intro: assms(1) wp_mono [OF assms(2)] wp_link_any simp: wp_simps)

lemma wp_execute_any: "wp m Q (\<lambda>_. F) s \<Longrightarrow> wp (rp_execute operation p m) Q (\<lambda>_. F) s"
  unfolding rp_execute_def wp_catchM by (erule wp_mono) (auto simp: wp_simps)

lemma now_ms_run: "now_ms ref_redis s = (Inr (int (k_ms s)), s)"
proof -
  have "u div 1000 = u div 1000000 * 1000 + u mod 1000000 div 1000" for u :: nat
    using div_mult2_eq [of u 1000 1000] mod_mult2_eq [of u 1000 1000] div_mult_mod_eq [of "u div 1000" 1000] by simp
  from this [of "ks_us s"] show ?thesis by (simp add: now_ms_def ref_sel bindM_run k_ms_def zdiv_int)
qed

lemma local_scripts:
  "local_to pre p (TAKE_IDLE_SCRIPT ref_redis n (rp_list_key pre p) (rp_hash_key pre p) a)"
  "local_to pre p (PUT_IDLE_SCRIPT ref_redis (rp_list_key pre p) (rp_hash_key pre p) d x a)"
  by (auto simp: local_to_def rp_list_key_def rp_hash_key_def intro!: keeps_scripts)

text \<open>The take script on a pool that satisfies the invariant.\<close>

lemma take_script:
  assumes "rp_ok pre s"
  shows "wp (TAKE_IDLE_SCRIPT ref_redis n (rp_list_key pre p) (rp_hash_key pre p) (str_of_int m))
    (\<lambda>r s'. rp_ok pre s' \<and> rp_idle pre s' = (rp_idle pre s)(p := rp_idle pre s' p) \<and>
       take_min_spec (milliseconds (int (k_ms s))) (milliseconds (int (k_ms s) + m)) (rp_idle pre s p) =
         (decode_take_idle_result r, rp_idle pre s' p))
    (\<lambda>_ _. n \<le> length (list_at s (rp_list_key pre p))) s" (is "wp ?take ?Q ?E s")
proof (rule wpI)
  let ?l = "rp_list_key pre p" and ?h = "rp_hash_key pre p"
  have ok: "idle_keys_ok s ?l ?h" "idle_inv (redis_pool s ?l ?h)" using assms by (auto simp: rp_ok_def rp_pool_ok_def rp_pool_def)
  have run: "?take s = take_idle_loop ref_redis ?l ?h (int (k_ms s)) (int (k_ms s) + m) n [] s"
    by (simp add: TAKE_IDLE_SCRIPT_def bindM_run now_ms_run lua_number_or_0_def)
  note loop = take_idle_loop_run [OF ok(1), of "int (k_ms s)" "int (k_ms s) + m" n "[]"]
  show "?E e s'" if "?take s = (Inl e, s')" for e s' using wp_exn [OF loop] that run by simp
  show "?Q r s'" if t: "?take s = (Inr r, s')" for r s'
  proof -
    have k: "idle_keys_ok s' ?l ?h" and m: "take_min_loop (milliseconds (int (k_ms s))) (milliseconds (int (k_ms s) + m)) []
        (map entry_at (hash_at s ?h)) (list_at s ?l) = (decode_take_idle_result r, redis_pool s' ?l ?h)"
      using wp_run [OF loop] t run by simp_all
    have inv: "idle_inv (redis_pool s' ?l ?h)" using take_min_loop_inv [OF _ m] ok(2) by (simp add: redis_pool_def)
    have "rp_pool_ok pre s' p" using k inv by (simp add: rp_pool_ok_def rp_pool_def)
    note frame = local_run [OF local_scripts(1) t assms this]
    from take_min_loop_refines [OF m] have "take_min_spec (milliseconds (int (k_ms s))) (milliseconds (int (k_ms s) + m))
        (rp_idle pre s p) = (decode_take_idle_result r, rp_idle pre s' p)"
      by (auto simp: rp_idle_def rp_pool_def redis_pool_def idle_of_def prepend_discarded_def)
    with frame show ?thesis by blast
  qed
qed

lemma client_take:
  assumes "rp_redis self = ref_redis" and "rp_ok (rp_key_prefix self) s"
    and "length (list_at s (rp_list_key (rp_key_prefix self) p)) < rp_fuel self"
  shows "wp (rp_eval_take_idle self p (str_of_int m))
    (\<lambda>r s'. \<exists>now \<ge> int (k_ms s). rp_ok (rp_key_prefix self) s' \<and>
       rp_idle (rp_key_prefix self) s' = (rp_idle (rp_key_prefix self) s)(p := rp_idle (rp_key_prefix self) s' p) \<and>
       take_min_spec (milliseconds now) (milliseconds (now + m)) (rp_idle (rp_key_prefix self) s p) =
         (r, rp_idle (rp_key_prefix self) s' p))
    (\<lambda>_ s'. rp_ok (rp_key_prefix self) s' \<and>
       (rp_idle (rp_key_prefix self) s' = rp_idle (rp_key_prefix self) s \<or>
        (\<exists>now \<ge> int (k_ms s). rp_idle (rp_key_prefix self) s' = (rp_idle (rp_key_prefix self) s)
           (p := snd (take_min_spec (milliseconds now) (milliseconds (now + m)) (rp_idle (rp_key_prefix self) s p)))))) s"
    (is "wp _ ?Q (\<lambda>_. ?F) s")
proof -
  let ?pre = "rp_key_prefix self"
  have trip: "wp (round_trip ref_redis (TAKE_IDLE_SCRIPT ref_redis (rp_fuel self) (rp_list_key ?pre p) (rp_hash_key ?pre p) (str_of_int m)))
      (\<lambda>r. ?Q (decode_take_idle_result r)) (\<lambda>_. ?F) s"
  proof (rule wp_round_trip_any)
    show "?F s'" if "ks_data s' = ks_data s" for s' using same_data [OF that] assms(2) by simp
    fix s1
    assume s1: "k_ms s \<le> k_ms s1" "ks_data s1 = ks_data s"
    note same = same_data [OF s1(2), of ?pre]
    have "rp_ok ?pre s1" using same assms(2) by simp
    from take_script [OF this, of "rp_fuel self" p m]
    show "wp (TAKE_IDLE_SCRIPT ref_redis (rp_fuel self) (rp_list_key ?pre p) (rp_hash_key ?pre p) (str_of_int m))
        (\<lambda>r s2. \<forall>s'. ks_data s' = ks_data s2 \<longrightarrow> ?Q (decode_take_idle_result r) s' \<and> ?F s') (\<lambda>_. ?F) s1"
    proof (rule wp_mono)
      fix r s2
      assume post: "rp_ok ?pre s2 \<and> rp_idle ?pre s2 = (rp_idle ?pre s1)(p := rp_idle ?pre s2 p) \<and>
          take_min_spec (milliseconds (int (k_ms s1))) (milliseconds (int (k_ms s1) + m)) (rp_idle ?pre s1 p) =
            (decode_take_idle_result r, rp_idle ?pre s2 p)"
      show "\<forall>s'. ks_data s' = ks_data s2 \<longrightarrow> ?Q (decode_take_idle_result r) s' \<and> ?F s'"
      proof (intro allI impI)
        fix s' :: Keyspace
        assume "ks_data s' = ks_data s2"
        note same' = same_data [OF this, of ?pre]
        have "?Q (decode_take_idle_result r) s'"
          unfolding same' using post s1(1) unfolding same by (intro exI [of _ "int (k_ms s1)"]) simp
        moreover have "?F s'"
          unfolding same' using post s1(1) unfolding same by (metis of_nat_mono snd_conv)
        ultimately show "?Q (decode_take_idle_result r) s' \<and> ?F s'" by blast
      qed
    next
      assume "rp_fuel self \<le> length (list_at s1 (rp_list_key ?pre p))"
      with assms(3) show "?F s'" for s' by (simp add: list_at_def s1(2))
    qed
  qed
  have "?F s" using assms(2) by simp
  then show ?thesis
    unfolding rp_eval_take_idle_def key_defs assms(1) wp_bindM
    by (intro wp_execute_any) (use trip in \<open>auto simp: wp_simps rp_list_key_def rp_hash_key_def\<close>)
qed

lemma no_discards: "take_min_spec t t xs = (r, ys) \<Longrightarrow> discarded_alive_sandbox_ids r = []"
  using take_min_spec_split [of t t xs r ys] by (auto simp: filter_empty_conv)

text \<open>
  Claim C27. A take on Redis is a take of the abstract FIFO: on a pool that satisfies the representation invariant,
  \<open>try_take_idle_min_ttl\<close> returns the oldest sandbox that lives longer than the requested time, with those skipped
  that are still alive, at the server's time of the script, which is not before the call; the other pools keep theirs,
  and the loop of the script ends. When the call raises, either nothing was taken or the take happened and its
  reply was lost; the invariant holds in every case.
\<close>

theorem redis_take_is_fifo:
  fixes self :: "'s RedisPoolStateStore"
  defines "pre \<equiv> rp_key_prefix self"
  assumes "redis_service (rp_redis self) ks" and "rp_ok pre (ks s)"
    and "length (list_at (ks s) (rp_list_key pre p)) < rp_fuel self" and "m = (if ttl \<le> 0 then 0 else max 0 (millis ttl))"
  shows "wp (rp_try_take_idle_min_ttl self p ttl)
    (\<lambda>r s'. rp_ok pre (ks s') \<and> (\<exists>now \<ge> int (k_ms (ks s)).
       rp_idle pre (ks s') = (rp_idle pre (ks s))(p := rp_idle pre (ks s') p) \<and>
       take_min_spec (milliseconds now) (milliseconds (now + m)) (rp_idle pre (ks s) p) = (r, rp_idle pre (ks s') p)))
    (\<lambda>_ s'. rp_ok pre (ks s') \<and> (rp_idle pre (ks s') = rp_idle pre (ks s) \<or>
       (\<exists>now \<ge> int (k_ms (ks s)). rp_idle pre (ks s') = (rp_idle pre (ks s))
          (p := snd (take_min_spec (milliseconds now) (milliseconds (now + m)) (rp_idle pre (ks s) p)))))) s"
proof -
  let ?R = "ref_store self"
  have pre: "pre = rp_key_prefix ?R" by (simp add: pre_def)
  have take: "wp (rp_eval_take_idle ?R p (str_of_int m))
    (\<lambda>r s'. \<exists>now \<ge> int (k_ms (ks s)). rp_ok pre s' \<and> rp_idle pre s' = (rp_idle pre (ks s))(p := rp_idle pre s' p) \<and>
       take_min_spec (milliseconds now) (milliseconds (now + m)) (rp_idle pre (ks s) p) = (r, rp_idle pre s' p))
    (\<lambda>_ s'. rp_ok pre s' \<and> (rp_idle pre s' = rp_idle pre (ks s) \<or>
       (\<exists>now \<ge> int (k_ms (ks s)). rp_idle pre s' = (rp_idle pre (ks s))
          (p := snd (take_min_spec (milliseconds now) (milliseconds (now + m)) (rp_idle pre (ks s) p)))))) (ks s)"
    unfolding pre by (rule client_take) (use assms in \<open>simp_all add: pre\<close>)
  have zero: "''0'' = str_of_int 0" by code_simp
  have "wp (rp_try_take_idle_min_ttl ?R p ttl)
    (\<lambda>r s'. rp_ok pre s' \<and> (\<exists>now \<ge> int (k_ms (ks s)). rp_idle pre s' = (rp_idle pre (ks s))(p := rp_idle pre s' p) \<and>
       take_min_spec (milliseconds now) (milliseconds (now + m)) (rp_idle pre (ks s) p) = (r, rp_idle pre s' p)))
    (\<lambda>_ s'. rp_ok pre s' \<and> (rp_idle pre s' = rp_idle pre (ks s) \<or>
       (\<exists>now \<ge> int (k_ms (ks s)). rp_idle pre s' = (rp_idle pre (ks s))
          (p := snd (take_min_spec (milliseconds now) (milliseconds (now + m)) (rp_idle pre (ks s) p)))))) (ks s)"
  proof (cases "ttl \<le> 0")
    case True
    then have "m = 0" using assms(5) by simp
    with True show ?thesis
      unfolding rp_try_take_idle_min_ttl_def rp_try_take_idle_def zero
      by (simp add: wp_simps) (rule wp_mono [OF take [unfolded \<open>m = 0\<close>]]; force dest: no_discards)
  next
    case False
    then have eval: "rp_try_take_idle_min_ttl ?R p ttl = rp_eval_take_idle ?R p (str_of_int m)"
      using assms(5) by (simp add: rp_try_take_idle_min_ttl_def)
    show ?thesis unfolding eval by (rule wp_mono [OF take]) auto
  qed
  from refines_wp [OF redis_service.store_refines(2) [OF assms(2) refl] this] show ?thesis .
qed

section \<open>The other operations\<close>

lemma idle_inv_pool:
  "idle_inv (redis_pool s l h) \<longleftrightarrow> distinct (map fst (hash_at s h)) \<and> fst ` set (hash_at s h) \<subseteq> set (list_at s l)"
proof -
  have "fst (entry_at x) = fst x" for x by (simp add: entry_at_def split: prod.splits)
  then have "fst \<circ> entry_at = fst" by auto
  then show ?thesis
    by (auto simp: idle_inv_def redis_pool_def image_comp entry_at_def split: prod.splits)
qed

lemma rp_pool_ids:
  assumes "rp_pool_ok pre s p"
  shows "fst ` set (rp_idle pre s p) = fst ` set (hash_at s (rp_hash_key pre p))"
    and "length (rp_idle pre s p) = length (hash_at s (rp_hash_key pre p))"
proof -
  have inv: "idle_inv (rp_pool pre s p)" using assms by (simp add: rp_pool_ok_def)
  have "fst ` set (map entry_at m) = fst ` set m" for m by (induction m) (auto simp: entry_at_def split: prod.splits)
  with fst_idle_of [OF inv] show "fst ` set (rp_idle pre s p) = fst ` set (hash_at s (rp_hash_key pre p))"
    by (simp add: rp_idle_def rp_pool_def redis_pool_def)
  show "length (rp_idle pre s p) = length (hash_at s (rp_hash_key pre p))"
    using length_idle_of [OF inv] by (simp add: rp_idle_def rp_pool_def redis_pool_def)
qed

text \<open>What a put leaves behind, when it is not refused.\<close>

definition put_post :: "string \<Rightarrow> string \<Rightarrow> string \<Rightarrow> Keyspace \<Rightarrow> Keyspace \<Rightarrow> bool" where
  "put_post pre p x s s' \<longleftrightarrow>
     rp_ok pre s' \<and> x \<in> fst ` set (rp_idle pre s' p) \<and> fst ` set (rp_idle pre s' p) \<subseteq> insert x (fst ` set (rp_idle pre s p)) \<and>
     length (rp_idle pre s' p) \<le> Suc (length (rp_idle pre s p)) \<and> (\<forall>q. q \<noteq> p \<longrightarrow> rp_idle pre s' q = rp_idle pre s q)"

lemma put_script_hash:
  assumes "rp_ok pre s" and "PUT_IDLE_SCRIPT ref_redis (rp_list_key pre p) (rp_hash_key pre p) d x a s = (Inr r, s')"
    and "idle_keys_ok s' (rp_list_key pre p) (rp_hash_key pre p)"
    and "hash_at s' (rp_hash_key pre p) = AList.update x v (hash_at s (rp_hash_key pre p))"
    and "x \<in> set (list_at s' (rp_list_key pre p))" and "set (list_at s (rp_list_key pre p)) \<subseteq> set (list_at s' (rp_list_key pre p))"
  shows "put_post pre p x s s'"
proof -
  let ?m = "hash_at s (rp_hash_key pre p)"
  have okp: "rp_pool_ok pre s p" using assms(1) by (simp add: rp_ok_def)
  then have inv: "distinct (map fst ?m)" "fst ` set ?m \<subseteq> set (list_at s (rp_list_key pre p))"
    by (simp_all add: rp_pool_ok_def rp_pool_def idle_inv_pool)
  have u: "distinct (map fst (AList.update x v ?m))" "fst ` set (AList.update x v ?m) = insert x (fst ` set ?m)"
    using inv(1) by (auto simp: distinct_update dom_update)
  have len: "length (AList.update x v m) \<le> Suc (length m)" for m by (induction m) auto
  have okp': "rp_pool_ok pre s' p"
    using assms(3-6) u inv(2) by (auto simp: rp_pool_ok_def rp_pool_def idle_inv_pool)
  from local_run [OF local_scripts(2) assms(2,1) okp'] rp_pool_ids [OF okp] rp_pool_ids [OF okp'] u len assms(4)
  show ?thesis by (simp add: put_post_def) (metis fun_upd_other)
qed

lemma values_update: "snd ` set m \<subseteq> X \<Longrightarrow> v \<in> X \<Longrightarrow> snd ` set (AList.update x v m) \<subseteq> X"
  by (induction m) (auto split: if_splits)

lemma rpush_run:
  assumes "idle_keys_ok s l h" and "x \<noteq> []"
  obtains s' where "rd_rpush ref_redis l x s = (Inr (), s')" and "idle_keys_ok s' l h" and "list_at s' l = list_at s l @ [x]"
    and "hash_at s' h = hash_at s h"
proof -
  have "[] \<notin> set (list_at s l @ [x])" using list_names [OF assms(1)] assms(2) by simp
  from put_list_run [OF assms(1) this] obtain s' where "k_put_list l (list_at s l @ [x]) s = (Inr (), s')"
    "idle_keys_ok s' l h" "list_at s' l = list_at s l @ [x]" "hash_at s' h = hash_at s h" by blast
  with idle_reads(1) [OF assms(1)] show thesis by (intro that [of s']) (simp_all add: ref_sel bindM_run)
qed

lemma hset_run:
  assumes "idle_keys_ok s l h"
  obtains s' where "rd_hset ref_redis h x (str_of_int n) s = (Inr (), s')" and "idle_keys_ok s' l h"
    and "list_at s' l = list_at s l" and "hash_at s' h = AList.update x (str_of_int n) (hash_at s h)"
proof -
  have "snd ` set (AList.update x (str_of_int n) (hash_at s h)) \<subseteq> range str_of_int"
    by (rule values_update [OF hash_at_values [OF assms]]) simp
  from put_hash_run [OF assms this] obtain s' where "k_put_hash h (AList.update x (str_of_int n) (hash_at s h)) s = (Inr (), s')"
    "idle_keys_ok s' l h" "list_at s' l = list_at s l" "hash_at s' h = AList.update x (str_of_int n) (hash_at s h)" by blast
  with idle_reads(2) [OF assms] show thesis by (intro that [of s']) (simp_all add: ref_sel bindM_run)
qed

lemma put_script:
  assumes "rp_ok pre s" and "x \<noteq> []"
  shows "wp (PUT_IDLE_SCRIPT ref_redis (rp_list_key pre p) (rp_hash_key pre p) d x (str_of_int t))
    (\<lambda>r s'. r \<noteq> - 1 \<longrightarrow> put_post pre p x s s') (\<lambda>_ _. True) s" (is "wp ?put _ _ s")
proof (rule wpI)
  fix r s'
  let ?l = "rp_list_key pre p" and ?h = "rp_hash_key pre p"
  assume run: "?put s = (Inr r, s')"
  have okp: "rp_pool_ok pre s p" using assms(1) by (simp add: rp_ok_def)
  then have ok: "idle_keys_ok s ?l ?h" and inv: "fst ` set (hash_at s ?h) \<subseteq> set (list_at s ?l)"
    by (simp_all add: rp_pool_ok_def rp_pool_def idle_inv_pool)
  show "r \<noteq> - 1 \<longrightarrow> put_post pre p x s s'"
  proof
    assume "r \<noteq> - 1"
    with run have get: "k_string d s = (Inr None, s)"
      by (auto simp: PUT_IDLE_SCRIPT_def ref_sel bindM_run k_string_def split: option.splits rvalue.splits if_splits)
    show "put_post pre p x s s'"
    proof (cases "map_of (hash_at s ?h) x")
      case None
      from rpush_run [OF ok assms(2)] obtain s1 where s1: "rd_rpush ref_redis ?l x s = (Inr (), s1)" "idle_keys_ok s1 ?l ?h"
        "list_at s1 ?l = list_at s ?l @ [x]" "hash_at s1 ?h = hash_at s ?h" by blast
      from hset_run [OF s1(2), of x "int (k_ms s) + t"] obtain s2 where s2: "rd_hset ref_redis ?h x (str_of_int (int (k_ms s) + t)) s1 = (Inr (), s2)"
        "idle_keys_ok s2 ?l ?h" "list_at s2 ?l = list_at s1 ?l" "hash_at s2 ?h = AList.update x (str_of_int (int (k_ms s) + t)) (hash_at s1 ?h)" by blast
      have "?put s = (Inr 1, s2)"
        using None get s1(1) s2(1) idle_reads(2) [OF ok]
        by (simp add: PUT_IDLE_SCRIPT_def ref_sel(2,11) bindM_run thenM_run now_ms_run lua_number_def)
      with run have "s' = s2" by simp
      then show ?thesis using s1 s2 by (intro put_script_hash [OF assms(1) run]) auto
    next
      case (Some v)
      then obtain c where v: "v = str_of_int c" using hash_values [OF ok] by blast
      have x: "x \<in> fst ` set (hash_at s ?h)" using map_of_SomeD [OF Some] by force
      show ?thesis
      proof (cases "int (k_ms s) < c")
        case True
        then have "s' = s"
          using run Some v get idle_reads(2) [OF ok]
          by (simp add: PUT_IDLE_SCRIPT_def ref_sel(2,11) bindM_run thenM_run now_ms_run lua_number_def)
        with x rp_pool_ids [OF okp] assms(1) show ?thesis by (simp add: put_post_def subset_insertI)
      next
        case False
        from hset_run [OF ok, of x "int (k_ms s) + t"] obtain s2 where s2: "rd_hset ref_redis ?h x (str_of_int (int (k_ms s) + t)) s = (Inr (), s2)"
          "idle_keys_ok s2 ?l ?h" "list_at s2 ?l = list_at s ?l" "hash_at s2 ?h = AList.update x (str_of_int (int (k_ms s) + t)) (hash_at s ?h)" by blast
        have "?put s = (Inr 1, s2)"
          using Some v False get s2(1) idle_reads(2) [OF ok]
          by (simp add: PUT_IDLE_SCRIPT_def ref_sel(2,11) bindM_run thenM_run now_ms_run lua_number_def)
        with run have "s' = s2" by simp
        then show ?thesis using s2 x inv by (intro put_script_hash [OF assms(1) run]) auto
      qed
    qed
  qed
qed simp


lemma hdel_run:
  assumes "rp_ok pre s"
  shows "wp (rd_hdel ref_redis (rp_hash_key pre p) x)
    (\<lambda>_ s'. rp_ok pre s' \<and> rp_idle pre s' = (rp_idle pre s)(p := filter (\<lambda>(y, t). y \<noteq> x) (rp_idle pre s p)) \<and>
       x \<notin> fst ` set (hash_at s' (rp_hash_key pre p))) (\<lambda>_ _. True) s" (is "wp ?del _ _ s")
proof (rule wpI)
  fix r s'
  let ?l = "rp_list_key pre p" and ?h = "rp_hash_key pre p"
  assume run: "?del s = (Inr r, s')"
  have okp: "rp_pool_ok pre s p" using assms by (simp add: rp_ok_def)
  then have ok: "idle_keys_ok s ?l ?h" and inv: "idle_inv (redis_pool s ?l ?h)" by (simp_all add: rp_pool_ok_def rp_pool_def)
  from put_hash_run [OF ok values_delete [OF hash_at_values [OF ok]], of x] obtain s1 where
    s1: "k_put_hash ?h (AList.delete x (hash_at s ?h)) s = (Inr (), s1)" "idle_keys_ok s1 ?l ?h"
      "hash_at s1 ?h = AList.delete x (hash_at s ?h)" "list_at s1 ?l = list_at s ?l" by blast
  have "s' = s1" using run s1(1) idle_reads(2) [OF ok] by (simp add: ref_sel bindM_run)
  with s1 have pool: "redis_pool s' ?l ?h = (redis_pool s ?l ?h)\<lparr>entries := AList.delete x (entries (redis_pool s ?l ?h))\<rparr>"
    and x: "x \<notin> fst ` set (hash_at s' ?h)"
    by (simp_all add: redis_pool_def entries_delete) (auto simp: AList.delete_eq)
  have "rp_pool_ok pre s' p"
    using s1 \<open>s' = s1\<close> inv by (auto simp: rp_pool_ok_def rp_pool_def idle_inv_pool AList.delete_eq distinct_map_filter)
  moreover have "local_to pre p ?del" by (auto simp: local_to_def rp_list_key_def rp_hash_key_def intro!: keeps_commands)
  ultimately have "rp_ok pre s'" "rp_idle pre s' = (rp_idle pre s)(p := rp_idle pre s' p)"
    using local_run [of pre p ?del, OF _ run assms] by blast+
  moreover have "rp_idle pre s' p = filter (\<lambda>(y, t). y \<noteq> x) (rp_idle pre s p)"
    by (simp add: rp_idle_def rp_pool_def pool idle_of_remove)
  ultimately show "rp_ok pre s' \<and> rp_idle pre s' = (rp_idle pre s)(p := filter (\<lambda>(y, t). y \<noteq> x) (rp_idle pre s p)) \<and>
    x \<notin> fst ` set (hash_at s' ?h)" using x by metis
qed simp

lemma lrem_run:
  assumes "rp_ok pre s" and "x \<notin> fst ` set (hash_at s (rp_hash_key pre p))"
  shows "wp (rd_lrem ref_redis (rp_list_key pre p) x) (\<lambda>_ s'. rp_ok pre s' \<and> rp_idle pre s' = rp_idle pre s) (\<lambda>_ _. True) s"
    (is "wp ?del _ _ s")
proof (rule wpI)
  fix r s'
  let ?l = "rp_list_key pre p" and ?h = "rp_hash_key pre p"
  assume run: "?del s = (Inr r, s')"
  have okp: "rp_pool_ok pre s p" using assms by (simp add: rp_ok_def)
  then have ok: "idle_keys_ok s ?l ?h" and inv: "idle_inv (redis_pool s ?l ?h)" by (simp_all add: rp_pool_ok_def rp_pool_def)
  have "[] \<notin> set (filter (\<lambda>y. y \<noteq> x) (list_at s ?l))" using list_names [OF ok] by simp
  from put_list_run [OF ok this] obtain s1 where s1: "k_put_list ?l (filter (\<lambda>y. y \<noteq> x) (list_at s ?l)) s = (Inr (), s1)"
    "idle_keys_ok s1 ?l ?h" "list_at s1 ?l = filter (\<lambda>y. y \<noteq> x) (list_at s ?l)" "hash_at s1 ?h = hash_at s ?h" by blast
  have s': "s' = s1" using run s1(1) idle_reads(1) [OF ok] by (simp add: ref_sel bindM_run)
  have "rp_pool_ok pre s' p" using s1 s' inv assms(2) by (auto simp: rp_pool_ok_def rp_pool_def idle_inv_pool)
  moreover have "local_to pre p ?del" by (auto simp: local_to_def rp_list_key_def rp_hash_key_def intro!: keeps_commands)
  ultimately have f: "rp_ok pre s'" "rp_idle pre s' = (rp_idle pre s)(p := rp_idle pre s' p)"
    using local_run [of pre p ?del, OF _ run assms(1)] by blast+
  have "abs_queue (filter (\<lambda>y. y \<noteq> x) (list_at s ?l)) (map_of (map entry_at (hash_at s ?h))) =
      abs_queue (list_at s ?l) (map_of (map entry_at (hash_at s ?h)))"
    using assms(2) by (intro abs_queue_drop_unknown) (auto simp: map_of_entries map_of_eq_None_iff)
  then have "rp_idle pre s' p = rp_idle pre s p" by (simp add: rp_idle_def rp_pool_def redis_pool_def idle_of_def s' s1)
  with f show "rp_ok pre s' \<and> rp_idle pre s' = rp_idle pre s" by (metis fun_upd_triv)
qed simp

section \<open>The contract of the idle buffer\<close>

text \<open>Every call of the store, at any service with the documented commands, seen through its key space.\<close>

lemma wp_call:
  assumes "rp_ok pre s"
    and "\<And>s1. rp_ok pre s1 \<Longrightarrow> rp_idle pre s1 = rp_idle pre s \<Longrightarrow> hash_at s1 = hash_at s \<Longrightarrow>
      wp m (\<lambda>a s2. \<forall>s'. rp_ok pre s' = rp_ok pre s2 \<longrightarrow> rp_idle pre s' = rp_idle pre s2 \<longrightarrow> hash_at s' = hash_at s2 \<longrightarrow> Q a s') (\<lambda>_ _. True) s1"
  shows "wp (round_trip ref_redis m) Q (\<lambda>_ _. True) s"
proof (rule wp_round_trip_any)
  fix s1 :: Keyspace
  assume "ks_data s1 = ks_data s"
  note same = same_data [OF this, of pre]
  show "wp m (\<lambda>a s2. \<forall>s'. ks_data s' = ks_data s2 \<longrightarrow> Q a s' \<and> True) (\<lambda>_ _. True) s1"
    by (rule wp_mono [OF assms(2) [OF _ same(1) same_hash [OF \<open>ks_data s1 = ks_data s\<close>]]]) (use same(2) assms(1) in \<open>simp_all, metis same_data same_hash\<close>)
qed simp

definition taken_from :: "(string \<Rightarrow> idle_list) \<Rightarrow> string \<Rightarrow> string option \<Rightarrow> (string \<Rightarrow> idle_list) \<Rightarrow> bool" where
  "taken_from f p r f' \<longleftrightarrow>
     (case r of None \<Rightarrow> f' = f(p := []) | Some x \<Rightarrow> \<exists>sk t ys. f p = sk @ (x, t) # ys \<and> f' = f(p := ys))"

lemma taken_from_spec:
  assumes "take_min_spec now cutoff (f p) = (r, f' p)" and "f' = f(p := f' p)"
  shows "taken_from f p (taken_id r) f'"
proof -
  from take_min_spec_split [OF assms(1)] obtain sk where
    "taken_id r = None \<and> f' p = [] \<and> f p = sk \<or> (\<exists>y. taken_id r = Some (fst y) \<and> alive cutoff y \<and> f p = sk @ y # f' p)"
    by blast
  then show ?thesis
  proof (elim disjE exE)
    fix y assume y: "taken_id r = Some (fst y) \<and> alive cutoff y \<and> f p = sk @ y # f' p"
    then have "f p = sk @ (fst y, snd y) # f' p \<and> f' = f(p := f' p)" using assms(2) by simp
    then have "\<exists>sk t ys. f p = sk @ (fst y, t) # ys \<and> f' = f(p := ys)" by blast
    with y show ?thesis by (simp only: taken_from_def option.simps)
  qed (use assms(2) in \<open>simp add: taken_from_def\<close>)
qed

lemma redis_take_law:
  assumes "rp_redis self = ref_redis" and "rp_ok (rp_key_prefix self) s"
  shows "wp (rp_try_take_idle self p)
    (\<lambda>r s'. rp_ok (rp_key_prefix self) s' \<and> taken_from (rp_idle (rp_key_prefix self) s) p r (rp_idle (rp_key_prefix self) s'))
    (\<lambda>_ _. True) s"
proof -
  let ?pre = "rp_key_prefix self"
  have zero: "''0'' = str_of_int 0" by code_simp
  have "wp (round_trip ref_redis (TAKE_IDLE_SCRIPT ref_redis (rp_fuel self) (rp_list_key ?pre p) (rp_hash_key ?pre p) ''0''))
      (\<lambda>r s'. rp_ok ?pre s' \<and> taken_from (rp_idle ?pre s) p (taken_id (decode_take_idle_result r)) (rp_idle ?pre s')) (\<lambda>_ _. True) s"
    unfolding zero
  proof (rule wp_call [OF assms(2)])
    fix s1
    assume s1: "rp_ok ?pre s1" "rp_idle ?pre s1 = rp_idle ?pre s"
    show "wp (TAKE_IDLE_SCRIPT ref_redis (rp_fuel self) (rp_list_key ?pre p) (rp_hash_key ?pre p) (str_of_int 0))
        (\<lambda>r s2. \<forall>s'. rp_ok ?pre s' = rp_ok ?pre s2 \<longrightarrow> rp_idle ?pre s' = rp_idle ?pre s2 \<longrightarrow> hash_at s' = hash_at s2 \<longrightarrow>
           rp_ok ?pre s' \<and> taken_from (rp_idle ?pre s) p (taken_id (decode_take_idle_result r)) (rp_idle ?pre s')) (\<lambda>_ _. True) s1"
      by (rule wp_mono [OF take_script [OF s1(1)]]) (auto simp: s1(2) intro: taken_from_spec)
  qed
  then show ?thesis
    unfolding rp_try_take_idle_def rp_eval_take_idle_def key_defs assms(1)
    by (auto simp: wp_simps rp_list_key_def rp_hash_key_def intro!: wp_execute)
qed

lemma redis_put_law:
  assumes "rp_redis self = ref_redis" and "rp_ok (rp_key_prefix self) s"
  shows "wp (rp_put_idle self p x) (\<lambda>_. put_post (rp_key_prefix self) p x s) (\<lambda>_ _. True) s"
proof -
  let ?pre = "rp_key_prefix self"
  have put: "wp (round_trip ref_redis (PUT_IDLE_SCRIPT ref_redis (rp_list_key ?pre p) (rp_hash_key ?pre p) d x (str_of_int t)))
      (\<lambda>r s2. r \<noteq> - 1 \<longrightarrow> put_post ?pre p x s s2) (\<lambda>_ _. True) s1"
    if "ks_data s1 = ks_data s" and "\<not> is_blank x" for s1 d t
  proof -
    have "x \<noteq> []" using that(2) by (auto simp: is_blank_def)
    moreover have ok: "rp_ok ?pre s1" using same_data [OF that(1)] assms(2) by simp
    ultimately show ?thesis
      by (intro wp_call [OF ok] wp_mono [OF put_script]) (auto simp: put_post_def same_data [OF that(1)])
  qed
  have "wp (rp_eval_fenced_write self p (PUT_IDLE_SCRIPT ref_redis (rp_list_key ?pre p) (rp_hash_key ?pre p) d x (str_of_int t)))
      (\<lambda>_. put_post ?pre p x s) (\<lambda>_ _. True) s1" if "ks_data s1 = ks_data s" and "\<not> is_blank x" for s1 d t
    unfolding rp_eval_fenced_write_def wp_bindM assms(1)
    by (rule wp_mono [OF put [OF that]]) (auto simp: wp_simps intro: wp_any)
  then show ?thesis
    unfolding rp_put_idle_def key_defs assms(1)
    by (auto simp: wp_simps assms(1) rp_list_key_def rp_hash_key_def intro!: wp_resolve_ttl wp_execute)
qed

lemma redis_counters_law:
  assumes "rp_redis self = ref_redis" and "rp_ok (rp_key_prefix self) s"
  shows "wp (rp_snapshot_counters self p)
    (\<lambda>n s'. rp_ok (rp_key_prefix self) s' \<and> rp_idle (rp_key_prefix self) s' = rp_idle (rp_key_prefix self) s \<and>
       idle_count n = length (rp_idle (rp_key_prefix self) s p)) (\<lambda>_ _. True) s"
proof -
  let ?pre = "rp_key_prefix self"
  have "wp (round_trip ref_redis (rd_hlen ref_redis (rp_hash_key ?pre p)))
      (\<lambda>n s'. rp_ok ?pre s' \<and> rp_idle ?pre s' = rp_idle ?pre s \<and> n = length (rp_idle ?pre s p)) (\<lambda>_ _. True) s"
  proof (rule wp_call [OF assms(2)])
    fix s1 assume s1: "rp_ok ?pre s1" "rp_idle ?pre s1 = rp_idle ?pre s"
    then have okp: "rp_pool_ok ?pre s1 p" by (simp add: rp_ok_def)
    then have "k_hash (rp_hash_key ?pre p) s1 = (Inr (hash_at s1 (rp_hash_key ?pre p)), s1)"
      by (auto simp: rp_pool_ok_def intro: idle_reads(2))
    with s1 rp_pool_ids(2) [OF okp] show "wp (rd_hlen ref_redis (rp_hash_key ?pre p))
        (\<lambda>n s2. \<forall>s'. rp_ok ?pre s' = rp_ok ?pre s2 \<longrightarrow> rp_idle ?pre s' = rp_idle ?pre s2 \<longrightarrow> hash_at s' = hash_at s2 \<longrightarrow>
           rp_ok ?pre s' \<and> rp_idle ?pre s' = rp_idle ?pre s \<and> n = length (rp_idle ?pre s p)) (\<lambda>_ _. True) s1"
      by (simp add: ref_sel wp_def bindM_run)
  qed
  then show ?thesis
    unfolding rp_snapshot_counters_def key_defs assms(1)
    by (auto simp: wp_simps rp_hash_key_def intro!: wp_execute)
qed

lemma redis_remove_law:
  assumes "rp_redis self = ref_redis" and "rp_ok (rp_key_prefix self) s"
  shows "wp (rp_remove_idle self p x)
    (\<lambda>_ s'. rp_ok (rp_key_prefix self) s' \<and> rp_idle (rp_key_prefix self) s' =
       (rp_idle (rp_key_prefix self) s)(p := filter (\<lambda>(y, t). y \<noteq> x) (rp_idle (rp_key_prefix self) s p))) (\<lambda>_ _. True) s"
proof -
  let ?pre = "rp_key_prefix self"
  let ?removed = "(rp_idle ?pre s)(p := filter (\<lambda>(y, t). y \<noteq> x) (rp_idle ?pre s p))"
  have lrem: "wp (round_trip ref_redis (rd_lrem ref_redis (rp_list_key ?pre p) x))
      (\<lambda>_ s'. rp_ok ?pre s' \<and> rp_idle ?pre s' = ?removed) (\<lambda>_ _. True) s2"
    if "rp_ok ?pre s2" "rp_idle ?pre s2 = ?removed" "x \<notin> fst ` set (hash_at s2 (rp_hash_key ?pre p))" for s2
    by (rule wp_call [OF that(1)], rule wp_mono [OF lrem_run]) (use that in auto)
  have "wp (round_trip ref_redis (rd_hdel ref_redis (rp_hash_key ?pre p) x))
      (\<lambda>_ s'. rp_ok ?pre s' \<and> rp_idle ?pre s' = ?removed \<and> x \<notin> fst ` set (hash_at s' (rp_hash_key ?pre p))) (\<lambda>_ _. True) s"
    by (rule wp_call [OF assms(2)], rule wp_mono [OF hdel_run]) auto
  then have "wp (round_trip ref_redis (rd_hdel ref_redis (rp_hash_key ?pre p) x))
      (\<lambda>_. wp (round_trip ref_redis (rd_lrem ref_redis (rp_list_key ?pre p) x))
         (\<lambda>_ s'. rp_ok ?pre s' \<and> rp_idle ?pre s' = ?removed) (\<lambda>_ _. True)) (\<lambda>_ _. True) s"
    by (rule wp_mono) (simp_all add: lrem)
  moreover have "wp (key_of self p part) Q E = Q (pkey ?pre p part)" if "\<not> is_blank p" for part Q E
    using that by (intro ext) (simp add: wp_key)
  ultimately show ?thesis
    unfolding rp_remove_idle_def key_defs assms(1)
    by (auto simp: wp_simps rp_list_key_def rp_hash_key_def intro!: wp_execute)
qed


text \<open>The Redis store satisfies the contract its clients are verified against, at every service.\<close>

sublocale redis_service \<subseteq> idle: idle_store "redis_store (RedisPoolStateStore_init R pre fuel)"
    "\<lambda>s. rp_idle pre (ks s)" "\<lambda>s. rp_ok pre (ks s)" for pre fuel
proof
  let ?S = "RedisPoolStateStore_init R pre fuel"
  have S: "rp_redis ?S = R" "rp_key_prefix ?S = pre" by (simp_all add: RedisPoolStateStore_init_def)
  note law = store_refines [OF S(1)]
  fix s s' p x n
  assume ok: "rp_ok pre (ks s)"
  then have ok': "rp_ok (rp_key_prefix (ref_store ?S)) (ks s)" by (simp add: S)
  have take: "rp_ok pre (ks s') \<and> taken_from (rp_idle pre (ks s)) p r (rp_idle pre (ks s'))"
    if "rp_try_take_idle ?S p s = (Inr r, s')" for r
    using wp_run [OF refines_wp [OF law(1) redis_take_law [OF ref_store_sel(1) ok']] that] by (simp add: S)
  show "rp_ok pre (ks s') \<and> rp_idle pre (ks s') = (rp_idle pre (ks s))(p := [])"
    if "st_try_take_idle (redis_store ?S) p s = (Inr None, s')"
    using take [of None] that by (simp add: redis_store_def taken_from_def)
  show "rp_ok pre (ks s') \<and> (\<exists>sk t ys. rp_idle pre (ks s) p = sk @ (x, t) # ys \<and> rp_idle pre (ks s') = (rp_idle pre (ks s))(p := ys))"
    if "st_try_take_idle (redis_store ?S) p s = (Inr (Some x), s')"
    using take [of "Some x"] that by (simp add: redis_store_def taken_from_def)
  show "rp_ok pre (ks s') \<and> x \<in> fst ` set (rp_idle pre (ks s') p) \<and>
      fst ` set (rp_idle pre (ks s') p) \<subseteq> insert x (fst ` set (rp_idle pre (ks s) p)) \<and>
      length (rp_idle pre (ks s') p) \<le> Suc (length (rp_idle pre (ks s) p)) \<and> (\<forall>q. q \<noteq> p \<longrightarrow> rp_idle pre (ks s') q = rp_idle pre (ks s) q)"
    if "st_put_idle (redis_store ?S) p x s = (Inr (), s')"
    using wp_run [OF refines_wp [OF law(3) redis_put_law [OF ref_store_sel(1) ok']], of p x] that
    by (simp add: redis_store_def put_post_def S)
  show "rp_ok pre (ks s') \<and> idle_count n = length (rp_idle pre (ks s') p) \<and>
      set (rp_idle pre (ks s') p) \<subseteq> set (rp_idle pre (ks s) p) \<and> (\<forall>q. q \<noteq> p \<longrightarrow> rp_idle pre (ks s') q = rp_idle pre (ks s) q)"
    if "st_snapshot_counters (redis_store ?S) p s = (Inr n, s')"
    using wp_run [OF refines_wp [OF law(7) redis_counters_law [OF ref_store_sel(1) ok']], of p] that
    by (simp add: redis_store_def S)
  show "rp_ok pre (ks s') \<and> rp_idle pre (ks s') = (rp_idle pre (ks s))(p := filter (\<lambda>(y, t). y \<noteq> x) (rp_idle pre (ks s) p))"
    if "st_remove_idle (redis_store ?S) p x s = (Inr (), s')"
    using wp_run [OF refines_wp [OF law(4) redis_remove_law [OF ref_store_sel(1) ok']], of p x] that
    by (simp add: redis_store_def S)
qed


section \<open>A concrete pool\<close>

definition idle_redis :: Keyspace where
  "idle_redis = slow_redis\<lparr>ks_data := [rp_list_key DEFAULT_KEY_PREFIX ''p'' \<mapsto> (RList [''x'', ''y''], None),
     rp_hash_key DEFAULT_KEY_PREFIX ''p'' \<mapsto> (RHash [(''x'', str_of_int 500), (''y'', str_of_int 9000)], None)]\<rparr>"

lemma idle_redis_at:
  "list_at idle_redis (rp_list_key DEFAULT_KEY_PREFIX p) = (if p = ''p'' then [''x'', ''y''] else [])"
  "hash_at idle_redis (rp_hash_key DEFAULT_KEY_PREFIX p) = (if p = ''p'' then [(''x'', str_of_int 500), (''y'', str_of_int 9000)] else [])"
  by (simp_all add: idle_redis_def list_at_def hash_at_def rp_list_key_def rp_hash_key_def)

lemma idle_redis_ok: "rp_ok DEFAULT_KEY_PREFIX idle_redis"
  unfolding rp_ok_def rp_pool_ok_def rp_pool_def idle_inv_pool idle_redis_at
  by (auto simp: idle_keys_ok_def idle_redis_def rp_list_key_def rp_hash_key_def)

theorem redis_take_is_fifo_witness:
  "rp_idle DEFAULT_KEY_PREFIX idle_redis ''p'' = [(''x'', milliseconds 500), (''y'', milliseconds 9000)] \<and>
   wp (rp_try_take_idle_min_ttl demo_redis ''p'' 1000000)
     (\<lambda>r s'. \<exists>now. take_min_spec (milliseconds now) (milliseconds (now + 1000))
        [(''x'', milliseconds 500), (''y'', milliseconds 9000)] = (r, rp_idle DEFAULT_KEY_PREFIX s' ''p''))
     (\<lambda>_ s'. rp_ok DEFAULT_KEY_PREFIX s') idle_redis"
proof -
  have idle: "rp_idle DEFAULT_KEY_PREFIX idle_redis ''p'' = [(''x'', milliseconds 500), (''y'', milliseconds 9000)]"
    by (simp add: rp_idle_def rp_pool_def redis_pool_def idle_redis_at idle_of_def)
  have sel: "rp_key_prefix demo_redis = DEFAULT_KEY_PREFIX" "rp_fuel demo_redis = 5"
    by (simp_all add: demo_redis_def RedisPoolStateStore_init_def)
  have "length (list_at idle_redis (rp_list_key DEFAULT_KEY_PREFIX ''p'')) < 5" by (simp add: idle_redis_at)
  then have "wp (rp_try_take_idle_min_ttl demo_redis ''p'' 1000000)
     (\<lambda>r s'. \<exists>now. take_min_spec (milliseconds now) (milliseconds (now + 1000))
        (rp_idle DEFAULT_KEY_PREFIX idle_redis ''p'') = (r, rp_idle DEFAULT_KEY_PREFIX s' ''p''))
     (\<lambda>_ s'. rp_ok DEFAULT_KEY_PREFIX s') idle_redis"
    by (intro wp_mono [OF redis_take_is_fifo [of demo_redis "\<lambda>s. s" idle_redis "''p''" 1000 1000000]])
       (auto simp: sel idle_redis_ok reference.redis_service_axioms)
  with idle show ?thesis by simp
qed

end
