(* ===== verification/Snapshot_Rows.thy ===== *)
theory Snapshot_Rows
  imports Py_Text "HOL-Library.Char_ord" "HOL-Library.List_Lexorder" "HOL-Library.Product_Lexorder"
begin

text \<open>
  The persistent form of snapshots (\<open>services/snapshot_models.py\<close>, \<open>services/snapshot_repository.py\<close>,
  \<open>repositories/snapshots/sqlite.py\<close>): the records of the lifecycle server, their encoding as rows of text columns
  and the statements of the SQLite repository as functions on the table. A table is the list of its rows; a statement
  runs in a transaction of its own, so that it happens as a whole or not at all. Text compares byte by byte, as
  SQLite's default collation does.
\<close>

section \<open>Records\<close>

datatype SnapshotState = CREATING | DELETING | READY | FAILED

fun state_value :: "SnapshotState \<Rightarrow> string" where
  "state_value CREATING = ''Creating''"
| "state_value DELETING = ''Deleting''"
| "state_value READY = ''Ready''"
| "state_value FAILED = ''Failed''"

text \<open>\<open>SnapshotState(value)\<close>\<close>

definition SnapshotState_of :: "string \<Rightarrow> SnapshotState result" where
  "SnapshotState_of v =
     (case List.find (\<lambda>st. state_value st = v) [CREATING, DELETING, READY, FAILED] of
        Some st \<Rightarrow> Inr st
      | None \<Rightarrow> Inl (ValueError (v @ '' is not a valid SnapshotState'')))"

text \<open>
  An aware \<open>datetime\<close> in UTC with the fields Python keeps: \<open>datetime.now(timezone.utc)\<close> yields a valid one.
\<close>

record UtcTime =
  dt_year :: nat
  dt_month :: nat
  dt_day :: nat
  dt_hour :: nat
  dt_minute :: nat
  dt_second :: nat
  dt_microsecond :: nat

definition is_leap :: "nat \<Rightarrow> bool" where
  "is_leap y \<longleftrightarrow> y mod 4 = 0 \<and> (y mod 100 \<noteq> 0 \<or> y mod 400 = 0)"

definition days_in_month :: "nat \<Rightarrow> nat \<Rightarrow> nat" where
  "days_in_month y m = (if m = 2 then (if is_leap y then 29 else 28) else if m \<in> {4, 6, 9, 11} then 30 else 31)"

definition valid_utc :: "UtcTime \<Rightarrow> bool" where
  "valid_utc t \<longleftrightarrow>
     1 \<le> dt_year t \<and> dt_year t \<le> 9999 \<and> 1 \<le> dt_month t \<and> dt_month t \<le> 12 \<and>
     1 \<le> dt_day t \<and> dt_day t \<le> days_in_month (dt_year t) (dt_month t) \<and>
     dt_hour t < 24 \<and> dt_minute t < 60 \<and> dt_second t < 60 \<and> dt_microsecond t < 1000000"

record SnapshotRestoreConfig =
  rc_image :: "string option"

record SnapshotStatusRecord =
  ss_state :: SnapshotState
  ss_reason :: "string option"
  ss_message :: "string option"
  ss_last_transition_at :: "UtcTime option"

record SnapshotRecord =
  sn_id :: string
  sn_source_sandbox_id :: string
  sn_namespace :: "string option"
  sn_name :: "string option"
  sn_description :: "string option"
  sn_restore_config :: SnapshotRestoreConfig
  sn_status :: SnapshotStatusRecord
  sn_created_at :: UtcTime
  sn_updated_at :: UtcTime

abbreviation sn_state :: "SnapshotRecord \<Rightarrow> SnapshotState" where
  "sn_state r \<equiv> ss_state (sn_status r)"

abbreviation sn_image :: "SnapshotRecord \<Rightarrow> string option" where
  "sn_image r \<equiv> rc_image (sn_restore_config r)"

record SnapshotListQuery =
  q_page :: int
  q_page_size :: int
  q_source_sandbox_id :: "string option"
  q_name :: "string option"
  q_states :: "string list"
  q_namespace :: "string option"

record SnapshotListResult =
  lr_items :: "SnapshotRecord list"
  lr_total_items :: nat

section \<open>Text of the columns\<close>

text \<open>Decimal digits in a field of fixed width, as in \<open>"%04d"\<close>, for numbers that fit.\<close>

fun pad :: "nat \<Rightarrow> nat \<Rightarrow> string" where
  "pad 0 n = []"
| "pad (Suc k) n = pad k (n div 10) @ [char_of (48 + n mod 10)]"

text \<open>\<open>value.isoformat()\<close>: the microseconds are left out when they are 0.\<close>

definition isoformat :: "UtcTime \<Rightarrow> string" where
  "isoformat t =
     pad 4 (dt_year t) @ ''-'' @ pad 2 (dt_month t) @ ''-'' @ pad 2 (dt_day t) @ ''T'' @
     pad 2 (dt_hour t) @ '':'' @ pad 2 (dt_minute t) @ '':'' @ pad 2 (dt_second t) @
     (if dt_microsecond t = 0 then [] else ''.'' @ pad 6 (dt_microsecond t)) @ ''+00:00''"

text \<open>
  \<open>datetime.fromisoformat\<close> on the shapes that \<open>isoformat\<close> writes. Python accepts further ISO 8601 forms, which no
  row holds.
\<close>

definition number_at :: "string \<Rightarrow> nat \<Rightarrow> nat \<Rightarrow> nat option" where
  "number_at s i k =
     (let ds = take k (drop i s) in if length ds = k \<and> list_all is_digit ds then Some (nat_of_digits ds) else None)"

definition fromisoformat :: "string \<Rightarrow> UtcTime result" where
  "fromisoformat s =
     (let micro = (if drop 19 s = ''+00:00'' then Some 0
                   else if length s = 32 \<and> s ! 19 = CHR ''.'' \<and> drop 26 s = ''+00:00'' then number_at s 20 6 else None)
      in case (number_at s 0 4, number_at s 5 2, number_at s 8 2, number_at s 11 2, number_at s 14 2, number_at s 17 2, micro) of
           (Some y, Some mo, Some d, Some h, Some mi, Some sec, Some us) \<Rightarrow>
             (let t = \<lparr>dt_year = y, dt_month = mo, dt_day = d, dt_hour = h, dt_minute = mi, dt_second = sec, dt_microsecond = us\<rparr>
              in if s ! 4 = CHR ''-'' \<and> s ! 7 = CHR ''-'' \<and> s ! 10 = CHR ''T'' \<and> s ! 13 = CHR '':'' \<and> s ! 16 = CHR '':'' \<and> valid_utc t
                 then Inr t else Inl (ValueError ''Invalid isoformat string''))
         | _ \<Rightarrow> Inl (ValueError ''Invalid isoformat string''))"

definition datetime_to_str :: "UtcTime option \<Rightarrow> string option" where
  "datetime_to_str = map_option isoformat"

definition str_to_datetime :: "string option \<Rightarrow> UtcTime option result" where
  "str_to_datetime v = (case v of None \<Rightarrow> Inr None | Some s \<Rightarrow> map_sum id Some (fromisoformat s))"

text \<open>\<open>json.dumps\<close> of a string, with \<open>ensure_ascii\<close>.\<close>

definition hex_digit :: "nat \<Rightarrow> char" where
  "hex_digit n = (if n < 10 then char_of (48 + n) else char_of (87 + n))"

definition json_char :: "char \<Rightarrow> string" where
  "json_char c =
     (if c = CHR 0x22 \<or> c = CHR 0x5C then [CHR 0x5C, c]
      else if c = CHR 0x0A then CHR 0x5C # ''n''
      else if c = CHR 0x0D then CHR 0x5C # ''r''
      else if c = CHR 0x09 then CHR 0x5C # ''t''
      else if c = CHR 0x0C then CHR 0x5C # ''f''
      else if c = CHR 0x08 then CHR 0x5C # ''b''
      else if 32 \<le> char_code c \<and> char_code c \<le> 126 then [c]
      else CHR 0x5C # ''u00'' @ [hex_digit (char_code c div 16), hex_digit (char_code c mod 16)])"

definition json_str :: "string \<Rightarrow> string" where
  "json_str s = CHR 0x22 # concat (map json_char s) @ [CHR 0x22]"

text \<open>\<open>json.dumps({"image": config.image}, sort_keys=True)\<close>\<close>

definition restore_config_to_json :: "SnapshotRestoreConfig \<Rightarrow> string" where
  "restore_config_to_json config =
     ''{'' @ json_str ''image'' @ '': '' @ (case rc_image config of None \<Rightarrow> ''null'' | Some s \<Rightarrow> json_str s) @ ''}''"

text \<open>
  \<open>json.loads\<close> on the documents a row holds: an object whose values are strings or null. \<open>json_string\<close> reads the
  rest of a string literal. A code point above 255 has no character in this model.
\<close>

definition hex_value :: "char \<Rightarrow> nat option" where
  "hex_value c =
     (if is_digit c then Some (char_code c - 48)
      else if 97 \<le> char_code c \<and> char_code c \<le> 102 then Some (char_code c - 87)
      else if 65 \<le> char_code c \<and> char_code c \<le> 70 then Some (char_code c - 55) else None)"

definition json_escape :: "char \<Rightarrow> char option" where
  "json_escape e =
     (if e = CHR 0x22 \<or> e = CHR 0x5C \<or> e = CHR ''/'' then Some e
      else map_of [(CHR ''n'', CHR 0x0A), (CHR ''r'', CHR 0x0D), (CHR ''t'', CHR 0x09), (CHR ''f'', CHR 0x0C), (CHR ''b'', CHR 0x08)] e)"

fun json_string :: "string \<Rightarrow> (string \<times> string) option" where
  "json_string [] = None"
| "json_string (c # cs) =
     (if c = CHR 0x22 then Some ([], cs)
      else if c = CHR 0x5C
      then (case cs of
              [] \<Rightarrow> None
            | e # es \<Rightarrow>
                if e = CHR ''u''
                then (case es of
                        h1 # h2 # h3 # h4 # hs \<Rightarrow>
                          (case (hex_value h1, hex_value h2, hex_value h3, hex_value h4) of
                             (Some 0, Some 0, Some a, Some b) \<Rightarrow> map_option (apfst (Cons (char_of (16 * a + b)))) (json_string hs)
                           | _ \<Rightarrow> None)
                      | _ \<Rightarrow> None)
                else (case json_escape e of None \<Rightarrow> None | Some d \<Rightarrow> map_option (apfst (Cons d)) (json_string es)))
      else if char_code c < 32 then None
      else map_option (apfst (Cons c)) (json_string cs))"

definition skip_ws :: "string \<Rightarrow> string" where
  "skip_ws = dropWhile (\<lambda>c. c \<in> {CHR '' '', CHR 0x09, CHR 0x0A, CHR 0x0D})"

definition json_value :: "string \<Rightarrow> (string option \<times> string) option" where
  "json_value s =
     (case s of
        [] \<Rightarrow> None
      | c # cs \<Rightarrow>
          if c = CHR 0x22 then map_option (apfst Some) (json_string cs)
          else if take 4 s = ''null'' then Some (None, drop 4 s) else None)"

text \<open>The members up to the closing brace; the fuel is the length of the text, and each member consumes some of it.\<close>

fun json_members :: "nat \<Rightarrow> string \<Rightarrow> (string \<times> string option) list option" where
  "json_members 0 s = None"
| "json_members (Suc n) s =
     (case skip_ws s of
        c # cs \<Rightarrow>
          if c \<noteq> CHR 0x22 then None
          else (case json_string cs of
                  None \<Rightarrow> None
                | Some (k, s1) \<Rightarrow>
                    (case skip_ws s1 of
                       d # s2 \<Rightarrow>
                         if d \<noteq> CHR '':'' then None
                         else (case json_value (skip_ws s2) of
                                 None \<Rightarrow> None
                               | Some (v, s3) \<Rightarrow>
                                   (case skip_ws s3 of
                                      e # s4 \<Rightarrow>
                                        if e = CHR ''}'' then (if skip_ws s4 = [] then Some [(k, v)] else None)
                                        else if e = CHR '','' then map_option (Cons (k, v)) (json_members n s4)
                                        else None
                                    | [] \<Rightarrow> None))
                     | [] \<Rightarrow> None))
      | [] \<Rightarrow> None)"

text \<open>\<open>json.loads(text).get("image")\<close>: of equal keys the last one counts.\<close>

definition image_of_json :: "string \<Rightarrow> string option result" where
  "image_of_json s =
     (case skip_ws s of
        c # cs \<Rightarrow>
          if c \<noteq> CHR ''{'' then Inl (ValueError ''Expecting value'')
          else if take 1 (skip_ws cs) = ''}'' \<and> skip_ws (drop 1 (skip_ws cs)) = [] then Inr None
          else (case json_members (length cs) cs of
                  None \<Rightarrow> Inl (ValueError ''Expecting value'')
                | Some ms \<Rightarrow> Inr (case map_of (rev ms) ''image'' of None \<Rightarrow> None | Some v \<Rightarrow> v))
      | [] \<Rightarrow> Inl (ValueError ''Expecting value''))"


section \<open>Rows\<close>

record Row =
  row_id :: string
  row_source_sandbox_id :: string
  row_namespace :: "string option"
  row_name :: "string option"
  row_description :: "string option"
  row_restore_config :: string
  row_state :: string
  row_reason :: "string option"
  row_message :: "string option"
  row_last_transition_at :: "string option"
  row_created_at :: string
  row_updated_at :: string

type_synonym Table = "Row list"

definition to_db_tuple :: "SnapshotRecord \<Rightarrow> Row" where
  "to_db_tuple r =
     \<lparr>row_id = sn_id r, row_source_sandbox_id = sn_source_sandbox_id r, row_namespace = sn_namespace r,
      row_name = sn_name r, row_description = sn_description r,
      row_restore_config = restore_config_to_json (sn_restore_config r), row_state = state_value (sn_state r),
      row_reason = ss_reason (sn_status r), row_message = ss_message (sn_status r),
      row_last_transition_at = datetime_to_str (ss_last_transition_at (sn_status r)),
      row_created_at = isoformat (sn_created_at r), row_updated_at = isoformat (sn_updated_at r)\<rparr>"

definition row_to_record :: "Row \<Rightarrow> SnapshotRecord result" where
  "row_to_record row =
     bindE (image_of_json (row_restore_config row)) (\<lambda>image.
     bindE (SnapshotState_of (row_state row)) (\<lambda>state.
     bindE (str_to_datetime (row_last_transition_at row)) (\<lambda>last_transition_at.
     bindE (fromisoformat (row_created_at row)) (\<lambda>created_at.
     bindE (fromisoformat (row_updated_at row)) (\<lambda>updated_at.
       Inr \<lparr>sn_id = row_id row, sn_source_sandbox_id = row_source_sandbox_id row, sn_namespace = row_namespace row,
            sn_name = row_name row, sn_description = row_description row, sn_restore_config = \<lparr>rc_image = image\<rparr>,
            sn_status = \<lparr>ss_state = state, ss_reason = row_reason row, ss_message = row_message row,
                         ss_last_transition_at = last_transition_at\<rparr>,
            sn_created_at = created_at, sn_updated_at = updated_at\<rparr>)))))"

fun rows_to_records :: "Row list \<Rightarrow> SnapshotRecord list result" where
  "rows_to_records [] = Inr []"
| "rows_to_records (row # rows) = bindE (row_to_record row) (\<lambda>r. map_sum id (Cons r) (rows_to_records rows))"

section \<open>Statements\<close>

definition repo_create :: "SnapshotRecord \<Rightarrow> Table \<Rightarrow> unit result \<times> Table" where
  "repo_create r tbl =
     (if sn_id r \<in> set (map row_id tbl) then (Inl (OtherException ''UNIQUE constraint failed: snapshots.id''), tbl)
      else (Inr (), tbl @ [to_db_tuple r]))"

definition repo_get :: "string \<Rightarrow> Table \<Rightarrow> SnapshotRecord option result" where
  "repo_get x tbl =
     (case List.find (\<lambda>row. row_id row = x) tbl of None \<Rightarrow> Inr None | Some row \<Rightarrow> map_sum id Some (row_to_record row))"

text \<open>The \<open>WHERE\<close> clause; a comparison with \<open>NULL\<close> does not hold.\<close>

definition row_matches :: "SnapshotListQuery \<Rightarrow> Row \<Rightarrow> bool" where
  "row_matches q row \<longleftrightarrow>
     (q_namespace q \<noteq> None \<longrightarrow> row_namespace row = q_namespace q) \<and>
     (q_source_sandbox_id q \<notin> {None, Some []} \<longrightarrow> Some (row_source_sandbox_id row) = q_source_sandbox_id q) \<and>
     (q_name q \<noteq> None \<longrightarrow> row_name row = q_name q) \<and>
     (q_states q \<noteq> [] \<longrightarrow> row_state row \<in> set (q_states q))"

text \<open>\<open>ORDER BY created_at DESC, id DESC\<close>\<close>

definition newest_first :: "Row list \<Rightarrow> Row list" where
  "newest_first rows = rev (sort_key (\<lambda>row. (row_created_at row, row_id row)) rows)"

definition matching_rows :: "SnapshotListQuery \<Rightarrow> Table \<Rightarrow> Row list" where
  "matching_rows q tbl = newest_first (filter (row_matches q) tbl)"

definition page_of :: "int \<Rightarrow> int \<Rightarrow> 'a list \<Rightarrow> 'a list" where
  "page_of page page_size xs =
     (let p = max page 1; n = max page_size 1 in take (nat n) (drop (nat ((p - 1) * n)) xs))"

definition repo_list :: "SnapshotListQuery \<Rightarrow> Table \<Rightarrow> SnapshotListResult result" where
  "repo_list q tbl =
     (let rows = matching_rows q tbl
      in map_sum id (\<lambda>items. \<lparr>lr_items = items, lr_total_items = length rows\<rparr>)
           (rows_to_records (page_of (q_page q) (q_page_size q) rows)))"

definition repo_update :: "SnapshotRecord \<Rightarrow> Table \<Rightarrow> Table" where
  "repo_update r tbl = map (\<lambda>row. if row_id row = sn_id r then to_db_tuple r else row) tbl"

definition repo_update_if_state :: "SnapshotRecord \<Rightarrow> SnapshotState \<Rightarrow> Table \<Rightarrow> bool \<times> Table" where
  "repo_update_if_state r expected tbl =
     (let hit = (\<lambda>row. row_id row = sn_id r \<and> row_state row = state_value expected)
      in (length (filter hit tbl) = 1, map (\<lambda>row. if hit row then to_db_tuple r else row) tbl))"

definition repo_delete :: "string \<Rightarrow> Table \<Rightarrow> Table" where
  "repo_delete x tbl = filter (\<lambda>row. row_id row \<noteq> x) tbl"

section \<open>Encoding and decoding\<close>

lemma json_string_char:
  "json_string (json_char c @ rest) = map_option (apfst (Cons c)) (json_string rest)"
proof -
  have hex: "n < 16 \<Longrightarrow> hex_value (hex_digit n) = Some n" for n
    by (auto simp: hex_value_def hex_digit_def is_digit_def)
  have zero: "hex_value (CHR ''0'') = Some 0" by code_simp
  have code: "char_code c < 256" by (rule nat_of_char_less_256)
  have join: "char_of (16 * (char_code c div 16) + char_code c mod 16) = c" by (simp only: mult_div_mod_eq char_of_char)
  have escapes: "json_escape (CHR ''n'') = Some (CHR 0x0A)" "json_escape (CHR ''r'') = Some (CHR 0x0D)"
    "json_escape (CHR ''t'') = Some (CHR 0x09)" "json_escape (CHR ''f'') = Some (CHR 0x0C)" "json_escape (CHR ''b'') = Some (CHR 0x08)"
    by code_simp+
  have short: "char_code (CHR 0x22) = 34" "char_code (CHR 0x5C) = 92" by code_simp+
  consider (quote) "c = CHR 0x22 \<or> c = CHR 0x5C" | (named) "c \<in> {CHR 0x0A, CHR 0x0D, CHR 0x09, CHR 0x0C, CHR 0x08}"
    | (plain) "c \<noteq> CHR 0x22" "c \<noteq> CHR 0x5C" "c \<notin> {CHR 0x0A, CHR 0x0D, CHR 0x09, CHR 0x0C, CHR 0x08}" "32 \<le> char_code c \<and> char_code c \<le> 126"
    | (code) "c \<noteq> CHR 0x22" "c \<noteq> CHR 0x5C" "c \<notin> {CHR 0x0A, CHR 0x0D, CHR 0x09, CHR 0x0C, CHR 0x08}" "\<not> (32 \<le> char_code c \<and> char_code c \<le> 126)"
    by blast
  then show ?thesis
  proof cases
    case quote
    then show ?thesis by (auto simp: json_char_def json_escape_def)
  next
    case named
    then show ?thesis by (auto simp: json_char_def escapes)
  next
    case plain
    then show ?thesis by (simp add: json_char_def)
  next
    case code
    have "char_code c div 16 < 16" "char_code c mod 16 < 16" using \<open>char_code c < 256\<close> by (simp_all add: less_mult_imp_div_less)
    with code show ?thesis by (simp add: json_char_def hex zero join del: mult_div_mod_eq)
  qed
qed

lemma json_string_str: "json_string (concat (map json_char s) @ CHR 0x22 # rest) = Some (s, rest)"
  by (induction s) (simp_all add: json_string_char del: json_string.simps(2), simp)


lemma skip_ws_simps [simp]:
  "skip_ws [] = []"
  "skip_ws (c # cs) = (if c \<in> {CHR '' '', CHR 0x09, CHR 0x0A, CHR 0x0D} then skip_ws cs else c # cs)"
  by (simp_all add: skip_ws_def)

lemma image_of_json_roundtrip [simp]: "image_of_json (restore_config_to_json config) = Inr (rc_image config)"
proof -
  have key: "json_str ''image'' = CHR 0x22 # ''image'' @ [CHR 0x22]" by code_simp
  define doc where "doc = ''image'' @ CHR 0x22 # '': '' @ (case rc_image config of None \<Rightarrow> ''null'' | Some s \<Rightarrow> json_str s) @ ''}''"
  have json: "restore_config_to_json config = CHR ''{'' # CHR 0x22 # doc"
    by (simp add: restore_config_to_json_def key doc_def)
  have "json_members (Suc n) (CHR 0x22 # doc) = Some [(''image'', rc_image config)]" for n
  proof (cases "rc_image config")
    case None
    then show ?thesis by (simp add: doc_def json_value_def)
  next
    case (Some s)
    then show ?thesis by (simp add: doc_def json_value_def json_str_def json_string_str)
  qed
  then show ?thesis by (simp add: json image_of_json_def)
qed

lemma state_of_value [simp]: "SnapshotState_of (state_value st) = Inr st"
  by (cases st) (simp_all add: SnapshotState_of_def)

lemma state_value_inj [simp]: "state_value a = state_value b \<longleftrightarrow> a = b"
  by (cases a; cases b) simp_all

text \<open>Fields of fixed width.\<close>

lemma length_pad [simp]: "length (pad k n) = k"
  by (induction k arbitrary: n) simp_all

lemma pad_digits: "list_all is_digit (pad k n)"
  by (induction k arbitrary: n) (simp_all add: digit_char)

lemma nat_of_pad: "n < 10 ^ k \<Longrightarrow> nat_of_digits (pad k n) = n"
proof (induction k arbitrary: n)
  case 0
  then show ?case by (simp add: nat_of_digits_def)
next
  case (Suc k)
  then have "n div 10 < 10 ^ k" by (simp add: div_less_iff_less_mult mult.commute)
  with Suc.IH show ?case by (simp add: digit_char)
qed

lemma number_at_pad: "length s = i \<Longrightarrow> n < 10 ^ k \<Longrightarrow> number_at (s @ pad k n @ rest) i k = Some n"
  by (simp add: number_at_def pad_digits nat_of_pad)

lemma days_in_month_le: "days_in_month y m \<le> 31"
  by (simp add: days_in_month_def)

lemma isoformat_shape:
  "isoformat t = (pad 4 (dt_year t) @ ''-'') @ (pad 2 (dt_month t) @ ''-'') @ (pad 2 (dt_day t) @ ''T'') @
     (pad 2 (dt_hour t) @ '':'') @ (pad 2 (dt_minute t) @ '':'') @ pad 2 (dt_second t) @
     (if dt_microsecond t = 0 then ''+00:00'' else ''.'' @ pad 6 (dt_microsecond t) @ ''+00:00'')"
  by (simp add: isoformat_def)

lemma isoformat_numbers:
  assumes "valid_utc t"
  shows "number_at (isoformat t) 0 4 = Some (dt_year t)" and "number_at (isoformat t) 5 2 = Some (dt_month t)"
    and "number_at (isoformat t) 8 2 = Some (dt_day t)" and "number_at (isoformat t) 11 2 = Some (dt_hour t)"
    and "number_at (isoformat t) 14 2 = Some (dt_minute t)" and "number_at (isoformat t) 17 2 = Some (dt_second t)"
    and "dt_microsecond t \<noteq> 0 \<Longrightarrow> number_at (isoformat t) 20 6 = Some (dt_microsecond t)"
proof -
  have d: "dt_day t < 10 ^ 2" using assms days_in_month_le [of "dt_year t" "dt_month t"] by (simp add: valid_utc_def)
  note bounds = assms [unfolded valid_utc_def] d
  note at = number_at_pad [of "[]", simplified] number_at_pad [of "_ @ _ # []", simplified]
  show "number_at (isoformat t) 0 4 = Some (dt_year t)"
    using bounds number_at_pad [of "[]" 0 "dt_year t" 4] by (simp add: isoformat_def)
  show "number_at (isoformat t) 5 2 = Some (dt_month t)"
    using bounds number_at_pad [of "pad 4 (dt_year t) @ ''-''" 5 "dt_month t" 2] by (simp add: isoformat_def)
  show "number_at (isoformat t) 8 2 = Some (dt_day t)"
    using bounds number_at_pad [of "pad 4 (dt_year t) @ ''-'' @ pad 2 (dt_month t) @ ''-''" 8 "dt_day t" 2] by (simp add: isoformat_def)
  show "number_at (isoformat t) 11 2 = Some (dt_hour t)"
    using bounds number_at_pad [of "pad 4 (dt_year t) @ ''-'' @ pad 2 (dt_month t) @ ''-'' @ pad 2 (dt_day t) @ ''T''" 11 "dt_hour t" 2]
    by (simp add: isoformat_def)
  show "number_at (isoformat t) 14 2 = Some (dt_minute t)"
    using bounds number_at_pad [of "pad 4 (dt_year t) @ ''-'' @ pad 2 (dt_month t) @ ''-'' @ pad 2 (dt_day t) @ ''T'' @ pad 2 (dt_hour t) @ '':''" 14 "dt_minute t" 2]
    by (simp add: isoformat_def)
  show "number_at (isoformat t) 17 2 = Some (dt_second t)"
    using bounds number_at_pad [of "pad 4 (dt_year t) @ ''-'' @ pad 2 (dt_month t) @ ''-'' @ pad 2 (dt_day t) @ ''T'' @ pad 2 (dt_hour t) @ '':'' @ pad 2 (dt_minute t) @ '':''" 17 "dt_second t" 2]
    by (simp add: isoformat_def)
  show "number_at (isoformat t) 20 6 = Some (dt_microsecond t)" if "dt_microsecond t \<noteq> 0"
    using that bounds number_at_pad [of "pad 4 (dt_year t) @ ''-'' @ pad 2 (dt_month t) @ ''-'' @ pad 2 (dt_day t) @ ''T'' @ pad 2 (dt_hour t) @ '':'' @ pad 2 (dt_minute t) @ '':'' @ pad 2 (dt_second t) @ ''.''" 20 "dt_microsecond t" 6]
    by (simp add: isoformat_def)
qed

lemma fromisoformat_isoformat:
  assumes "valid_utc t"
  shows "fromisoformat (isoformat t) = Inr t"
proof -
  have seps: "isoformat t ! 4 = CHR ''-''" "isoformat t ! 7 = CHR ''-''" "isoformat t ! 10 = CHR ''T''"
    "isoformat t ! 13 = CHR '':''" "isoformat t ! 16 = CHR '':''"
    by (simp_all add: isoformat_def nth_append)
  have zero: "dt_microsecond t = 0 \<Longrightarrow> drop 19 (isoformat t) = ''+00:00''" by (simp add: isoformat_def)
  have frac: "drop 19 (isoformat t) \<noteq> ''+00:00'' \<and> length (isoformat t) = 32 \<and> isoformat t ! 19 = CHR ''.'' \<and>
      drop 26 (isoformat t) = ''+00:00''" if "dt_microsecond t \<noteq> 0"
    using that by (simp add: isoformat_def nth_append)
  note numbers = isoformat_numbers [OF assms]
  show ?thesis
  proof (cases "dt_microsecond t = 0")
    case True
    with zero numbers(1-6) seps assms show ?thesis
      by (simp add: fromisoformat_def Let_def) (simp add: valid_utc_def)
  next
    case False
    with frac numbers seps assms show ?thesis
      by (simp add: fromisoformat_def Let_def) (simp add: valid_utc_def)
  qed
qed


text \<open>The rows of a record: valid times and a decoding that inverts the encoding.\<close>

definition valid_record :: "SnapshotRecord \<Rightarrow> bool" where
  "valid_record r \<longleftrightarrow>
     valid_utc (sn_created_at r) \<and> valid_utc (sn_updated_at r) \<and> pred_option valid_utc (ss_last_transition_at (sn_status r))"

lemma row_to_record_to_db_tuple:
  assumes "valid_record r"
  shows "row_to_record (to_db_tuple r) = Inr r"
proof -
  have "str_to_datetime (datetime_to_str (ss_last_transition_at (sn_status r))) = Inr (ss_last_transition_at (sn_status r))"
    using assms by (cases "ss_last_transition_at (sn_status r)")
      (auto simp: valid_record_def str_to_datetime_def datetime_to_str_def fromisoformat_isoformat)
  with assms show ?thesis
    by (simp add: valid_record_def row_to_record_def to_db_tuple_def fromisoformat_isoformat)
qed

lemma row_of_record [simp]: "row_id (to_db_tuple r) = sn_id r" "row_state (to_db_tuple r) = state_value (sn_state r)"
    "row_namespace (to_db_tuple r) = sn_namespace r" "row_created_at (to_db_tuple r) = isoformat (sn_created_at r)"
  by (simp_all add: to_db_tuple_def)

section \<open>The order of the listing\<close>

definition time_key :: "UtcTime \<Rightarrow> nat \<times> nat \<times> nat \<times> nat \<times> nat \<times> nat \<times> nat" where
  "time_key t = (dt_year t, dt_month t, dt_day t, dt_hour t, dt_minute t, dt_second t, dt_microsecond t)"

lemma append_less_append:
  "length xs = length ys \<Longrightarrow> xs @ as < ys @ bs \<longleftrightarrow> xs < ys \<or> xs = ys \<and> as < (bs :: 'a :: linorder list)"
  by (induction xs ys rule: list_induct2) auto

lemma pad_less: "m < 10 ^ k \<Longrightarrow> n < 10 ^ k \<Longrightarrow> pad k m < pad k n \<longleftrightarrow> m < n"
proof (induction k arbitrary: m n)
  case (Suc k)
  have d: "m div 10 < 10 ^ k" "n div 10 < 10 ^ k" using Suc.prems by (simp_all add: div_less_iff_less_mult mult.commute)
  have digit: "char_of (48 + a) < char_of (48 + b) \<longleftrightarrow> a < b" if "a < 10" "b < 10" for a b :: nat
    using that by (simp add: less_char_def)
  have inj: "pad k (m div 10) = pad k (n div 10) \<longleftrightarrow> m div 10 = n div 10"
    using nat_of_pad [OF d(1)] nat_of_pad [OF d(2)] by metis
  have "pad (Suc k) m < pad (Suc k) n \<longleftrightarrow> m div 10 < n div 10 \<or> m div 10 = n div 10 \<and> m mod 10 < n mod 10"
    using Suc.IH [OF d] inj digit [of "m mod 10" "n mod 10"] by (simp add: append_less_append)
  also have "\<dots> \<longleftrightarrow> m < n"
    using div_mult_mod_eq [of m 10] div_mult_mod_eq [of n 10] div_le_mono [of m n 10] div_le_mono [of n m 10] by linarith
  finally show ?case .
qed simp

lemma pad_eq: "m < 10 ^ k \<Longrightarrow> n < 10 ^ k \<Longrightarrow> pad k m = pad k n \<longleftrightarrow> m = n"
  by (metis nat_of_pad)

text \<open>
  The text of a time sorts like the time, although the microseconds are left out when they are 0: \<open>+\<close> comes before
  \<open>.\<close>.
\<close>

lemma isoformat_less:
  assumes "valid_utc t" and "valid_utc u"
  shows "isoformat t < isoformat u \<longleftrightarrow> time_key t < time_key u"
proof -
  have day: "dt_day t < 10 ^ 2" "dt_day u < 10 ^ 2"
    using assms days_in_month_le [of "dt_year t" "dt_month t"] days_in_month_le [of "dt_year u" "dt_month u"] by (simp_all add: valid_utc_def)
  have n: "dt_year t < 10 ^ 4" "dt_year u < 10 ^ 4" "dt_month t < 10 ^ 2" "dt_month u < 10 ^ 2" "dt_hour t < 10 ^ 2" "dt_hour u < 10 ^ 2"
    "dt_minute t < 10 ^ 2" "dt_minute u < 10 ^ 2" "dt_second t < 10 ^ 2" "dt_second u < 10 ^ 2" "dt_microsecond t < 10 ^ 6" "dt_microsecond u < 10 ^ 6"
    using assms by (simp_all add: valid_utc_def)
  define frac where "frac x = (if x = 0 then ''+00:00'' else ''.'' @ pad 6 x @ ''+00:00'')" for x
  have plus: "CHR ''+'' < CHR ''.''" "\<not> CHR ''.'' < CHR ''+''" by code_simp+
  have frac: "frac a < frac b \<longleftrightarrow> a < b" if "a < 10 ^ 6" "b < 10 ^ 6" for a b
    using that plus pad_less [OF that] pad_eq [OF that] by (auto simp: frac_def append_less_append)
  have shape: "isoformat x = pad 4 (dt_year x) @ CHR ''-'' # pad 2 (dt_month x) @ CHR ''-'' # pad 2 (dt_day x) @ CHR ''T'' #
      pad 2 (dt_hour x) @ CHR '':'' # pad 2 (dt_minute x) @ CHR '':'' # pad 2 (dt_second x) @ frac (dt_microsecond x)" for x
    by (simp add: isoformat_def frac_def)
  show ?thesis
    unfolding shape time_key_def
    by (simp add: append_less_append pad_less [OF n(1,2)] pad_less [OF n(3,4)] pad_less [OF day] pad_less [OF n(5,6)]
        pad_less [OF n(7,8)] pad_less [OF n(9,10)] frac [OF n(11,12)] pad_eq [OF n(1,2)] pad_eq [OF n(3,4)] pad_eq [OF day]
        pad_eq [OF n(5,6)] pad_eq [OF n(7,8)] pad_eq [OF n(9,10)] del: pad.simps)
      (auto simp: le_less)
qed

end
