(* ===== verification/Snapshot_Repo.thy ===== *)
theory Snapshot_Repo
  imports Snapshot_Rows
begin

text \<open>
  What the statements of the SQLite repository do, seen as a finite map from ids to records, and the pages of its
  listing.
\<close>

section \<open>The repository as a finite map\<close>

text \<open>
  A well-formed table is the encoding of records with valid times and distinct ids; the statements keep it so, and
  read and write it like a map from ids to records.
\<close>

definition wf_records :: "SnapshotRecord list \<Rightarrow> bool" where
  "wf_records rs \<longleftrightarrow> distinct (map sn_id rs) \<and> (\<forall>r\<in>set rs. valid_record r)"

abbreviation table_of :: "SnapshotRecord list \<Rightarrow> Table" where
  "table_of rs \<equiv> map to_db_tuple rs"

definition table_ok :: "Table \<Rightarrow> bool" where
  "table_ok tbl \<longleftrightarrow> (\<exists>rs. tbl = table_of rs \<and> wf_records rs)"

definition stored :: "Table \<Rightarrow> string \<Rightarrow> SnapshotRecord option" where
  "stored tbl i = (case repo_get i tbl of Inr r \<Rightarrow> r | Inl _ \<Rightarrow> None)"

lemma find_record: "wf_records rs \<Longrightarrow> repo_get i (table_of rs) = Inr (List.find (\<lambda>r. sn_id r = i) rs)"
  by (induction rs) (auto simp: repo_get_def wf_records_def row_to_record_to_db_tuple)

lemma find_distinct:
  "distinct (map sn_id rs) \<Longrightarrow> List.find (\<lambda>r. sn_id r = i) rs = Some r \<longleftrightarrow> r \<in> set rs \<and> sn_id r = i"
  by (induction rs) (auto simp: rev_image_eqI)

lemma find_none: "List.find (\<lambda>r. sn_id r = i) rs = None \<longleftrightarrow> i \<notin> sn_id ` set rs"
  by (auto simp: find_None_iff)

lemma stored_Some: "wf_records rs \<Longrightarrow> stored (table_of rs) i = Some r \<longleftrightarrow> r \<in> set rs \<and> sn_id r = i"
  by (simp add: stored_def find_record find_distinct wf_records_def)

lemma repo_get_stored: "table_ok tbl \<Longrightarrow> repo_get i tbl = Inr (stored tbl i)"
  by (auto simp: table_ok_def stored_def find_record)

lemma stored_id: "table_ok tbl \<Longrightarrow> stored tbl i = Some r \<Longrightarrow> sn_id r = i \<and> valid_record r"
  by (auto simp: table_ok_def stored_Some) (auto simp: wf_records_def)

lemma stored_ids:
  assumes "table_ok tbl"
  shows "i \<in> row_id ` set tbl \<longleftrightarrow> stored tbl i \<noteq> None"
proof -
  obtain rs where rs: "tbl = table_of rs" "wf_records rs" using assms by (auto simp: table_ok_def)
  have "row_id ` set tbl = sn_id ` set rs" by (simp add: rs(1) image_image)
  then show ?thesis using find_none [of i rs] by (simp add: rs(1) stored_def find_record [OF rs(2)] del: not_None_eq)
qed

lemma stored_ext:
  assumes "wf_records rs" and "\<And>r. f = Some r \<longleftrightarrow> r \<in> set rs \<and> sn_id r = i"
  shows "stored (table_of rs) i = f"
  using assms(2) stored_Some [OF assms(1), of i] by (metis not_None_eq)

lemma repo_create_law:
  assumes "table_ok tbl" and "valid_record r" and "stored tbl (sn_id r) = None"
  shows "repo_create r tbl = (Inr (), tbl @ [to_db_tuple r])" and "table_ok (tbl @ [to_db_tuple r])"
    and "stored (tbl @ [to_db_tuple r]) = (stored tbl)(sn_id r \<mapsto> r)"
proof -
  obtain rs where rs: "tbl = table_of rs" "wf_records rs" using assms(1) by (auto simp: table_ok_def)
  have new: "sn_id r \<notin> sn_id ` set rs" using assms(3) rs by (simp add: stored_def find_record find_none)
  then show "repo_create r tbl = (Inr (), tbl @ [to_db_tuple r])" by (simp add: repo_create_def rs(1) image_image)
  have wf: "wf_records (rs @ [r])" using rs(2) new assms(2) by (auto simp: wf_records_def)
  have enc: "tbl @ [to_db_tuple r] = table_of (rs @ [r])" by (simp add: rs(1))
  show "table_ok (tbl @ [to_db_tuple r])" unfolding enc table_ok_def using wf by blast
  show "stored (tbl @ [to_db_tuple r]) = (stored tbl)(sn_id r \<mapsto> r)"
    unfolding enc using new
    by (intro ext stored_ext [OF wf]) (auto simp: rs(1) stored_Some [OF rs(2)] image_iff)
qed

lemma repo_create_taken: "table_ok tbl \<Longrightarrow> stored tbl (sn_id r) \<noteq> None \<Longrightarrow> \<exists>e. repo_create r tbl = (Inl e, tbl)"
  using stored_ids [of tbl "sn_id r"] by (simp add: repo_create_def)

lemma find_map: "List.find P (map f xs) = map_option f (List.find (P \<circ> f) xs)"
  by (induction xs) simp_all

lemma one_hit:
  assumes "wf_records rs"
  shows "length (filter (\<lambda>r0. sn_id r0 = i \<and> P r0) rs) = 1 \<longleftrightarrow> (\<exists>r0\<in>set rs. sn_id r0 = i \<and> P r0)"
proof -
  have "length (filter (\<lambda>r0. sn_id r0 = i \<and> P r0) rs) \<le> 1"
    using assms unfolding wf_records_def by (induction rs) (auto simp: filter_empty_conv rev_image_eqI)
  then have "length (filter (\<lambda>r0. sn_id r0 = i \<and> P r0) rs) = 1 \<longleftrightarrow> filter (\<lambda>r0. sn_id r0 = i \<and> P r0) rs \<noteq> []"
    by (cases "filter (\<lambda>r0. sn_id r0 = i \<and> P r0) rs") auto
  then show ?thesis by (auto simp: filter_empty_conv)
qed

lemma repo_update_if_law:
  assumes "table_ok tbl" and "valid_record r" and "repo_update_if_state r expected tbl = (b, tbl')"
  shows "table_ok tbl'" and "b \<longleftrightarrow> (\<exists>r0. stored tbl (sn_id r) = Some r0 \<and> sn_state r0 = expected)"
    and "stored tbl' = (if b then (stored tbl)(sn_id r \<mapsto> r) else stored tbl)"
proof -
  obtain rs where rs: "tbl = table_of rs" "wf_records rs" using assms(1) by (auto simp: table_ok_def)
  let ?hit = "\<lambda>r0. sn_id r0 = sn_id r \<and> sn_state r0 = expected"
  let ?rs = "map (\<lambda>r0. if ?hit r0 then r else r0) rs"
  have ids: "sn_id (if ?hit r0 then r else r0) = sn_id r0" for r0 by simp
  have "map sn_id ?rs = map sn_id rs" by simp
  then have "distinct (map sn_id ?rs)" using rs(2) unfolding wf_records_def by metis
  moreover have "\<forall>c\<in>set ?rs. valid_record c" using rs(2) assms(2) by (auto simp: wf_records_def)
  ultimately have wf: "wf_records ?rs" unfolding wf_records_def by blast
  have tbl': "tbl' = table_of ?rs" using assms(3) by (auto simp: repo_update_if_state_def rs(1))
  then show "table_ok tbl'" using wf unfolding table_ok_def by blast
  have upd: "stored tbl' i = map_option (\<lambda>r0. if ?hit r0 then r else r0) (stored tbl i)" for i
    unfolding tbl' stored_def find_record [OF wf] rs(1) find_record [OF rs(2)] by (simp add: find_map o_def ids)
  have "b = (length (filter ?hit rs) = 1)"
    using assms(3) by (auto simp: repo_update_if_state_def rs(1) filter_map o_def)
  with one_hit [OF rs(2)] show b: "b \<longleftrightarrow> (\<exists>r0. stored tbl (sn_id r) = Some r0 \<and> sn_state r0 = expected)"
    by (auto simp: rs(1) stored_Some [OF rs(2)])
  show "stored tbl' = (if b then (stored tbl)(sn_id r \<mapsto> r) else stored tbl)"
  proof
    fix i
    have "sn_id r0 = i" if "stored tbl i = Some r0" for r0 using stored_id [OF assms(1) that] by simp
    then show "stored tbl' i = (if b then (stored tbl)(sn_id r \<mapsto> r) else stored tbl) i"
      unfolding upd using b by (cases "stored tbl i") auto
  qed
qed

lemma repo_delete_law:
  assumes "table_ok tbl"
  shows "table_ok (repo_delete i tbl)" and "stored (repo_delete i tbl) = (stored tbl)(i := None)"
proof -
  obtain rs where rs: "tbl = table_of rs" "wf_records rs" using assms by (auto simp: table_ok_def)
  have enc: "repo_delete i tbl = table_of (filter (\<lambda>r. sn_id r \<noteq> i) rs)" by (simp add: repo_delete_def rs(1) filter_map o_def)
  have wf: "wf_records (filter (\<lambda>r. sn_id r \<noteq> i) rs)" using rs(2) by (auto simp: wf_records_def distinct_map_filter)
  show "table_ok (repo_delete i tbl)" using wf enc unfolding table_ok_def by blast
  show "stored (repo_delete i tbl) = (stored tbl)(i := None)"
    unfolding enc by (rule ext, rule stored_ext [OF wf]) (auto simp: rs(1) stored_Some [OF rs(2)])
qed


text \<open>
  Claim C29. The repository reads back what it wrote: after a create, a conditional update or a delete, \<open>get\<close> returns
  exactly the records of the map that the statement denotes, decoded from their text columns.
\<close>

theorem snapshot_rows_roundtrip:
  assumes "table_ok tbl" and "valid_record r"
  shows "(stored tbl (sn_id r) = None \<longrightarrow>
            repo_get i (snd (repo_create r tbl)) = Inr (if i = sn_id r then Some r else stored tbl i)) \<and>
    repo_get i (snd (repo_update_if_state r expected tbl)) =
      Inr (if i = sn_id r \<and> map_option sn_state (stored tbl i) = Some expected then Some r else stored tbl i) \<and>
    repo_get i (repo_delete j tbl) = Inr (if i = j then None else stored tbl i)"
proof (intro conjI impI)
  assume "stored tbl (sn_id r) = None"
  note law = repo_create_law [OF assms this]
  show "repo_get i (snd (repo_create r tbl)) = Inr (if i = sn_id r then Some r else stored tbl i)"
    using repo_get_stored [OF law(2)] law(1,3) by simp
next
  obtain b tbl' where u: "repo_update_if_state r expected tbl = (b, tbl')" by fastforce
  note law = repo_update_if_law [OF assms u]
  show "repo_get i (snd (repo_update_if_state r expected tbl)) =
      Inr (if i = sn_id r \<and> map_option sn_state (stored tbl i) = Some expected then Some r else stored tbl i)"
    using repo_get_stored [OF law(1)] law(2,3) u by auto
next
  show "repo_get i (repo_delete j tbl) = Inr (if i = j then None else stored tbl i)"
    using repo_get_stored [OF repo_delete_law(1) [OF assms(1)]] repo_delete_law(2) [OF assms(1)] by simp
qed

section \<open>Listing\<close>

lemma rows_to_records_table: "\<forall>r\<in>set rs. valid_record r \<Longrightarrow> rows_to_records (table_of rs) = Inr rs"
  by (induction rs) (simp_all add: row_to_record_to_db_tuple)

lemma insort_key_map: "insort_key k (f x) (map f xs) = map f (insort_key (k \<circ> f) x xs)"
  by (induction xs) simp_all

lemma sort_key_map: "sort_key k (map f xs) = map f (sort_key (k \<circ> f) xs)"
  by (induction xs) (simp_all add: insort_key_map [unfolded o_def] o_def)

definition newer :: "SnapshotRecord \<Rightarrow> SnapshotRecord \<Rightarrow> bool" where
  "newer a b \<longleftrightarrow> (time_key (sn_created_at b), sn_id b) < (time_key (sn_created_at a), sn_id a)"

definition matching :: "SnapshotListQuery \<Rightarrow> SnapshotRecord list \<Rightarrow> SnapshotRecord list" where
  "matching q rs =
     rev (sort_key (\<lambda>r. (isoformat (sn_created_at r), sn_id r)) (filter (\<lambda>r. row_matches q (to_db_tuple r)) rs))"

lemma set_matching: "set (matching q rs) = {r \<in> set rs. row_matches q (to_db_tuple r)}"
  by (simp add: matching_def)

lemma matching_rows_table: "matching_rows q (table_of rs) = table_of (matching q rs)"
  by (simp add: matching_rows_def newest_first_def matching_def filter_map sort_key_map o_def rev_map)

lemma time_key_inj: "time_key t = time_key u \<Longrightarrow> t = u"
  by (cases t; cases u) (simp add: time_key_def)

lemma matching_newest_first:
  assumes "wf_records rs"
  shows "sorted_wrt newer (matching q rs)"
proof -
  let ?key = "\<lambda>r. (isoformat (sn_created_at r), sn_id r)" and ?ms = "sort_key (\<lambda>r. (isoformat (sn_created_at r), sn_id r)) (filter (\<lambda>r. row_matches q (to_db_tuple r)) rs)"
  have newer: "newer b a" if "a \<in> set ?ms" "b \<in> set ?ms" "?key a < ?key b" for a b
  proof -
    have valid: "valid_utc (sn_created_at a)" "valid_utc (sn_created_at b)"
      using that(1,2) assms by (auto simp: wf_records_def valid_record_def)
    have eq: "sn_created_at a = sn_created_at b" if "isoformat (sn_created_at a) = isoformat (sn_created_at b)"
      using fromisoformat_isoformat [OF valid(1)] fromisoformat_isoformat [OF valid(2)] that by (metis sum.inject(2))
    from that(3) consider "isoformat (sn_created_at a) < isoformat (sn_created_at b)"
      | "isoformat (sn_created_at a) = isoformat (sn_created_at b)" "sn_id a < sn_id b"
      unfolding less_prod_simp le_less by blast
    then show ?thesis
      by cases (use isoformat_less [OF valid] eq in \<open>simp_all add: newer_def\<close>)
  qed
  have ids: "distinct (map sn_id ?ms)"
    using assms by (simp add: wf_records_def distinct_map inj_on_def)
  have "distinct (map ?key ?ms)"
    unfolding distinct_map
  proof
    show "distinct ?ms" using ids unfolding distinct_map by blast
    show "inj_on ?key (set ?ms)" using ids unfolding distinct_map inj_on_def by blast
  qed
  moreover have "sorted (map ?key ?ms)" by (rule sorted_sort_key)
  ultimately have "sorted_wrt (<) (map ?key ?ms)" unfolding strict_sorted_iff by blast
  then have "sorted_wrt (\<lambda>a b. ?key a < ?key b) ?ms" by (simp only: sorted_wrt_map)
  then have "sorted_wrt (\<lambda>a b. newer b a) ?ms" by (rule sorted_wrt_mono_rel [rotated]) (rule newer)
  then show ?thesis unfolding matching_def sorted_wrt_rev .
qed

lemma repo_list_law:
  assumes "wf_records rs"
  shows "repo_list q (table_of rs) =
    Inr \<lparr>lr_items = page_of (q_page q) (q_page_size q) (matching q rs), lr_total_items = length (matching q rs)\<rparr>"
proof -
  have "page_of p n (table_of xs) = table_of (page_of p n xs)" for p n xs
    by (simp add: page_of_def Let_def take_map drop_map)
  moreover have "set (page_of p n xs) \<subseteq> set xs" for p n and xs :: "SnapshotRecord list"
    by (auto simp: page_of_def Let_def dest: in_set_takeD in_set_dropD)
  moreover have "\<forall>r\<in>set (matching q rs). valid_record r" using assms by (simp add: set_matching wf_records_def)
  ultimately have "rows_to_records (page_of p n (table_of (matching q rs))) = Inr (page_of p n (matching q rs))" for p n
    using rows_to_records_table by (metis subsetD)
  then show ?thesis by (simp add: repo_list_def matching_rows_table)
qed

text \<open>The pages of a list, one after the other, are the list.\<close>

lemma pages_concat:
  assumes "0 < n"
  shows "concat (map (\<lambda>p. page_of (int p) (int n) xs) [1..<Suc k]) = take (k * n) xs"
proof (induction k)
  case (Suc k)
  have m: "max (int (Suc k)) 1 = int (Suc k)" "max (int n) 1 = int n" "nat ((int (Suc k) - 1) * int n) = k * n"
    using assms by (simp_all flip: of_nat_mult)
  then have "page_of (int (Suc k)) (int n) xs = take n (drop (k * n) xs)"
    unfolding page_of_def Let_def m by simp
  then have "concat (map (\<lambda>p. page_of (int p) (int n) xs) [1..<Suc (Suc k)]) = take (k * n) xs @ take n (drop (k * n) xs)"
    using Suc.IH by simp
  also have "\<dots> = take (Suc k * n) xs" by (metis add.commute mult_Suc take_add)
  finally show ?case .
qed simp

end
