(* ===== verification/Snapshot_Service.thy ===== *)
theory Snapshot_Service
  imports Snapshot_Repo Py_Float Prog_Logic
begin

text \<open>
  The snapshot service of the lifecycle server (\<open>services/snapshot_service.py\<close>, \<open>services/snapshot_restore.py\<close>).
  Request handlers, workers and the recovery run concurrently on one repository, so an operation is a program that
  calls the repository, the runtime, the clock and the executor: between two calls other threads may run. The
  repository calls are the atomic statements of the previous theory; the runtime, the sandbox service and the executor
  are interfaces whose answers are arbitrary.
\<close>

section \<open>Programs\<close>

record SnapshotRuntimeStatus =
  rs_state :: SnapshotState
  rs_image :: "string option"
  rs_reason :: "string option"
  rs_message :: "string option"

text \<open>
  What the sandbox service returns: a dictionary or an object, with a status that is one or the other, or neither;
  each gives a \<open>state\<close>, or none.
\<close>

datatype status_value = DictStatus "string option" | ObjectStatus "string option" | OtherStatus

datatype sandbox_value = DictSandbox "status_value option" | ObjectSandbox "status_value option"

datatype 'a prog =
    Return 'a
  | Raise exn
  | RepoCreate SnapshotRecord "unit result \<Rightarrow> 'a prog"
  | RepoGet string "SnapshotRecord option result \<Rightarrow> 'a prog"
  | RepoList SnapshotListQuery "SnapshotListResult result \<Rightarrow> 'a prog"
  | RepoUpdateIf SnapshotRecord SnapshotState "bool result \<Rightarrow> 'a prog"
  | RepoDelete string "unit result \<Rightarrow> 'a prog"
  | RtSupports "bool result \<Rightarrow> 'a prog"
  | RtUnsupportedMessage "string result \<Rightarrow> 'a prog"
  | RtCreate string string "string option" "SnapshotRuntimeStatus option result \<Rightarrow> 'a prog"
  | RtInspect string "string option" "string option" "SnapshotRuntimeStatus result \<Rightarrow> 'a prog"
  | RtDelete string "string option" "string option" "unit result \<Rightarrow> 'a prog"
  | GetSandbox string "sandbox_value result \<Rightarrow> 'a prog"
  | Now "UtcTime \<Rightarrow> 'a prog"
  | Uuid4 "string \<Rightarrow> 'a prog"
  | Submit SnapshotRecord "unit result \<Rightarrow> 'a prog"

primrec bindP :: "'a prog \<Rightarrow> ('a \<Rightarrow> 'b prog) \<Rightarrow> 'b prog" where
  "bindP (Return a) f = f a"
| "bindP (Raise e) f = Raise e"
| "bindP (RepoCreate r k) f = RepoCreate r (\<lambda>x. bindP (k x) f)"
| "bindP (RepoGet i k) f = RepoGet i (\<lambda>x. bindP (k x) f)"
| "bindP (RepoList q k) f = RepoList q (\<lambda>x. bindP (k x) f)"
| "bindP (RepoUpdateIf r st k) f = RepoUpdateIf r st (\<lambda>x. bindP (k x) f)"
| "bindP (RepoDelete i k) f = RepoDelete i (\<lambda>x. bindP (k x) f)"
| "bindP (RtSupports k) f = RtSupports (\<lambda>x. bindP (k x) f)"
| "bindP (RtUnsupportedMessage k) f = RtUnsupportedMessage (\<lambda>x. bindP (k x) f)"
| "bindP (RtCreate i sb ns k) f = RtCreate i sb ns (\<lambda>x. bindP (k x) f)"
| "bindP (RtInspect i im ns k) f = RtInspect i im ns (\<lambda>x. bindP (k x) f)"
| "bindP (RtDelete i im ns k) f = RtDelete i im ns (\<lambda>x. bindP (k x) f)"
| "bindP (GetSandbox i k) f = GetSandbox i (\<lambda>x. bindP (k x) f)"
| "bindP (Now k) f = Now (\<lambda>x. bindP (k x) f)"
| "bindP (Uuid4 k) f = Uuid4 (\<lambda>x. bindP (k x) f)"
| "bindP (Submit r k) f = Submit r (\<lambda>x. bindP (k x) f)"

definition thenP :: "'a prog \<Rightarrow> 'b prog \<Rightarrow> 'b prog" where
  "thenP m n = bindP m (\<lambda>_. n)"

text \<open>\<open>try: m except Exception: h\<close>\<close>

primrec exceptP :: "'a prog \<Rightarrow> (exn \<Rightarrow> 'a prog) \<Rightarrow> 'a prog" where
  "exceptP (Return a) h = Return a"
| "exceptP (Raise e) h = (if is_Exception e then h e else Raise e)"
| "exceptP (RepoCreate r k) h = RepoCreate r (\<lambda>x. exceptP (k x) h)"
| "exceptP (RepoGet i k) h = RepoGet i (\<lambda>x. exceptP (k x) h)"
| "exceptP (RepoList q k) h = RepoList q (\<lambda>x. exceptP (k x) h)"
| "exceptP (RepoUpdateIf r st k) h = RepoUpdateIf r st (\<lambda>x. exceptP (k x) h)"
| "exceptP (RepoDelete i k) h = RepoDelete i (\<lambda>x. exceptP (k x) h)"
| "exceptP (RtSupports k) h = RtSupports (\<lambda>x. exceptP (k x) h)"
| "exceptP (RtUnsupportedMessage k) h = RtUnsupportedMessage (\<lambda>x. exceptP (k x) h)"
| "exceptP (RtCreate i sb ns k) h = RtCreate i sb ns (\<lambda>x. exceptP (k x) h)"
| "exceptP (RtInspect i im ns k) h = RtInspect i im ns (\<lambda>x. exceptP (k x) h)"
| "exceptP (RtDelete i im ns k) h = RtDelete i im ns (\<lambda>x. exceptP (k x) h)"
| "exceptP (GetSandbox i k) h = GetSandbox i (\<lambda>x. exceptP (k x) h)"
| "exceptP (Now k) h = Now (\<lambda>x. exceptP (k x) h)"
| "exceptP (Uuid4 k) h = Uuid4 (\<lambda>x. exceptP (k x) h)"
| "exceptP (Submit r k) h = Submit r (\<lambda>x. exceptP (k x) h)"

text \<open>An answer that is an exception is raised in the caller.\<close>

definition answer :: "'a result \<Rightarrow> 'a prog" where
  "answer r = (case r of Inl e \<Rightarrow> Raise e | Inr a \<Rightarrow> Return a)"

section \<open>Helpers\<close>

definition not_found :: "string \<Rightarrow> exn" where
  "not_found i = HTTPException 404 ''SNAPSHOT::NOT_FOUND'' (''Snapshot '' @ i @ '' not found'')"

definition invalid_state :: "string \<Rightarrow> string \<Rightarrow> exn" where
  "invalid_state i what = HTTPException 409 ''SNAPSHOT::INVALID_STATE'' (''Snapshot '' @ i @ what)"

abbreviation truthy :: "string option \<Rightarrow> bool" where
  "truthy s \<equiv> s \<noteq> None \<and> s \<noteq> Some []"

text \<open>\<open>get_current_tenant\<close> is an argument: the namespace of the tenant, or none without tenants.\<close>

definition verify_tenant_access :: "string option \<Rightarrow> SnapshotRecord \<Rightarrow> unit prog" where
  "verify_tenant_access tenant r =
     (case tenant of
        None \<Rightarrow> Return ()
      | Some ns \<Rightarrow> if sn_namespace r = None \<or> sn_namespace r \<noteq> Some ns then Raise (not_found (sn_id r)) else Return ())"

definition state_of_status :: "status_value option \<Rightarrow> string option" where
  "state_of_status v =
     (case v of Some (DictStatus s) \<Rightarrow> s | Some (ObjectStatus s) \<Rightarrow> s | Some OtherStatus \<Rightarrow> None | None \<Rightarrow> None)"

definition sandbox_state :: "sandbox_value \<Rightarrow> string option" where
  "sandbox_state sb = (case sb of DictSandbox v \<Rightarrow> state_of_status v | ObjectSandbox v \<Rightarrow> state_of_status v)"

definition ensure_source_sandbox_running :: "sandbox_value \<Rightarrow> unit prog" where
  "ensure_source_sandbox_running sb =
     (if sandbox_state sb = Some ''Running'' then Return ()
      else Raise (HTTPException 409 ''SNAPSHOT::INVALID_SOURCE_STATE'' ''Snapshot can only be created from a Running sandbox.''))"

record SnapshotStatus =
  st_state :: string
  st_reason :: "string option"
  st_message :: "string option"
  st_last_transition_at :: "UtcTime option"

record Snapshot =
  snap_id :: string
  snap_sandbox_id :: string
  snap_name :: "string option"
  snap_status :: SnapshotStatus
  snap_created_at :: UtcTime

definition to_snapshot_response :: "SnapshotRecord \<Rightarrow> Snapshot" where
  "to_snapshot_response r =
     \<lparr>snap_id = sn_id r, snap_sandbox_id = sn_source_sandbox_id r, snap_name = sn_name r,
      snap_status = \<lparr>st_state = state_value (sn_state r), st_reason = ss_reason (sn_status r),
                     st_message = ss_message (sn_status r), st_last_transition_at = ss_last_transition_at (sn_status r)\<rparr>,
      snap_created_at = sn_created_at r\<rparr>"

section \<open>Completion of a snapshot\<close>

definition cleanup_runtime_artifact :: "string \<Rightarrow> string option \<Rightarrow> string option \<Rightarrow> unit prog" where
  "cleanup_runtime_artifact i im ns =
     (if \<not> truthy im then Return ()
      else exceptP (RtDelete i im ns answer) (\<lambda>_. Return ()))"

definition with_status :: "SnapshotRecord \<Rightarrow> SnapshotState \<Rightarrow> string option \<Rightarrow> string option \<Rightarrow> UtcTime \<Rightarrow> SnapshotRecord" where
  "with_status r state reason message now =
     r\<lparr>sn_status := \<lparr>ss_state = state, ss_reason = reason, ss_message = message, ss_last_transition_at = Some now\<rparr>,
       sn_updated_at := now\<rparr>"

definition runtime_status_record :: "SnapshotRecord \<Rightarrow> SnapshotRuntimeStatus \<Rightarrow> UtcTime \<Rightarrow> SnapshotRecord option" where
  "runtime_status_record r status now =
     (if rs_state status = READY
      then if \<not> truthy (rs_image status)
           then Some (with_status r FAILED (Some ''snapshot_runtime_missing_image'')
                  (Some ''Runtime reported Ready without a snapshot image.'') now)
           else Some (with_status (r\<lparr>sn_restore_config := \<lparr>rc_image = rs_image status\<rparr>\<rparr>) READY (rs_reason status) (rs_message status) now)
      else if rs_state status = FAILED then Some (with_status r FAILED (rs_reason status) (rs_message status) now)
      else None)"

definition build_runtime_status_record :: "SnapshotRecord \<Rightarrow> SnapshotRuntimeStatus \<Rightarrow> SnapshotRecord option prog" where
  "build_runtime_status_record r status = Now (\<lambda>now. Return (runtime_status_record r status now))"

definition complete_snapshot :: "SnapshotRecord \<Rightarrow> SnapshotRuntimeStatus \<Rightarrow> unit prog" where
  "complete_snapshot record status =
     bindP (RepoGet (sn_id record) answer) (\<lambda>current.
       case current of
         None \<Rightarrow> cleanup_runtime_artifact (sn_id record) (rs_image status) (sn_namespace record)
       | Some cur \<Rightarrow>
           if sn_state cur = DELETING
           then thenP (cleanup_runtime_artifact (sn_id cur) (rs_image status) (sn_namespace cur)) (RepoDelete (sn_id cur) answer)
           else if sn_state cur \<noteq> CREATING then Return ()
           else bindP (build_runtime_status_record cur status) (\<lambda>updated.
                  case updated of
                    None \<Rightarrow> Return ()
                  | Some r \<Rightarrow> bindP (RepoUpdateIf r CREATING answer) (\<lambda>_. Return ())))"

text \<open>\<open>str(exc)\<close> of an exception of the runtime is the parameter \<open>str_exn\<close>.\<close>

definition create_snapshot_worker :: "(exn \<Rightarrow> string) \<Rightarrow> SnapshotRecord \<Rightarrow> unit prog" where
  "create_snapshot_worker str_exn record =
     bindP (exceptP (bindP (RtCreate (sn_id record) (sn_source_sandbox_id record) (sn_namespace record) answer) (\<lambda>s. Return (Inr s)))
              (\<lambda>e. Return (Inl e)))
       (\<lambda>outcome. case outcome of
          Inl e \<Rightarrow> complete_snapshot record
            \<lparr>rs_state = FAILED, rs_image = None, rs_reason = Some ''snapshot_runtime_failed'', rs_message = Some (str_exn e)\<rparr>
        | Inr None \<Rightarrow> complete_snapshot record
            \<lparr>rs_state = FAILED, rs_image = None, rs_reason = Some ''snapshot_runtime_missing_result'',
             rs_message = Some ''Snapshot runtime did not return a final status.''\<rparr>
        | Inr (Some status) \<Rightarrow> complete_snapshot record status)"

section \<open>Requests\<close>

definition create_snapshot :: "string option \<Rightarrow> string \<Rightarrow> string option \<Rightarrow> Snapshot prog" where
  "create_snapshot tenant sandbox_id name =
     bindP (GetSandbox sandbox_id answer) (\<lambda>sandbox.
     thenP (ensure_source_sandbox_running sandbox)
     (bindP (RtSupports answer) (\<lambda>supported.
       if \<not> supported
       then bindP (RtUnsupportedMessage answer) (\<lambda>message. Raise (HTTPException 501 ''SNAPSHOT::NOT_IMPLEMENTED'' message))
       else Now (\<lambda>now. Uuid4 (\<lambda>i.
         let record = \<lparr>sn_id = i, sn_source_sandbox_id = sandbox_id, sn_namespace = tenant, sn_name = name, sn_description = None,
               sn_restore_config = \<lparr>rc_image = None\<rparr>,
               sn_status = \<lparr>ss_state = CREATING, ss_reason = Some ''snapshot_accepted'',
                            ss_message = Some ''Snapshot creation accepted.'', ss_last_transition_at = Some now\<rparr>,
               sn_created_at = now, sn_updated_at = now\<rparr>
         in thenP (RepoCreate record answer)
              (thenP (Submit record answer) (Return (to_snapshot_response record))))))))"

record PaginationRequest =
  pr_page :: int
  pr_page_size :: int

record SnapshotFilter =
  sf_sandbox_id :: "string option"
  sf_name :: "string option"
  sf_state :: "string list option"

record PaginationInfo =
  pi_page :: int
  pi_page_size :: int
  pi_total_items :: nat
  pi_total_pages :: int
  pi_has_next_page :: bool

record ListSnapshotsResponse =
  ls_items :: "Snapshot list"
  ls_pagination :: PaginationInfo

definition default_pagination :: PaginationRequest where
  "default_pagination = \<lparr>pr_page = 1, pr_page_size = 20\<rparr>"

text \<open>\<open>ceil(total_items / page_size)\<close>: the quotient is a float.\<close>

definition total_pages_of :: "nat \<Rightarrow> int \<Rightarrow> int" where
  "total_pages_of total_items page_size =
     (if 0 < total_items then \<lceil>fl (of_nat total_items / of_int page_size)\<rceil> else 0)"

definition list_snapshots :: "string option \<Rightarrow> SnapshotFilter \<Rightarrow> PaginationRequest option \<Rightarrow> ListSnapshotsResponse prog" where
  "list_snapshots tenant filt pagination =
     (let p = (case pagination of None \<Rightarrow> default_pagination | Some p \<Rightarrow> p)
      in bindP (RepoList \<lparr>q_page = pr_page p, q_page_size = pr_page_size p, q_source_sandbox_id = sf_sandbox_id filt,
                  q_name = sf_name filt, q_states = (case sf_state filt of None \<Rightarrow> [] | Some l \<Rightarrow> l), q_namespace = tenant\<rparr> answer)
         (\<lambda>found.
            let total_pages = total_pages_of (lr_total_items found) (pr_page_size p)
            in Return \<lparr>ls_items = map to_snapshot_response (lr_items found),
                       ls_pagination = \<lparr>pi_page = pr_page p, pi_page_size = pr_page_size p, pi_total_items = lr_total_items found,
                                        pi_total_pages = total_pages, pi_has_next_page = pr_page p < total_pages\<rparr>\<rparr>))"

definition get_snapshot :: "string option \<Rightarrow> string \<Rightarrow> Snapshot prog" where
  "get_snapshot tenant i =
     bindP (RepoGet i answer) (\<lambda>record.
       case record of
         None \<Rightarrow> Raise (not_found i)
       | Some r \<Rightarrow> thenP (verify_tenant_access tenant r) (Return (to_snapshot_response r)))"

definition mark_snapshot_deleting :: "SnapshotRecord \<Rightarrow> SnapshotRecord option prog" where
  "mark_snapshot_deleting record =
     Now (\<lambda>now.
       let deleting = with_status record DELETING (Some ''snapshot_delete_requested'') (Some ''Snapshot deletion requested.'') now
       in bindP (RepoUpdateIf deleting (sn_state record) answer) (\<lambda>updated.
            if updated then Return (Some deleting)
            else bindP (RepoGet (sn_id record) answer) (\<lambda>current.
              case current of
                None \<Rightarrow> Return None
              | Some cur \<Rightarrow>
                  if sn_state cur = DELETING then Return (Some cur)
                  else Raise (invalid_state (sn_id record) '' changed state and cannot be deleted''))))"

definition delete_snapshot :: "string option \<Rightarrow> string \<Rightarrow> unit prog" where
  "delete_snapshot tenant i =
     bindP (RepoGet i answer) (\<lambda>record.
       case record of
         None \<Rightarrow> Raise (not_found i)
       | Some r \<Rightarrow>
           thenP (verify_tenant_access tenant r)
           (if sn_state r = CREATING then Raise (invalid_state i '' is still being created and cannot be deleted'')
            else bindP (if sn_state r \<noteq> DELETING then mark_snapshot_deleting r else Return (Some r)) (\<lambda>marked.
              case marked of
                None \<Rightarrow> Return ()
              | Some d \<Rightarrow> thenP (RtDelete i (sn_image d) (sn_namespace d) answer) (RepoDelete i answer))))"

section \<open>Recovery\<close>

definition SNAPSHOT_RECOVERY_PAGE_SIZE :: int where
  "SNAPSHOT_RECOVERY_PAGE_SIZE = 200"

definition recovery_query :: SnapshotListQuery where
  "recovery_query =
     \<lparr>q_page = 1, q_page_size = SNAPSHOT_RECOVERY_PAGE_SIZE, q_source_sandbox_id = None, q_name = None,
      q_states = [state_value CREATING, state_value DELETING], q_namespace = None\<rparr>"

definition recover_unfinished_snapshot :: "SnapshotRecord \<Rightarrow> bool prog" where
  "recover_unfinished_snapshot record =
     (if sn_state record = CREATING
      then bindP (RtInspect (sn_id record) (sn_image record) (sn_namespace record) answer) (\<lambda>status.
             if rs_state status = CREATING then thenP (Submit record answer) (Return False)
             else thenP (complete_snapshot record status) (Return True))
      else if sn_state record = DELETING
      then bindP (exceptP (thenP (RtDelete (sn_id record) (sn_image record) (sn_namespace record) answer) (Return True))
                    (\<lambda>_. Return False))
             (\<lambda>removed. if removed then thenP (RepoDelete (sn_id record) answer) (Return True) else Return False)
      else Return False)"

definition recover_one :: "(exn \<Rightarrow> string) \<Rightarrow> SnapshotRecord \<Rightarrow> bool \<Rightarrow> bool prog" where
  "recover_one str_exn record progressed =
     bindP (exceptP (bindP (recover_unfinished_snapshot record) (\<lambda>b. Return (Inr b))) (\<lambda>e. Return (Inl e)))
       (\<lambda>outcome. case outcome of
          Inr b \<Rightarrow> Return (b \<or> progressed)
        | Inl e \<Rightarrow> thenP (complete_snapshot record
            \<lparr>rs_state = FAILED, rs_image = None, rs_reason = Some ''snapshot_recovery_failed'',
             rs_message = Some (''Failed to recover unfinished snapshot: '' @ str_exn e)\<rparr>) (Return True))"

fun recover_items :: "(exn \<Rightarrow> string) \<Rightarrow> SnapshotRecord list \<Rightarrow> bool \<Rightarrow> bool prog" where
  "recover_items str_exn [] progressed = Return progressed"
| "recover_items str_exn (r # rs) progressed = bindP (recover_one str_exn r progressed) (recover_items str_exn rs)"

text \<open>The rounds of the loop run on fuel; \<open>None\<close> says that it was used up.\<close>

fun recover_unfinished_snapshots :: "(exn \<Rightarrow> string) \<Rightarrow> nat \<Rightarrow> unit option prog" where
  "recover_unfinished_snapshots str_exn 0 = Return None"
| "recover_unfinished_snapshots str_exn (Suc fuel) =
     bindP (RepoList recovery_query answer) (\<lambda>found.
       if lr_items found = [] then Return (Some ())
       else bindP (recover_items str_exn (lr_items found) False) (\<lambda>progressed.
         if \<not> progressed then Return (Some ()) else recover_unfinished_snapshots str_exn fuel))"


section \<open>Restoring a sandbox\<close>

record ImageSpec =
  img_uri :: string
  img_auth :: "(string \<times> string) option"

text \<open>The fields of \<open>CreateSandboxRequest\<close> that the resolution reads or writes.\<close>

record RestoreRequest =
  req_image :: "ImageSpec option"
  req_snapshot_id :: "string option"
  req_entrypoint :: "string list option"

definition DEFAULT_SNAPSHOT_RESTORE_ENTRYPOINT :: "string list" where
  "DEFAULT_SNAPSHOT_RESTORE_ENTRYPOINT = [''tail'', ''-f'', ''/dev/null'']"

abbreviation or_empty :: "string option \<Rightarrow> string" where
  "or_empty s \<equiv> case s of None \<Rightarrow> [] | Some v \<Rightarrow> v"

definition resolve_sandbox_image_from_request :: "string option \<Rightarrow> RestoreRequest \<Rightarrow> RestoreRequest prog" where
  "resolve_sandbox_image_from_request tenant req =
     (if (case req_image req of None \<Rightarrow> False | Some im \<Rightarrow> py_strip (img_uri im) \<noteq> []) then Return req
      else let snapshot_id = py_strip (or_empty (req_snapshot_id req))
        in if snapshot_id = []
           then Raise (HTTPException 400 ''SANDBOX::INVALID_PARAMETER'' ''Either image or snapshotId must be provided.'')
           else bindP (RepoGet snapshot_id answer) (\<lambda>found.
             case found of
               None \<Rightarrow> Raise (not_found snapshot_id)
             | Some r \<Rightarrow>
                 if tenant \<noteq> None \<and> (sn_namespace r = None \<or> sn_namespace r \<noteq> tenant) then Raise (not_found snapshot_id)
                 else if sn_state r \<noteq> READY
                 then Raise (HTTPException 409 ''SNAPSHOT::NOT_READY'' (''Snapshot '' @ snapshot_id @ '' is not ready for restore.''))
                 else let restore_image = py_strip (or_empty (sn_image r))
                   in if restore_image = []
                      then Raise (HTTPException 409 ''SNAPSHOT::INVALID_RESTORE_CONFIG''
                             (''Snapshot '' @ snapshot_id @ '' does not have a restorable image.''))
                      else Return \<lparr>req_image = Some \<lparr>img_uri = restore_image, img_auth = None\<rparr>, req_snapshot_id = Some snapshot_id,
                                   req_entrypoint = (if req_entrypoint req = None \<or> req_entrypoint req = Some []
                                                     then Some DEFAULT_SNAPSHOT_RESTORE_ENTRYPOINT else req_entrypoint req)\<rparr>))"

section \<open>Running one program alone\<close>

text \<open>
  The interfaces of the service as an environment, and the run of a program that nothing interferes with: the state is
  the table with whatever the environment keeps.
\<close>

record 's SnapshotEnv =
  se_supports :: "('s, bool) M"
  se_unsupported :: "('s, string) M"
  se_create :: "string \<Rightarrow> string \<Rightarrow> string option \<Rightarrow> ('s, SnapshotRuntimeStatus option) M"
  se_inspect :: "string \<Rightarrow> string option \<Rightarrow> string option \<Rightarrow> ('s, SnapshotRuntimeStatus) M"
  se_delete :: "string \<Rightarrow> string option \<Rightarrow> string option \<Rightarrow> ('s, unit) M"
  se_sandbox :: "string \<Rightarrow> ('s, sandbox_value) M"
  se_now :: "'s \<Rightarrow> UtcTime \<times> 's"
  se_uuid :: "'s \<Rightarrow> string \<times> 's"
  se_submit :: "SnapshotRecord \<Rightarrow> ('s, unit) M"

primrec exec :: "'s SnapshotEnv \<Rightarrow> 'a prog \<Rightarrow> Table \<times> 's \<Rightarrow> 'a result \<times> Table \<times> 's" where
  "exec env (Return a) w = (Inr a, w)"
| "exec env (Raise e) w = (Inl e, w)"
| "exec env (RepoCreate r k) w = (case repo_create r (fst w) of (x, tbl) \<Rightarrow> exec env (k x) (tbl, snd w))"
| "exec env (RepoGet i k) w = exec env (k (repo_get i (fst w))) w"
| "exec env (RepoList q k) w = exec env (k (repo_list q (fst w))) w"
| "exec env (RepoUpdateIf r st k) w = (case repo_update_if_state r st (fst w) of (b, tbl) \<Rightarrow> exec env (k (Inr b)) (tbl, snd w))"
| "exec env (RepoDelete i k) w = exec env (k (Inr ())) (repo_delete i (fst w), snd w)"
| "exec env (RtSupports k) w = (case se_supports env (snd w) of (x, s) \<Rightarrow> exec env (k x) (fst w, s))"
| "exec env (RtUnsupportedMessage k) w = (case se_unsupported env (snd w) of (x, s) \<Rightarrow> exec env (k x) (fst w, s))"
| "exec env (RtCreate i sb ns k) w = (case se_create env i sb ns (snd w) of (x, s) \<Rightarrow> exec env (k x) (fst w, s))"
| "exec env (RtInspect i im ns k) w = (case se_inspect env i im ns (snd w) of (x, s) \<Rightarrow> exec env (k x) (fst w, s))"
| "exec env (RtDelete i im ns k) w = (case se_delete env i im ns (snd w) of (x, s) \<Rightarrow> exec env (k x) (fst w, s))"
| "exec env (GetSandbox i k) w = (case se_sandbox env i (snd w) of (x, s) \<Rightarrow> exec env (k x) (fst w, s))"
| "exec env (Now k) w = (case se_now env (snd w) of (x, s) \<Rightarrow> exec env (k x) (fst w, s))"
| "exec env (Uuid4 k) w = (case se_uuid env (snd w) of (x, s) \<Rightarrow> exec env (k x) (fst w, s))"
| "exec env (Submit r k) w = (case se_submit env r (snd w) of (x, s) \<Rightarrow> exec env (k x) (fst w, s))"

lemma exec_answer [simp]: "exec env (answer r) w = (r, w)"
  by (simp add: answer_def split: sum.splits)

lemma exec_bindP: "exec env (bindP m f) w = (case exec env m w of (Inl e, w') \<Rightarrow> (Inl e, w') | (Inr a, w') \<Rightarrow> exec env (f a) w')"
  by (induction m arbitrary: w) (simp_all split: prod.splits)

lemma exec_thenP: "exec env (thenP m n) w = (case exec env m w of (Inl e, w') \<Rightarrow> (Inl e, w') | (Inr a, w') \<Rightarrow> exec env n w')"
  by (simp add: thenP_def exec_bindP)

lemma exec_exceptP:
  "exec env (exceptP m h) w =
     (case exec env m w of (Inl e, w') \<Rightarrow> if is_Exception e then exec env (h e) w' else (Inl e, w') | (Inr a, w') \<Rightarrow> (Inr a, w'))"
  by (induction m arbitrary: w) (simp_all split: prod.splits)

lemmas exec_simps = exec_bindP exec_thenP exec_exceptP

end
