(* ===== verification/Snapshot_Safety.thy ===== *)
theory Snapshot_Safety
  imports Snapshot_Service
begin

text \<open>
  The snapshot service under concurrency. Requests, workers and the recovery are threads that run their programs call
  by call in any order, and any call may fail. The life cycle of a snapshot is a state machine on the rows; a thread
  knows what it has seen, and what it knows stays true whatever the others do. From the knowledge follow the safety of
  every write and the outcome of the workers.
\<close>

section \<open>Threads\<close>

datatype task = Request | Worker SnapshotRecord

record Sys =
  sys_table :: Table
  sys_born :: "string set"
  sys_threads :: "(task \<times> unit prog) list"

text \<open>
  One call of a thread: the statements act on the table as a whole or raise and leave it alone, the other interfaces
  answer arbitrarily. \<open>sys_born\<close> holds the ids ever inserted; \<open>uuid4\<close> does not repeat one. \<open>rt\<close> limits the answers
  of \<open>create_snapshot\<close> of the runtime. The last component lists the records submitted to the executor.
\<close>

inductive call_step ::
  "(SnapshotRuntimeStatus option result \<Rightarrow> bool) \<Rightarrow> Table \<times> string set \<times> 'a prog \<Rightarrow>
     Table \<times> string set \<times> 'a prog \<times> SnapshotRecord list \<Rightarrow> bool" for rt where
  create: "repo_create r tbl = (Inr (), tbl') \<Longrightarrow> sn_id r \<notin> born \<Longrightarrow>
     call_step rt (tbl, born, RepoCreate r k) (tbl', insert (sn_id r) born, k (Inr ()), [])"
| create_fails: "call_step rt (tbl, born, RepoCreate r k) (tbl, born, k (Inl e), [])"
| get: "call_step rt (tbl, born, RepoGet i k) (tbl, born, k (repo_get i tbl), [])"
| get_fails: "call_step rt (tbl, born, RepoGet i k) (tbl, born, k (Inl e), [])"
| list: "call_step rt (tbl, born, RepoList q k) (tbl, born, k (repo_list q tbl), [])"
| list_fails: "call_step rt (tbl, born, RepoList q k) (tbl, born, k (Inl e), [])"
| update: "repo_update_if_state r st tbl = (b, tbl') \<Longrightarrow>
     call_step rt (tbl, born, RepoUpdateIf r st k) (tbl', born, k (Inr b), [])"
| update_fails: "call_step rt (tbl, born, RepoUpdateIf r st k) (tbl, born, k (Inl e), [])"
| delete: "call_step rt (tbl, born, RepoDelete i k) (repo_delete i tbl, born, k (Inr ()), [])"
| delete_fails: "call_step rt (tbl, born, RepoDelete i k) (tbl, born, k (Inl e), [])"
| supports: "call_step rt (tbl, born, RtSupports k) (tbl, born, k x, [])"
| unsupported: "call_step rt (tbl, born, RtUnsupportedMessage k) (tbl, born, k x, [])"
| rt_create: "rt x \<Longrightarrow> call_step rt (tbl, born, RtCreate i sb ns k) (tbl, born, k x, [])"
| rt_inspect: "call_step rt (tbl, born, RtInspect i im ns k) (tbl, born, k x, [])"
| rt_delete: "call_step rt (tbl, born, RtDelete i im ns k) (tbl, born, k x, [])"
| sandbox: "call_step rt (tbl, born, GetSandbox i k) (tbl, born, k x, [])"
| now: "valid_utc t \<Longrightarrow> call_step rt (tbl, born, Now k) (tbl, born, k t, [])"
| uuid: "call_step rt (tbl, born, Uuid4 k) (tbl, born, k i, [])"
| submit: "call_step rt (tbl, born, Submit r k) (tbl, born, k (Inr ()), [r])"
| submit_fails: "call_step rt (tbl, born, Submit r k) (tbl, born, k (Inl e), [])"

definition void :: "'a prog \<Rightarrow> unit prog" where
  "void m = bindP m (\<lambda>_. Return ())"

inductive request :: "(exn \<Rightarrow> string) \<Rightarrow> unit prog \<Rightarrow> bool" for str_exn where
  "request str_exn (void (create_snapshot tenant sandbox_id name))"
| "request str_exn (void (list_snapshots tenant filt pagination))"
| "request str_exn (void (get_snapshot tenant i))"
| "request str_exn (delete_snapshot tenant i)"
| "request str_exn (void (resolve_sandbox_image_from_request tenant req))"
| "request str_exn (void (recover_unfinished_snapshots str_exn fuel))"

inductive sys_step :: "(SnapshotRuntimeStatus option result \<Rightarrow> bool) \<Rightarrow> (exn \<Rightarrow> string) \<Rightarrow> Sys \<Rightarrow> Sys \<Rightarrow> bool" for rt str_exn where
  arrive: "request str_exn m \<Longrightarrow> sys_step rt str_exn S (S\<lparr>sys_threads := sys_threads S @ [(Request, m)]\<rparr>)"
| run: "sys_threads S = ts1 @ (t, m) # ts2 \<Longrightarrow>
     call_step rt (sys_table S, sys_born S, m) (tbl', born', m', new) \<Longrightarrow>
     sys_step rt str_exn S
       \<lparr>sys_table = tbl', sys_born = born',
        sys_threads = ts1 @ (t, m') # ts2 @ map (\<lambda>r. (Worker r, create_snapshot_worker str_exn r)) new\<rparr>"

section \<open>The life cycle\<close>

definition same_snapshot :: "SnapshotRecord \<Rightarrow> SnapshotRecord \<Rightarrow> bool" where
  "same_snapshot r r' \<longleftrightarrow>
     sn_id r' = sn_id r \<and> sn_source_sandbox_id r' = sn_source_sandbox_id r \<and> sn_namespace r' = sn_namespace r \<and>
     sn_name r' = sn_name r \<and> sn_description r' = sn_description r \<and> sn_created_at r' = sn_created_at r"

fun lifecycle_step :: "SnapshotRecord option \<Rightarrow> SnapshotRecord option \<Rightarrow> bool" where
  "lifecycle_step None None \<longleftrightarrow> True"
| "lifecycle_step None (Some r) \<longleftrightarrow> sn_state r = CREATING \<and> sn_image r = None"
| "lifecycle_step (Some r) None \<longleftrightarrow> sn_state r = DELETING"
| "lifecycle_step (Some r) (Some r') \<longleftrightarrow> r' = r \<or> same_snapshot r r' \<and>
     (sn_state r = CREATING \<and> sn_state r' = READY \<and> truthy (sn_image r') \<or>
      sn_state r = CREATING \<and> sn_state r' = FAILED \<and> sn_image r' = sn_image r \<or>
      sn_state r \<in> {READY, FAILED} \<and> sn_state r' = DELETING \<and> sn_image r' = sn_image r)"

definition record_ok :: "SnapshotRecord \<Rightarrow> bool" where
  "record_ok r \<longleftrightarrow> valid_record r \<and> (sn_state r = CREATING \<longrightarrow> sn_image r = None) \<and> (sn_state r = READY \<longrightarrow> truthy (sn_image r))"

definition table_inv :: "Table \<Rightarrow> string set \<Rightarrow> bool" where
  "table_inv tbl born \<longleftrightarrow> table_ok tbl \<and> (\<forall>i r. stored tbl i = Some r \<longrightarrow> record_ok r \<and> i \<in> born)"

definition idle_sys :: "Sys \<Rightarrow> bool" where
  "idle_sys S \<longleftrightarrow> table_inv (sys_table S) (sys_born S) \<and> sys_threads S = []"

inductive sys_reachable :: "(SnapshotRuntimeStatus option result \<Rightarrow> bool) \<Rightarrow> (exn \<Rightarrow> string) \<Rightarrow> Sys \<Rightarrow> bool" for rt str_exn where
  init: "idle_sys S \<Longrightarrow> sys_reachable rt str_exn S"
| step: "sys_reachable rt str_exn S \<Longrightarrow> sys_step rt str_exn S S' \<Longrightarrow> sys_reachable rt str_exn S'"

text \<open>Where a record may have got to since it was seen.\<close>

fun phase :: "SnapshotState \<Rightarrow> nat" where
  "phase CREATING = 0"
| "phase READY = 1"
| "phase FAILED = 1"
| "phase DELETING = 2"

definition evolves :: "SnapshotRecord \<Rightarrow> SnapshotRecord \<Rightarrow> bool" where
  "evolves r r' \<longleftrightarrow> r' = r \<or> same_snapshot r r' \<and> phase (sn_state r) < phase (sn_state r')"

lemma evolves_step: "evolves r r' \<Longrightarrow> lifecycle_step (Some r') (Some r'') \<Longrightarrow> evolves r r''"
  by (auto simp: evolves_def same_snapshot_def)

lemma evolves_same_state: "evolves r r' \<Longrightarrow> sn_state r' = sn_state r \<Longrightarrow> r' = r"
  by (auto simp: evolves_def)

lemma lifecycle_refl [simp]: "lifecycle_step x x"
  by (cases x) simp_all

section \<open>Knowledge of a thread\<close>

text \<open>The records a thread has seen, and the ids of which it knows that they are no longer being created.\<close>

type_synonym know = "SnapshotRecord set \<times> string set"

definition holds :: "know \<Rightarrow> Table \<Rightarrow> string set \<Rightarrow> bool" where
  "holds K tbl born \<longleftrightarrow>
     (\<forall>a\<in>fst K. record_ok a \<and> sn_id a \<in> born \<and> (\<forall>r. stored tbl (sn_id a) = Some r \<longrightarrow> evolves a r)) \<and>
     (\<forall>i\<in>snd K. i \<in> born \<and> (\<forall>r. stored tbl i = Some r \<longrightarrow> sn_state r \<noteq> CREATING))"

text \<open>The steps that the others may take.\<close>

definition rely :: "Table \<Rightarrow> string set \<Rightarrow> Table \<Rightarrow> string set \<Rightarrow> bool" where
  "rely tbl born tbl' born' \<longleftrightarrow>
     born \<subseteq> born' \<and> (\<forall>i. lifecycle_step (stored tbl i) (stored tbl' i)) \<and> (\<forall>i\<in>born. stored tbl i = None \<longrightarrow> stored tbl' i = None)"

lemma rely_refl [simp]: "rely tbl born tbl born"
  by (simp add: rely_def)

lemma rely_back:
  assumes "rely tbl born tbl' born'" and "i \<in> born" and "stored tbl' i = Some r'"
  obtains r where "stored tbl i = Some r" and "lifecycle_step (Some r) (Some r')"
  using assms unfolding rely_def by (metis not_None_eq)

lemma holds_stable:
  assumes "holds K tbl born" and "rely tbl born tbl' born'"
  shows "holds K tbl' born'"
  unfolding holds_def
proof (intro conjI ballI allI impI)
  fix a
  assume "a \<in> fst K"
  with assms(1) have a: "record_ok a" "sn_id a \<in> born" "\<And>r. stored tbl (sn_id a) = Some r \<Longrightarrow> evolves a r"
    by (auto simp: holds_def)
  show "record_ok a" "sn_id a \<in> born'" using a assms(2) by (auto simp: rely_def)
  show "evolves a r'" if "stored tbl' (sn_id a) = Some r'" for r'
    using rely_back [OF assms(2) a(2) that] a(3) evolves_step by metis
next
  fix i
  assume "i \<in> snd K"
  with assms(1) have i: "i \<in> born" "\<And>r. stored tbl i = Some r \<Longrightarrow> sn_state r \<noteq> CREATING" by (auto simp: holds_def)
  show "i \<in> born'" using i(1) assms(2) by (auto simp: rely_def)
  show "sn_state r' \<noteq> CREATING" if "stored tbl' i = Some r'" for r'
    by (rule rely_back [OF assms(2) i(1) that]) (use i(2) in auto)
qed

definition observe :: "SnapshotRecord \<Rightarrow> know \<Rightarrow> know" where
  "observe r K = (insert r (fst K), if sn_state r = CREATING then snd K else insert (sn_id r) (snd K))"

definition settle :: "string \<Rightarrow> know \<Rightarrow> know" where
  "settle i K = (fst K, if i \<in> sn_id ` fst K then insert i (snd K) else snd K)"

lemma holds_observe:
  assumes "holds K tbl born" and "table_inv tbl born" and "stored tbl i = Some r"
  shows "holds (observe r K) tbl born" and "sn_id r = i" and "record_ok r"
proof -
  show r: "sn_id r = i" "record_ok r"
    using assms(2,3) stored_id by (auto simp: table_inv_def)
  have "i \<in> born" using assms(2,3) by (auto simp: table_inv_def)
  with assms(1,3) r show "holds (observe r K) tbl born"
    by (auto simp: holds_def observe_def evolves_def)
qed

lemma holds_settle:
  assumes "holds K tbl born" and "\<And>r. stored tbl i = Some r \<Longrightarrow> sn_state r \<noteq> CREATING"
  shows "holds (settle i K) tbl born"
  using assms by (auto simp: holds_def settle_def)

section \<open>Programs that keep to the life cycle\<close>

text \<open>
  \<open>sp rt m Q E K\<close>: from knowledge \<open>K\<close>, every call of \<open>m\<close> is justified by what the thread knows then, and \<open>m\<close> ends
  with \<open>Q\<close> or raises with \<open>E\<close>.
\<close>

definition justified :: "know \<Rightarrow> SnapshotRecord \<Rightarrow> SnapshotState \<Rightarrow> bool" where
  "justified K r st \<longleftrightarrow>
     record_ok r \<and> sn_state r \<noteq> st \<and> (\<exists>a\<in>fst K. sn_state a = st \<and> sn_id a = sn_id r \<and> lifecycle_step (Some a) (Some r))"

primrec sp :: "(SnapshotRuntimeStatus option result \<Rightarrow> bool) \<Rightarrow> 'a prog \<Rightarrow> ('a \<Rightarrow> know \<Rightarrow> bool) \<Rightarrow> (exn \<Rightarrow> know \<Rightarrow> bool) \<Rightarrow> know \<Rightarrow> bool" where
  "sp rt (Return a) Q E K = Q a K"
| "sp rt (Raise e) Q E K = E e K"
| "sp rt (RepoCreate r k) Q E K \<longleftrightarrow>
     record_ok r \<and> sn_state r = CREATING \<and> sp rt (k (Inr ())) Q E (observe r K) \<and> (\<forall>e. sp rt (k (Inl e)) Q E K)"
| "sp rt (RepoGet i k) Q E K \<longleftrightarrow>
     (\<forall>e. sp rt (k (Inl e)) Q E K) \<and> sp rt (k (Inr None)) Q E (settle i K) \<and>
     (\<forall>r. sn_id r = i \<longrightarrow> record_ok r \<longrightarrow> sp rt (k (Inr (Some r))) Q E (observe r K))"
| "sp rt (RepoList q k) Q E K \<longleftrightarrow>
     (\<forall>e. sp rt (k (Inl e)) Q E K) \<and>
     (\<forall>found. (\<forall>r\<in>set (lr_items found). record_ok r) \<longrightarrow> sp rt (k (Inr found)) Q E (fst K \<union> set (lr_items found), snd K))"
| "sp rt (RepoUpdateIf r st k) Q E K \<longleftrightarrow>
     justified K r st \<and> (\<forall>e. sp rt (k (Inl e)) Q E K) \<and> sp rt (k (Inr True)) Q E (observe r K) \<and>
     sp rt (k (Inr False)) Q E (if st = CREATING then settle (sn_id r) K else K)"
| "sp rt (RepoDelete i k) Q E K \<longleftrightarrow>
     (\<exists>a\<in>fst K. sn_id a = i \<and> sn_state a = DELETING) \<and> (\<forall>x. sp rt (k x) Q E K)"
| "sp rt (RtSupports k) Q E K \<longleftrightarrow> (\<forall>x. sp rt (k x) Q E K)"
| "sp rt (RtUnsupportedMessage k) Q E K \<longleftrightarrow> (\<forall>x. sp rt (k x) Q E K)"
| "sp rt (RtCreate i sb ns k) Q E K \<longleftrightarrow> (\<forall>x. rt x \<longrightarrow> sp rt (k x) Q E K)"
| "sp rt (RtInspect i im ns k) Q E K \<longleftrightarrow> (\<forall>x. sp rt (k x) Q E K)"
| "sp rt (RtDelete i im ns k) Q E K \<longleftrightarrow> (\<forall>x. sp rt (k x) Q E K)"
| "sp rt (GetSandbox i k) Q E K \<longleftrightarrow> (\<forall>x. sp rt (k x) Q E K)"
| "sp rt (Now k) Q E K \<longleftrightarrow> (\<forall>t. valid_utc t \<longrightarrow> sp rt (k t) Q E K)"
| "sp rt (Uuid4 k) Q E K \<longleftrightarrow> (\<forall>i. sp rt (k i) Q E K)"
| "sp rt (Submit r k) Q E K \<longleftrightarrow> r \<in> fst K \<and> (\<forall>x. sp rt (k x) Q E K)"

lemma sp_bindP: "sp rt (bindP m f) Q E K \<longleftrightarrow> sp rt m (\<lambda>a. sp rt (f a) Q E) E K"
  by (induction m arbitrary: K) simp_all

lemma sp_thenP: "sp rt (thenP m n) Q E K \<longleftrightarrow> sp rt m (\<lambda>_. sp rt n Q E) E K"
  by (simp add: thenP_def sp_bindP)

lemma sp_exceptP: "sp rt (exceptP m h) Q E K \<longleftrightarrow> sp rt m Q (\<lambda>e. if is_Exception e then sp rt (h e) Q E else E e) K"
  by (induction m arbitrary: K) simp_all

lemma sp_answer: "sp rt (answer x) Q E K \<longleftrightarrow> (case x of Inl e \<Rightarrow> E e K | Inr a \<Rightarrow> Q a K)"
  by (simp add: answer_def split: sum.split)

lemmas sp_simps = sp_bindP sp_thenP sp_exceptP sp_answer

section \<open>Soundness\<close>

lemma update_step:
  assumes "holds K tbl born" and "table_inv tbl born" and "justified K r st" and u: "repo_update_if_state r st tbl = (b, tbl')"
  shows "table_inv tbl' born" and "rely tbl born tbl' born"
    and "holds (if b then observe r K else if st = CREATING then settle (sn_id r) K else K) tbl' born"
proof -
  obtain a where a: "a \<in> fst K" "sn_state a = st" "sn_id a = sn_id r" "lifecycle_step (Some a) (Some r)"
    and r: "record_ok r" "sn_state r \<noteq> st" using assms(3) by (auto simp: justified_def)
  have valid: "valid_record r" and ok: "table_ok tbl" using r(1) assms(2) by (auto simp: record_ok_def table_inv_def)
  note law = repo_update_if_law [OF ok valid u]
  have born: "sn_id r \<in> born" using a(1,3) assms(1) by (auto simp: holds_def)
  have hit: "stored tbl (sn_id r) = Some a" if b
    using that law(2) a(1-3) assms(1) evolves_same_state by (fastforce simp: holds_def)
  show inv: "table_inv tbl' born"
    using assms(2) law(1,3) r(1) born by (auto simp: table_inv_def split: if_splits)
  show rely: "rely tbl born tbl' born" using law(3) hit a(4) by (auto simp: rely_def)
  note K' = holds_stable [OF assms(1) rely]
  show "holds (if b then observe r K else if st = CREATING then settle (sn_id r) K else K) tbl' born"
  proof (cases b)
    case True
    then have "stored tbl' (sn_id r) = Some r" using law(3) by simp
    from holds_observe(1) [OF K' inv this] True show ?thesis by simp
  next
    case False
    then show ?thesis using K' law(2,3) by (auto intro!: holds_settle)
  qed
qed

lemma delete_step:
  assumes "holds K tbl born" and "table_inv tbl born" and "a \<in> fst K" and "sn_state a = DELETING"
  shows "table_inv (repo_delete (sn_id a) tbl) born" and "rely tbl born (repo_delete (sn_id a) tbl) born"
proof -
  have "table_ok tbl" using assms(2) by (simp add: table_inv_def)
  note law = repo_delete_law [OF this, of "sn_id a"]
  show "table_inv (repo_delete (sn_id a) tbl) born" using assms(2) law by (auto simp: table_inv_def)
  have "sn_state r = DELETING" if "stored tbl (sn_id a) = Some r" for r
  proof -
    have "evolves a r" using assms(1,3) that by (auto simp: holds_def)
    then show ?thesis using assms(4) by (cases "sn_state r") (auto simp: evolves_def)
  qed
  then show "rely tbl born (repo_delete (sn_id a) tbl) born"
    unfolding rely_def law(2) by (cases "stored tbl (sn_id a)") auto
qed

lemma create_step:
  assumes "holds K tbl born" and "table_inv tbl born" and "record_ok r" and "sn_state r = CREATING" and "sn_id r \<notin> born"
    and c: "repo_create r tbl = (Inr (), tbl')"
  shows "table_inv tbl' (insert (sn_id r) born)" and "rely tbl born tbl' (insert (sn_id r) born)"
    and "holds (observe r K) tbl' (insert (sn_id r) born)"
proof -
  have none: "stored tbl (sn_id r) = None"
    using assms(2,5) by (cases "stored tbl (sn_id r)") (auto simp: table_inv_def)
  have ok: "table_ok tbl" "valid_record r" using assms(2,3) by (auto simp: table_inv_def record_ok_def)
  note law = repo_create_law [OF ok none]
  have tbl': "tbl' = tbl @ [to_db_tuple r]" using c law(1) by simp
  show inv: "table_inv tbl' (insert (sn_id r) born)"
    using assms(2,3) law(2,3) unfolding tbl' by (auto simp: table_inv_def split: if_splits)
  show rely: "rely tbl born tbl' (insert (sn_id r) born)"
    using law(3) none assms(3-5) unfolding tbl' by (auto simp: rely_def record_ok_def)
  have "stored tbl' (sn_id r) = Some r" using law(3) tbl' by simp
  from holds_observe(1) [OF holds_stable [OF assms(1) rely] inv this]
  show "holds (observe r K) tbl' (insert (sn_id r) born)" .
qed

lemma list_step:
  assumes "holds K tbl born" and "table_inv tbl born"
  obtains found where "repo_list q tbl = Inr found" and "\<forall>r\<in>set (lr_items found). record_ok r"
    and "holds (fst K \<union> set (lr_items found), snd K) tbl born"
proof -
  obtain rs where rs: "tbl = table_of rs" "wf_records rs" using assms(2) by (auto simp: table_inv_def table_ok_def)
  let ?items = "page_of (q_page q) (q_page_size q) (matching q rs)"
  have "set ?items \<subseteq> set rs"
    using set_matching [of q rs] by (auto simp: page_of_def Let_def dest: in_set_takeD in_set_dropD)
  then have st: "stored tbl (sn_id r) = Some r" if "r \<in> set ?items" for r
    using that stored_Some [OF rs(2)] by (auto simp: rs(1))
  have ok: "record_ok r" "sn_id r \<in> born" if "r \<in> set ?items" for r
    using assms(2) st [OF that] by (auto simp: table_inv_def)
  have "holds (fst K \<union> set ?items, snd K) tbl born"
    using assms(1) ok st by (auto simp: holds_def evolves_def)
  with that [of "\<lparr>lr_items = ?items, lr_total_items = length (matching q rs)\<rparr>"] ok(1) repo_list_law [OF rs(2), of q] rs(1)
  show thesis by simp
qed

lemma call_step_sound:
  assumes "call_step rt (tbl, born, m) (tbl', born', m', new)" and "sp rt m Q E K" and "holds K tbl born" and "table_inv tbl born"
  shows "table_inv tbl' born' \<and> rely tbl born tbl' born' \<and> (\<exists>K'. holds K' tbl' born' \<and> sp rt m' Q E K') \<and> set new \<subseteq> fst K"
  using assms(1)
proof cases
  case (create r k)
  with assms(2) have "record_ok r" "sn_state r = CREATING" "sp rt m' Q E (observe r K)" by simp_all
  with create create_step [OF assms(3,4)] show ?thesis by (metis empty_subsetI list.set(1))
next
  case (get i k)
  show ?thesis
  proof (cases "stored tbl i")
    case None
    with get assms(2-4) holds_settle [OF assms(3), of i] repo_get_stored [of tbl i] show ?thesis by (auto simp: table_inv_def simp del: split_paired_Ex)
  next
    case (Some r)
    with get assms(2-4) holds_observe [OF assms(3,4) Some] repo_get_stored [of tbl i] show ?thesis by (auto simp: table_inv_def simp del: split_paired_Ex)
  qed
next
  case (list q k)
  obtain found where "repo_list q tbl = Inr found" "\<forall>r\<in>set (lr_items found). record_ok r"
    "holds (fst K \<union> set (lr_items found), snd K) tbl born"
    by (rule list_step [OF assms(3,4)])
  with list assms(2,4) show ?thesis by (auto simp del: split_paired_Ex)
next
  case (update r st b k)
  then have "justified K r st" using assms(2) by simp
  from update_step [OF assms(3,4) this update(5)] update assms(2) show ?thesis by (cases b) (auto split: if_splits simp del: split_paired_Ex)
next
  case (delete i k)
  then obtain a where a: "a \<in> fst K" "sn_id a = i" "sn_state a = DELETING" using assms(2) by auto
  from delete_step [OF assms(3,4) a(1,3)] holds_stable [OF assms(3)] delete assms(2) a(2) show ?thesis by (auto simp del: split_paired_Ex)
qed (use assms(2-4) in \<open>auto simp del: split_paired_Ex\<close>)


section \<open>The programs of the service\<close>

abbreviation learns :: "know \<Rightarrow> know \<Rightarrow> bool" where
  "learns K K' \<equiv> fst K \<subseteq> fst K' \<and> snd K \<subseteq> snd K'"

lemma learns_steps [simp]: "learns K (observe r K)" "learns K (settle i K)" "r \<in> fst (observe r K)"
  by (auto simp: observe_def settle_def)

lemma learns_trans: "learns K K' \<Longrightarrow> learns K' K'' \<Longrightarrow> learns K K''"
  by blast

lemma with_status_ok:
  assumes "record_ok r" and "sn_state r = CREATING" and "valid_utc now" and "runtime_status_record r status now = Some r'"
  shows "record_ok r' \<and> sn_id r' = sn_id r \<and> sn_state r' \<in> {READY, FAILED} \<and> lifecycle_step (Some r) (Some r')"
  using assms
  by (auto simp: runtime_status_record_def with_status_def record_ok_def valid_record_def same_snapshot_def split: if_splits)

lemma sp_cleanup:
  assumes "Q () K" and "\<And>e. E e K"
  shows "sp rt (cleanup_runtime_artifact i im ns) Q E K"
  using assms by (auto simp: cleanup_runtime_artifact_def sp_simps split: sum.splits)

text \<open>A terminal status of the runtime.\<close>

definition terminal :: "SnapshotRuntimeStatus \<Rightarrow> bool" where
  "terminal status \<longleftrightarrow> rs_state status \<in> {READY, FAILED}"

lemma terminal_record: "terminal status \<Longrightarrow> runtime_status_record r status now \<noteq> None"
  by (auto simp: terminal_def runtime_status_record_def)

lemma sp_complete:
  assumes "record \<in> fst K"
    and "\<And>K'. learns K K' \<Longrightarrow> (terminal status \<Longrightarrow> sn_id record \<in> snd K') \<Longrightarrow> Q () K'" and "\<And>e K'. learns K K' \<Longrightarrow> E e K'"
  shows "sp rt (complete_snapshot record status) Q E K"
proof -
  let ?i = "sn_id record"
  have gone: "sp rt (cleanup_runtime_artifact ?i (rs_image status) (sn_namespace record)) Q E (settle ?i K)"
    using assms(1) by (intro sp_cleanup assms(2,3)) (auto simp: settle_def)
  have cur: "sp rt (if sn_state cur = DELETING
           then thenP (cleanup_runtime_artifact (sn_id cur) (rs_image status) (sn_namespace cur)) (RepoDelete (sn_id cur) answer)
           else if sn_state cur \<noteq> CREATING then Return ()
           else bindP (build_runtime_status_record cur status) (\<lambda>updated.
                  case updated of
                    None \<Rightarrow> Return ()
                  | Some r \<Rightarrow> bindP (RepoUpdateIf r CREATING answer) (\<lambda>_. Return ()))) Q E (observe cur K)"
    if cur: "sn_id cur = ?i" "record_ok cur" for cur
  proof (cases "sn_state cur")
    case DELETING
    have "Q () (observe cur K)" using DELETING cur(1) by (intro assms(2)) (auto simp: observe_def)
    moreover have E: "\<And>e. E e (observe cur K)" by (rule assms(3)) simp
    ultimately have "sp rt (RepoDelete (sn_id cur) answer) Q E (observe cur K)"
      using DELETING by (auto simp: sp_simps observe_def split: sum.splits)
    with E have "sp rt (cleanup_runtime_artifact (sn_id cur) im ns) (\<lambda>_. sp rt (RepoDelete (sn_id cur) answer) Q E) E (observe cur K)" for im ns
      by (intro sp_cleanup)
    then show ?thesis unfolding sp_thenP using DELETING by (simp add: sp_thenP)
  next
    case CREATING
    have "sp rt (bindP (RepoUpdateIf r CREATING answer) (\<lambda>_. Return ())) Q E (observe cur K)"
      if "valid_utc now" "runtime_status_record cur status now = Some r" for now r
    proof -
      note r = with_status_ok [OF cur(2) CREATING that]
      have "justified (observe cur K) r CREATING" using r CREATING by (auto simp: justified_def observe_def)
      moreover have "Q () (observe r (observe cur K))" "Q () (settle (sn_id r) (observe cur K))"
        using r cur(1) by (auto intro!: assms(2) simp: observe_def settle_def)
      moreover have "E e (observe cur K)" for e by (rule assms(3)) simp
      ultimately show ?thesis by (simp add: sp_simps)
    qed
    moreover have "Q () (observe cur K)" if "runtime_status_record cur status now = None" for now
      using that terminal_record [of status cur now] by (intro assms(2)) auto
    ultimately show ?thesis
      using CREATING by (auto simp: sp_simps build_runtime_status_record_def split: option.split)
  qed (use cur in \<open>auto intro!: assms(2) simp: observe_def\<close>)
  have "E e K" for e by (rule assms(3)) simp
  with gone cur show ?thesis unfolding complete_snapshot_def sp_bindP sp.simps sp_answer sum.case option.case by blast
qed

text \<open>What a worker has achieved when it returns: its snapshot is no longer being created.\<close>

definition outcome_known :: "(SnapshotRuntimeStatus option result \<Rightarrow> bool) \<Rightarrow> task \<Rightarrow> know \<Rightarrow> bool" where
  "outcome_known rt t K \<longleftrightarrow>
     (\<forall>r. t = Worker r \<longrightarrow> (\<forall>status. rt (Inr (Some status)) \<longrightarrow> terminal status) \<longrightarrow> sn_id r \<in> snd K)"

lemma sp_worker:
  assumes "record \<in> fst K"
  shows "sp rt (create_snapshot_worker str_exn record) (\<lambda>_. outcome_known rt (Worker record)) (\<lambda>_ _. True) K"
proof -
  have "sp rt (complete_snapshot record status) (\<lambda>_. outcome_known rt (Worker record)) (\<lambda>_ _. True) K"
    if "rt (Inr (Some status)) \<or> terminal status" for status
    using that by (intro sp_complete assms(1)) (auto simp: outcome_known_def)
  then show ?thesis
    by (auto simp: create_snapshot_worker_def sp_simps terminal_def split: sum.splits option.splits)
qed

lemma sp_mono:
  assumes "sp rt m Q E K" and "\<And>a K'. Q a K' \<Longrightarrow> Q' a K'" and "\<And>e K'. E e K' \<Longrightarrow> E' e K'"
  shows "sp rt m Q' E' K"
  using assms(1) by (induction m arbitrary: K) (auto intro: assms(2,3))

lemma sp_recover_one:
  assumes "r \<in> fst K"
  shows "sp rt (recover_one str_exn r progressed) (\<lambda>_. learns K) (\<lambda>_ _. True) K"
proof -
  have complete: "sp rt (complete_snapshot r status) Q E K'"
    if "learns K K'" "\<And>K''. learns K K'' \<Longrightarrow> Q () K''" "\<And>e K''. learns K K'' \<Longrightarrow> E e K''" for status Q E K'
  proof (rule sp_complete)
    show "r \<in> fst K'" using assms that(1) by blast
    show "Q () K''" if "learns K' K''" for K'' using that \<open>learns K K'\<close> by (intro \<open>\<And>K''. learns K K'' \<Longrightarrow> Q () K''\<close>) blast
    show "E e K''" if "learns K' K''" for e K'' using that \<open>learns K K'\<close> by (intro \<open>\<And>e K''. learns K K'' \<Longrightarrow> E e K''\<close>) blast
  qed
  have "sp rt (recover_unfinished_snapshot r) (\<lambda>_. learns K) (\<lambda>_. learns K) K"
    unfolding recover_unfinished_snapshot_def
    using assms by (auto simp: sp_simps split: sum.splits intro!: complete)
  then have "sp rt (recover_unfinished_snapshot r) (\<lambda>b. sp rt (Return (b \<or> progressed)) (\<lambda>_. learns K) (\<lambda>_ _. True))
      (\<lambda>e. if is_Exception e then sp rt (thenP (complete_snapshot r
            \<lparr>rs_state = FAILED, rs_image = None, rs_reason = Some ''snapshot_recovery_failed'',
             rs_message = Some (''Failed to recover unfinished snapshot: '' @ str_exn e)\<rparr>) (Return True)) (\<lambda>_. learns K) (\<lambda>_ _. True)
         else (\<lambda>_. True)) K"
    by (rule sp_mono) (auto simp: sp_thenP intro!: complete)
  then show ?thesis
    unfolding recover_one_def sp_simps by (rule sp_mono) (auto simp: sp_simps)
qed

lemma sp_recover_items:
  assumes "\<forall>r\<in>set rs. r \<in> fst K"
  shows "sp rt (recover_items str_exn rs progressed) (\<lambda>_ _. True) (\<lambda>_ _. True) K"
  using assms
proof (induction rs arbitrary: progressed K)
  case (Cons r rs)
  show ?case
    unfolding recover_items.simps sp_bindP
  proof (rule sp_mono [OF sp_recover_one])
    show "r \<in> fst K" using Cons.prems by simp
    show "sp rt (recover_items str_exn rs b) (\<lambda>_ _. True) (\<lambda>_ _. True) K'" if "learns K K'" for b K'
      by (rule Cons.IH) (use Cons.prems that in auto)
  qed simp
qed simp

lemma sp_recover: "sp rt (recover_unfinished_snapshots str_exn fuel) (\<lambda>_ _. True) (\<lambda>_ _. True) K"
proof (induction fuel arbitrary: K)
  case (Suc fuel)
  have "sp rt (recover_items str_exn rs False)
      (\<lambda>progressed. sp rt (if \<not> progressed then Return (Some ()) else recover_unfinished_snapshots str_exn fuel) (\<lambda>_ _. True) (\<lambda>_ _. True))
      (\<lambda>_ _. True) K'" if "\<forall>r\<in>set rs. r \<in> fst K'" for rs K'
    by (rule sp_mono [OF sp_recover_items [OF that]]) (use Suc.IH in auto)
  then show ?case by (auto simp: sp_simps)
qed simp

lemma sp_mark_deleting:
  assumes "r \<in> fst K" and "record_ok r" and "sn_state r \<in> {READY, FAILED}"
    and "\<And>d K'. sn_id d = sn_id r \<Longrightarrow> sn_state d = DELETING \<Longrightarrow> d \<in> fst K' \<Longrightarrow> Q (Some d) K'" and "\<And>K'. Q None K'"
  shows "sp rt (mark_snapshot_deleting r) Q (\<lambda>_ _. True) K"
proof -
  let ?d = "\<lambda>now. with_status r DELETING (Some ''snapshot_delete_requested'') (Some ''Snapshot deletion requested.'') now"
  have "justified K (?d now) (sn_state r)" if "valid_utc now" for now
    using assms(1-3) that
    by (auto simp: justified_def with_status_def record_ok_def valid_record_def same_snapshot_def intro!: bexI [of _ r])
  moreover have "Q (Some (?d now)) (observe (?d now) K)" for now
    by (rule assms(4)) (simp_all add: with_status_def)
  ultimately show ?thesis
    using assms(3-5) by (auto simp: mark_snapshot_deleting_def sp_simps Let_def)
qed

lemma sp_delete: "sp rt (delete_snapshot tenant i) (\<lambda>_ _. True) (\<lambda>_ _. True) K"
proof -
  let ?finish = "\<lambda>marked. case marked of None \<Rightarrow> Return ()
      | Some d \<Rightarrow> thenP (RtDelete i (sn_image d) (sn_namespace d) answer) (RepoDelete i answer)"
  have finish: "sp rt (?finish (Some d)) (\<lambda>_ _. True) (\<lambda>_ _. True) K'"
    if "sn_id d = i" "sn_state d = DELETING" "d \<in> fst K'" for d K'
    using that by (auto simp: sp_simps split: sum.splits)
  have "sp rt (if sn_state r \<noteq> DELETING then mark_snapshot_deleting r else Return (Some r))
      (\<lambda>a. sp rt (?finish a) (\<lambda>_ _. True) (\<lambda>_ _. True)) (\<lambda>_ _. True) (observe r K)"
    if "sn_id r = i" "record_ok r" "sn_state r \<noteq> CREATING" for r
  proof (cases "sn_state r = DELETING")
    case True
    with finish [OF that(1) True] show ?thesis by simp
  next
    case False
    with that(3) have "sn_state r \<in> {READY, FAILED}" by (cases "sn_state r") auto
    then have "sp rt (mark_snapshot_deleting r) (\<lambda>a. sp rt (?finish a) (\<lambda>_ _. True) (\<lambda>_ _. True)) (\<lambda>_ _. True) (observe r K)"
      by (intro sp_mark_deleting finish) (use that(1,2) in simp_all)
    with False show ?thesis by simp
  qed
  then have "sp rt (if sn_state r = CREATING then Raise (invalid_state i '' is still being created and cannot be deleted'')
      else bindP (if sn_state r \<noteq> DELETING then mark_snapshot_deleting r else Return (Some r)) ?finish)
      (\<lambda>_ _. True) (\<lambda>_ _. True) (observe r K)" (is "sp rt (?rest r) _ _ _") if "sn_id r = i" "record_ok r" for r
    using that by (cases "sn_state r = CREATING") (simp_all only: sp_bindP if_True if_False sp.simps simp_thms)
  moreover have "sp rt (thenP (verify_tenant_access tenant r) m) (\<lambda>_ _. True) (\<lambda>_ _. True) K'"
    if "sp rt m (\<lambda>_ _. True) (\<lambda>_ _. True) K'" for m :: "unit prog" and r K'
    using that by (simp add: sp_thenP verify_tenant_access_def split: option.split)
  ultimately show ?thesis
    unfolding delete_snapshot_def sp_bindP sp.simps sp_answer sum.case option.case by blast
qed

lemma sp_create: "sp rt (create_snapshot tenant sandbox_id name) (\<lambda>_ _. True) (\<lambda>_ _. True) K"
  by (auto simp: create_snapshot_def sp_simps ensure_source_sandbox_running_def Let_def record_ok_def valid_record_def split: sum.splits)

lemma sp_request: "request str_exn m \<Longrightarrow> sp rt m (\<lambda>_ _. True) (\<lambda>_ _. True) K"
proof (induction rule: request.induct)
  case (2 tenant filt pagination)
  show ?case by (auto simp: void_def sp_simps list_snapshots_def Let_def)
next
  case (3 tenant i)
  show ?case by (auto simp: void_def sp_simps get_snapshot_def verify_tenant_access_def split: option.splits)
next
  case (5 tenant req)
  show ?case
    by (auto simp: void_def sp_simps resolve_sandbox_image_from_request_def Let_def split: option.splits)
next
  case (1 tenant sandbox_id name)
  show ?case unfolding void_def sp_bindP by (rule sp_mono [OF sp_create]) simp_all
next
  case (6 fuel)
  show ?case unfolding void_def sp_bindP by (rule sp_mono [OF sp_recover]) simp_all
qed (rule sp_delete)


section \<open>The system\<close>

definition thread_ok :: "(SnapshotRuntimeStatus option result \<Rightarrow> bool) \<Rightarrow> Table \<Rightarrow> string set \<Rightarrow> task \<times> unit prog \<Rightarrow> bool" where
  "thread_ok rt tbl born th \<longleftrightarrow>
     (\<exists>K. holds K tbl born \<and> sp rt (snd th) (\<lambda>_. outcome_known rt (fst th)) (\<lambda>_ _. True) K)"

definition sys_inv :: "(SnapshotRuntimeStatus option result \<Rightarrow> bool) \<Rightarrow> Sys \<Rightarrow> bool" where
  "sys_inv rt S \<longleftrightarrow>
     table_inv (sys_table S) (sys_born S) \<and> (\<forall>th\<in>set (sys_threads S). thread_ok rt (sys_table S) (sys_born S) th)"

lemma thread_ok_stable: "thread_ok rt tbl born th \<Longrightarrow> rely tbl born tbl' born' \<Longrightarrow> thread_ok rt tbl' born' th"
  unfolding thread_ok_def using holds_stable by blast

lemma worker_ok:
  assumes "holds K tbl born" and "r \<in> fst K"
  shows "thread_ok rt tbl born (Worker r, create_snapshot_worker str_exn r)"
  unfolding thread_ok_def fst_conv snd_conv using assms(1) sp_worker [OF assms(2)] by blast

lemma sys_step_sound:
  assumes "sys_step rt str_exn S S'" and "sys_inv rt S"
  shows "sys_inv rt S' \<and> rely (sys_table S) (sys_born S) (sys_table S') (sys_born S')"
  using assms(1)
proof cases
  case (arrive m)
  have "holds ({}, {}) (sys_table S) (sys_born S)" by (simp add: holds_def)
  moreover have "outcome_known rt Request = (\<lambda>_. True)" by (simp add: outcome_known_def fun_eq_iff)
  ultimately have "thread_ok rt (sys_table S) (sys_born S) (Request, m)"
    unfolding thread_ok_def fst_conv snd_conv using sp_request [OF arrive(2)] by metis
  with arrive(1) assms(2) show ?thesis by (simp add: sys_inv_def)
next
  case (run ts1 t m ts2 tbl' born' m' new)
  have inv: "table_inv (sys_table S) (sys_born S)" and ok: "\<And>th. th \<in> set (sys_threads S) \<Longrightarrow> thread_ok rt (sys_table S) (sys_born S) th"
    using assms(2) by (auto simp: sys_inv_def)
  from ok [of "(t, m)"] run(2) obtain K where K: "holds K (sys_table S) (sys_born S)"
    "sp rt m (\<lambda>_. outcome_known rt t) (\<lambda>_ _. True) K" by (auto simp: thread_ok_def)
  note sound = call_step_sound [OF run(3) K(2,1) inv]
  then have rely: "rely (sys_table S) (sys_born S) tbl' born'" by blast
  have "thread_ok rt tbl' born' (t, m')" using sound by (auto simp: thread_ok_def)
  moreover have "thread_ok rt tbl' born' th" if "th \<in> set ts1 \<union> set ts2" for th
    using ok [of th] that run(2) thread_ok_stable [OF _ rely] by auto
  moreover have "thread_ok rt tbl' born' (Worker r, create_snapshot_worker str_exn r)" if "r \<in> set new" for r
    using worker_ok [OF holds_stable [OF K(1) rely]] sound that by blast
  ultimately have "sys_inv rt S'" using run(1) sound by (auto simp: sys_inv_def)
  with run(1) rely show ?thesis by simp
qed

lemma reachable_sys_inv: "sys_reachable rt str_exn S \<Longrightarrow> sys_inv rt S"
proof (induction rule: sys_reachable.induct)
  case (init S)
  then show ?case by (simp add: idle_sys_def sys_inv_def)
next
  case (step S S')
  then show ?case using sys_step_sound by blast
qed

text \<open>
  Claim C8. Every step of the server moves every snapshot along its life cycle, whatever requests, workers and
  recoveries run at the same time, whatever the runtime answers and whichever calls fail: a snapshot is inserted as
  Creating, a worker turns it into Ready with an image or into Failed, only a Ready or Failed one becomes Deleting, only
  a Deleting one is removed, and its identity, source, owner and restore image do not change on the way.
\<close>

theorem snapshots_follow_the_life_cycle:
  assumes "sys_reachable rt str_exn S" and "sys_step rt str_exn S S'"
  shows "lifecycle_step (stored (sys_table S) i) (stored (sys_table S') i)"
  using sys_step_sound [OF assms(2) reachable_sys_inv [OF assms(1)]] by (simp add: rely_def)

text \<open>
  Claim C28. The rows of the repository are well typed in every reachable state: the ids are distinct, every row decodes
  into the record it was written from, one that is being created has no image and one that is Ready has one.
\<close>

theorem snapshot_rows_are_well_typed:
  assumes "sys_reachable rt str_exn S" and "row \<in> set (sys_table S)"
  shows "\<exists>r. row_to_record row = Inr r \<and> to_db_tuple r = row \<and> stored (sys_table S) (row_id row) = Some r \<and>
    (sn_state r = CREATING \<longrightarrow> sn_image r = None) \<and> (sn_state r = READY \<longrightarrow> truthy (sn_image r))"
proof -
  have inv: "table_inv (sys_table S) (sys_born S)" using reachable_sys_inv [OF assms(1)] by (simp add: sys_inv_def)
  then obtain rs where rs: "sys_table S = table_of rs" "wf_records rs" by (auto simp: table_inv_def table_ok_def)
  with assms(2) obtain r where r: "r \<in> set rs" "row = to_db_tuple r" by auto
  then have st: "stored (sys_table S) (row_id row) = Some r" using stored_Some [OF rs(2)] rs(1) by simp
  have "valid_record r" using r(1) rs(2) by (simp add: wf_records_def)
  then have "row_to_record row = Inr r" using r(2) row_to_record_to_db_tuple by simp
  moreover have "record_ok r" using inv st by (auto simp: table_inv_def)
  ultimately show ?thesis using st r(2) by (auto simp: record_ok_def)
qed

section \<open>Workers end\<close>

text \<open>\<open>calls_at_most m n\<close>: \<open>m\<close> makes at most \<open>n\<close> calls, whatever they answer.\<close>

primrec calls_at_most :: "'a prog \<Rightarrow> nat \<Rightarrow> bool" where
  "calls_at_most (Return a) n \<longleftrightarrow> True"
| "calls_at_most (Raise e) n \<longleftrightarrow> True"
| "calls_at_most (RepoCreate r k) n \<longleftrightarrow> 0 < n \<and> (\<forall>x. calls_at_most (k x) (n - 1))"
| "calls_at_most (RepoGet i k) n \<longleftrightarrow> 0 < n \<and> (\<forall>x. calls_at_most (k x) (n - 1))"
| "calls_at_most (RepoList q k) n \<longleftrightarrow> 0 < n \<and> (\<forall>x. calls_at_most (k x) (n - 1))"
| "calls_at_most (RepoUpdateIf r st k) n \<longleftrightarrow> 0 < n \<and> (\<forall>x. calls_at_most (k x) (n - 1))"
| "calls_at_most (RepoDelete i k) n \<longleftrightarrow> 0 < n \<and> (\<forall>x. calls_at_most (k x) (n - 1))"
| "calls_at_most (RtSupports k) n \<longleftrightarrow> 0 < n \<and> (\<forall>x. calls_at_most (k x) (n - 1))"
| "calls_at_most (RtUnsupportedMessage k) n \<longleftrightarrow> 0 < n \<and> (\<forall>x. calls_at_most (k x) (n - 1))"
| "calls_at_most (RtCreate i sb ns k) n \<longleftrightarrow> 0 < n \<and> (\<forall>x. calls_at_most (k x) (n - 1))"
| "calls_at_most (RtInspect i im ns k) n \<longleftrightarrow> 0 < n \<and> (\<forall>x. calls_at_most (k x) (n - 1))"
| "calls_at_most (RtDelete i im ns k) n \<longleftrightarrow> 0 < n \<and> (\<forall>x. calls_at_most (k x) (n - 1))"
| "calls_at_most (GetSandbox i k) n \<longleftrightarrow> 0 < n \<and> (\<forall>x. calls_at_most (k x) (n - 1))"
| "calls_at_most (Now k) n \<longleftrightarrow> 0 < n \<and> (\<forall>x. calls_at_most (k x) (n - 1))"
| "calls_at_most (Uuid4 k) n \<longleftrightarrow> 0 < n \<and> (\<forall>x. calls_at_most (k x) (n - 1))"
| "calls_at_most (Submit r k) n \<longleftrightarrow> 0 < n \<and> (\<forall>x. calls_at_most (k x) (n - 1))"

lemma calls_mono: "calls_at_most m n \<Longrightarrow> n \<le> n' \<Longrightarrow> calls_at_most m n'"
  by (induction m arbitrary: n n') (simp_all, (meson diff_le_mono less_le_trans rangeI)+)

lemma calls_step: "call_step rt (tbl, born, m) (tbl', born', m', new) \<Longrightarrow> calls_at_most m n \<Longrightarrow> 0 < n \<and> calls_at_most m' (n - 1)"
  by (cases rule: call_step.cases, assumption) auto

lemma calls_worker: "calls_at_most (create_snapshot_worker str_exn r) 4"
  by (auto simp: create_snapshot_worker_def complete_snapshot_def cleanup_runtime_artifact_def build_runtime_status_record_def
      answer_def thenP_def split: sum.splits option.splits)


lemma worker_threads_bounded:
  "sys_reachable rt str_exn S \<Longrightarrow> (Worker r, m) \<in> set (sys_threads S) \<Longrightarrow> calls_at_most m 4"
proof (induction arbitrary: r m rule: sys_reachable.induct)
  case (init S)
  then show ?case by (simp add: idle_sys_def)
next
  case (step S S')
  from step.hyps(2) show ?case
  proof cases
    case (arrive n)
    with step.IH step.prems show ?thesis by simp
  next
    case (run ts1 t n ts2 tbl' born' n' new)
    have old: "calls_at_most m 4" if "(Worker r, m) \<in> set (sys_threads S)" for m r using step.IH that .
    have "calls_at_most n' 4" if "t = Worker r"
      using old [of r n] run(2) that calls_step [OF run(3), of 4] calls_mono [of n' "4 - 1" 4] by simp
    then show ?thesis using run(1,2) step.prems old calls_worker by auto
  qed
qed

text \<open>
  Claim C10. Every accepted snapshot is settled. In every reachable state, each worker has at most four calls left,
  whatever they answer and whatever the other threads do; and when a worker has returned, and the runtime answers
  with a terminal status, raises or answers nothing, its snapshot is Ready, Failed, being deleted or gone, and stays so.
\<close>

theorem workers_settle_their_snapshots:
  assumes "sys_reachable rt str_exn S" and "(Worker r, m) \<in> set (sys_threads S)"
    and "\<And>status. rt (Inr (Some status)) \<Longrightarrow> rs_state status \<in> {READY, FAILED}"
  shows "calls_at_most m 4 \<and>
    (m = Return () \<and> (sys_step rt str_exn)\<^sup>*\<^sup>* S S' \<longrightarrow> map_option sn_state (stored (sys_table S') (sn_id r)) \<noteq> Some CREATING)"
proof (intro conjI impI)
  show "calls_at_most m 4" by (rule worker_threads_bounded [OF assms(1,2)])
  assume fin: "m = Return () \<and> (sys_step rt str_exn)\<^sup>*\<^sup>* S S'"
  have "(sys_step rt str_exn)\<^sup>*\<^sup>* S S'" using fin ..
  then have "sys_inv rt S' \<and> (\<exists>K. holds K (sys_table S') (sys_born S') \<and> sn_id r \<in> snd K)"
  proof (induction rule: rtranclp_induct)
    case base
    have inv: "sys_inv rt S" by (rule reachable_sys_inv [OF assms(1)])
    with assms(2) fin obtain K where "holds K (sys_table S) (sys_born S)" "outcome_known rt (Worker r) K"
      by (fastforce simp: sys_inv_def thread_ok_def)
    then show ?case using inv assms(3) unfolding outcome_known_def terminal_def by blast
  next
    case (step S1 S2)
    from step.IH sys_step_sound [OF step.hyps(2)] holds_stable show ?case by blast
  qed
  then show "map_option sn_state (stored (sys_table S') (sn_id r)) \<noteq> Some CREATING" by (auto simp: holds_def)
qed

end
