(* ===== verification/Snapshot_Tenants.thy ===== *)
theory Snapshot_Tenants
  imports Snapshot_Service
begin

text \<open>
  Tenants of the snapshot service: for a tenant the service acts as if the table held the tenant's rows only, so that
  nobody learns from it or changes through it what belongs to another.
\<close>

section \<open>The rows of a tenant\<close>

definition view :: "string \<Rightarrow> Table \<Rightarrow> Table" where
  "view ns tbl = filter (\<lambda>row. row_namespace row = Some ns) tbl"

definition foreign :: "string \<Rightarrow> Table \<Rightarrow> Table" where
  "foreign ns tbl = filter (\<lambda>row. row_namespace row \<noteq> Some ns) tbl"

text \<open>Whatever row has the id belongs to the tenant.\<close>

definition own :: "string \<Rightarrow> string \<Rightarrow> Table \<Rightarrow> bool" where
  "own ns i tbl \<longleftrightarrow> (\<forall>row\<in>set tbl. row_id row = i \<longrightarrow> row_namespace row = Some ns)"

lemma view_get: "own ns i tbl \<Longrightarrow> repo_get i (view ns tbl) = repo_get i tbl"
  by (induction tbl) (auto simp: repo_get_def view_def own_def)

lemma view_delete:
  "view ns (repo_delete i tbl) = repo_delete i (view ns tbl)"
  "own ns i tbl \<Longrightarrow> foreign ns (repo_delete i tbl) = foreign ns tbl"
  "own ns i tbl \<Longrightarrow> own ns i (repo_delete i tbl)"
  by (induction tbl) (auto simp: repo_delete_def view_def foreign_def own_def)

lemma view_update:
  assumes "own ns (sn_id r) tbl" and "sn_namespace r = Some ns" and "repo_update_if_state r st tbl = (b, tbl')"
  shows "repo_update_if_state r st (view ns tbl) = (b, view ns tbl')" and "foreign ns tbl' = foreign ns tbl" and "own ns (sn_id r) tbl'"
proof -
  let ?hit = "\<lambda>row. row_id row = sn_id r \<and> row_state row = state_value st"
  let ?upd = "map (\<lambda>row. if ?hit row then to_db_tuple r else row)"
  have b: "b = (length (filter ?hit tbl) = 1)" and tbl': "tbl' = ?upd tbl"
    using assms(3) by (simp_all add: repo_update_if_state_def)
  have "filter ?hit (view ns tbl) = filter ?hit tbl"
    using assms(1) unfolding view_def filter_filter own_def by (intro filter_cong) auto
  moreover have "?upd (view ns tbl) = view ns (?upd tbl)" "foreign ns (?upd tbl) = foreign ns tbl"
    using assms(1,2) unfolding own_def by (induction tbl) (auto simp: view_def foreign_def)
  ultimately show "repo_update_if_state r st (view ns tbl) = (b, view ns tbl')" "foreign ns tbl' = foreign ns tbl"
    by (simp_all add: repo_update_if_state_def b tbl')
  show "own ns (sn_id r) tbl'" using assms(1,2) by (auto simp: tbl' own_def)
qed

lemma view_list: "q_namespace q = Some ns \<Longrightarrow> repo_list q (view ns tbl) = repo_list q tbl"
proof -
  assume "q_namespace q = Some ns"
  then have "filter (row_matches q) (view ns tbl) = filter (row_matches q) tbl"
    unfolding view_def filter_filter by (intro filter_cong) (auto simp: row_matches_def)
  then show ?thesis by (simp add: repo_list_def matching_rows_def)
qed

section \<open>Programs that keep to one snapshot of the tenant\<close>

primrec keeps_to :: "string \<Rightarrow> string \<Rightarrow> 'a prog \<Rightarrow> bool" where
  "keeps_to ns i (Return a) \<longleftrightarrow> True"
| "keeps_to ns i (Raise e) \<longleftrightarrow> True"
| "keeps_to ns i (RepoCreate r k) \<longleftrightarrow> False"
| "keeps_to ns i (RepoGet j k) \<longleftrightarrow>
     j = i \<and> (\<forall>x. (\<forall>r. x = Inr (Some r) \<longrightarrow> sn_id r = i \<and> sn_namespace r = Some ns) \<longrightarrow> keeps_to ns i (k x))"
| "keeps_to ns i (RepoList q k) \<longleftrightarrow> False"
| "keeps_to ns i (RepoUpdateIf r st k) \<longleftrightarrow> sn_id r = i \<and> sn_namespace r = Some ns \<and> (\<forall>x. keeps_to ns i (k x))"
| "keeps_to ns i (RepoDelete j k) \<longleftrightarrow> j = i \<and> (\<forall>x. keeps_to ns i (k x))"
| "keeps_to ns i (RtSupports k) \<longleftrightarrow> (\<forall>x. keeps_to ns i (k x))"
| "keeps_to ns i (RtUnsupportedMessage k) \<longleftrightarrow> (\<forall>x. keeps_to ns i (k x))"
| "keeps_to ns i (RtCreate j sb n k) \<longleftrightarrow> (\<forall>x. keeps_to ns i (k x))"
| "keeps_to ns i (RtInspect j im n k) \<longleftrightarrow> (\<forall>x. keeps_to ns i (k x))"
| "keeps_to ns i (RtDelete j im n k) \<longleftrightarrow> (\<forall>x. keeps_to ns i (k x))"
| "keeps_to ns i (GetSandbox j k) \<longleftrightarrow> (\<forall>x. keeps_to ns i (k x))"
| "keeps_to ns i (Now k) \<longleftrightarrow> (\<forall>x. keeps_to ns i (k x))"
| "keeps_to ns i (Uuid4 k) \<longleftrightarrow> (\<forall>x. keeps_to ns i (k x))"
| "keeps_to ns i (Submit r k) \<longleftrightarrow> (\<forall>x. keeps_to ns i (k x))"

lemma repo_get_own:
  assumes "own ns i tbl" and "repo_get i tbl = Inr (Some r)"
  shows "sn_id r = i \<and> sn_namespace r = Some ns"
proof -
  obtain row where row: "List.find (\<lambda>row. row_id row = i) tbl = Some row" "row_to_record row = Inr r"
  proof (cases "List.find (\<lambda>row. row_id row = i) tbl")
    case (Some row)
    with assms(2) that [of row] show thesis by (cases "row_to_record row") (auto simp: repo_get_def)
  qed (use assms(2) in \<open>simp add: repo_get_def\<close>)
  then have "row \<in> set tbl" "row_id row = i" by (auto simp: find_Some_iff)
  with assms(1) have "row_namespace row = Some ns" by (simp add: own_def)
  with row(2) \<open>row_id row = i\<close> show ?thesis by (auto simp: row_to_record_def bindE_eq_Inr)
qed

lemma keeps_to_view:
  assumes "keeps_to ns i m" and "own ns i tbl" and "exec env m (tbl, s) = (x, tbl', s')"
  shows "exec env m (view ns tbl, s) = (x, view ns tbl', s') \<and> foreign ns tbl' = foreign ns tbl"
  using assms
proof (induction m arbitrary: tbl s)
  case (RepoGet j k)
  from RepoGet.prems(1) have "j = i" by simp
  moreover have "keeps_to ns i (k (repo_get i tbl))" using RepoGet.prems(1,2) repo_get_own by fastforce
  ultimately show ?case using RepoGet.IH [OF rangeI _ RepoGet.prems(2)] RepoGet.prems view_get [of ns i tbl] by simp
next
  case (RepoUpdateIf r st k)
  obtain b tbl1 where u: "repo_update_if_state r st tbl = (b, tbl1)" by fastforce
  from RepoUpdateIf.prems(1) have r: "sn_id r = i" "sn_namespace r = Some ns" "keeps_to ns i (k (Inr b))" by simp_all
  from view_update [OF _ r(2) u] RepoUpdateIf.prems(2) r(1)
  have v: "repo_update_if_state r st (view ns tbl) = (b, view ns tbl1)" "foreign ns tbl1 = foreign ns tbl" "own ns i tbl1" by simp_all
  from RepoUpdateIf.IH [OF rangeI r(3) v(3)] RepoUpdateIf.prems(3) u v(1,2) show ?case by simp
next
  case (RepoDelete j k)
  then have del: "own ns i (repo_delete i tbl)" "j = i" "keeps_to ns i (k (Inr ()))" using view_delete(3) by simp_all
  with RepoDelete.prems(3) have "exec env (k (Inr ())) (repo_delete i tbl, s) = (x, tbl', s')" by simp
  from RepoDelete.IH [OF rangeI del(3,1) this] del(2) RepoDelete.prems(2) view_delete [of ns i tbl] show ?case by simp
qed (simp_all split: prod.splits, blast+)

lemma keeps_to_bindP: "keeps_to ns i m \<Longrightarrow> (\<And>a. keeps_to ns i (f a)) \<Longrightarrow> keeps_to ns i (bindP m f)"
  by (induction m) simp_all


lemma keeps_to_requests:
  "keeps_to ns i (get_snapshot tenant i)" "keeps_to ns i (delete_snapshot tenant i)"
  by (auto simp: get_snapshot_def delete_snapshot_def mark_snapshot_deleting_def with_status_def verify_tenant_access_def
      thenP_def answer_def Let_def intro!: keeps_to_bindP split: option.splits sum.splits)

lemma keeps_to_resolve: "keeps_to ns (py_strip (or_empty (req_snapshot_id req))) (resolve_sandbox_image_from_request tenant req)"
  by (auto simp: resolve_sandbox_image_from_request_def Let_def answer_def intro!: keeps_to_bindP split: option.splits sum.splits)

text \<open>A row of somebody else is as good as none.\<close>

lemma own_or_foreign:
  assumes "table_ok tbl"
  obtains "own ns i tbl" | r where "repo_get i tbl = Inr (Some r)" and "sn_id r = i" and "sn_namespace r \<noteq> Some ns"
    and "repo_get i (view ns tbl) = Inr None"
proof -
  obtain rs where rs: "tbl = table_of rs" "wf_records rs" using assms by (auto simp: table_ok_def)
  show thesis
  proof (cases "\<exists>r\<in>set rs. sn_id r = i \<and> sn_namespace r \<noteq> Some ns")
    case True
    then obtain r where r: "r \<in> set rs" "sn_id r = i" "sn_namespace r \<noteq> Some ns" by blast
    have uniq: "c = r" if "c \<in> set rs" "sn_id c = i" for c
      using that r(1,2) rs(2) by (auto simp: wf_records_def distinct_map inj_on_def)
    have "repo_get i tbl = Inr (Some r)" using r(1,2) stored_Some [OF rs(2)] repo_get_stored [OF assms] rs(1) by auto
    moreover have "List.find (\<lambda>row. row_id row = i) (view ns tbl) = None"
      using uniq r(3) by (auto simp: find_None_iff view_def rs(1))
    ultimately show thesis using that(2) r(2,3) by (simp add: repo_get_def)
  next
    case False
    then show thesis using that(1) by (auto simp: own_def rs(1))
  qed
qed

definition confined :: "string \<Rightarrow> 's SnapshotEnv \<Rightarrow> 'a prog \<Rightarrow> Table \<Rightarrow> 's \<Rightarrow> bool" where
  "confined ns env m tbl s \<longleftrightarrow>
     (case exec env m (tbl, s) of (x, tbl', s') \<Rightarrow>
        exec env m (view ns tbl, s) = (x, view ns tbl', s') \<and> foreign ns tbl' = foreign ns tbl)"

lemma confined_keeps: "keeps_to ns i m \<Longrightarrow> own ns i tbl \<Longrightarrow> confined ns env m tbl s"
  using keeps_to_view by (fastforce simp: confined_def split: prod.split)

lemma confined_by_id:
  assumes "table_ok tbl" and "keeps_to ns i m"
    and "\<And>r. repo_get i tbl = Inr (Some r) \<Longrightarrow> sn_id r = i \<Longrightarrow> sn_namespace r \<noteq> Some ns \<Longrightarrow>
      repo_get i (view ns tbl) = Inr None \<Longrightarrow> confined ns env m tbl s"
  shows "confined ns env m tbl s"
  by (rule own_or_foreign [OF assms(1), of ns i]) (rule confined_keeps [OF assms(2)] assms(3); assumption)+

text \<open>
  Claim C9. Tenants are isolated. A get, a list, a delete or a restore of a tenant returns, raises and does exactly
  what it would do on a table that holds only the rows of that tenant, and changes no other row; in particular a
  snapshot of somebody else cannot be told from one that does not exist.
\<close>

theorem tenants_are_isolated:
  assumes "table_ok tbl"
  shows "confined ns env (get_snapshot (Some ns) i) tbl s \<and> confined ns env (list_snapshots (Some ns) filt pagination) tbl s \<and>
    confined ns env (delete_snapshot (Some ns) i) tbl s \<and> confined ns env (resolve_sandbox_image_from_request (Some ns) req) tbl s"
proof (intro conjI)
  show "confined ns env (get_snapshot (Some ns) i) tbl s"
    by (rule confined_by_id [OF assms keeps_to_requests(1)])
       (auto simp: confined_def get_snapshot_def exec_simps verify_tenant_access_def)
  show "confined ns env (delete_snapshot (Some ns) i) tbl s"
    by (rule confined_by_id [OF assms keeps_to_requests(2)])
       (auto simp: confined_def delete_snapshot_def exec_simps verify_tenant_access_def)
  show "confined ns env (list_snapshots (Some ns) filt pagination) tbl s"
    by (simp add: confined_def list_snapshots_def Let_def exec_simps view_list split: sum.split)
  show "confined ns env (resolve_sandbox_image_from_request (Some ns) req) tbl s"
    by (rule confined_by_id [OF assms keeps_to_resolve])
       (auto simp: confined_def resolve_sandbox_image_from_request_def Let_def exec_simps split: option.splits)
qed

end
