(* ===== verification/Snapshot_Recovery.thy ===== *)
theory Snapshot_Recovery
  imports Snapshot_Service
begin

text \<open>
  The recovery at the start of the server ends: every round that makes progress finishes at least one of the snapshots
  that were left being created or deleted.
\<close>

definition unfinished :: "Table \<Rightarrow> string set" where
  "unfinished tbl = {i. \<exists>r. stored tbl i = Some r \<and> sn_state r \<in> {CREATING, DELETING}}"

lemma finite_unfinished: "table_ok tbl \<Longrightarrow> finite (unfinished tbl)"
  by (rule finite_subset [of _ "row_id ` set tbl"]) (auto simp: unfinished_def stored_ids)

text \<open>A valid clock, and a runtime that does not report a snapshot as being deleted.\<close>

definition sane_env :: "'s SnapshotEnv \<Rightarrow> bool" where
  "sane_env env \<longleftrightarrow>
     (\<forall>s. valid_utc (fst (se_now env s))) \<and>
     (\<forall>i im ns s status s'. se_inspect env i im ns s = (Inr status, s') \<longrightarrow> rs_state status \<noteq> DELETING)"

lemma cleanup_exec:
  "\<exists>x s'. exec env (cleanup_runtime_artifact i im ns) (tbl, s) = (x, tbl, s') \<and> (x = Inr () \<or> (\<exists>e. x = Inl e \<and> \<not> is_Exception e))"
  by (auto simp: cleanup_runtime_artifact_def exec_simps split: prod.splits sum.splits)

lemma complete_exec:
  assumes "sane_env env" and "table_ok tbl" and "stored tbl (sn_id r) = Some r" and "sn_state r = CREATING \<or> sn_state r = DELETING"
    and "rs_state status \<in> {READY, FAILED}"
  shows "\<exists>x tbl' s'. exec env (complete_snapshot r status) (tbl, s) = (x, tbl', s') \<and> table_ok tbl' \<and>
    (\<forall>j. j \<noteq> sn_id r \<longrightarrow> stored tbl' j = stored tbl j) \<and>
    (sn_id r \<notin> unfinished tbl' \<and> x = Inr () \<or> stored tbl' (sn_id r) = stored tbl (sn_id r) \<and> (\<exists>e. x = Inl e \<and> \<not> is_Exception e))"
proof (cases "sn_state r = DELETING")
  case True
  obtain x s' where c: "exec env (cleanup_runtime_artifact (sn_id r) (rs_image status) (sn_namespace r)) (tbl, s) = (x, tbl, s')"
    "x = Inr () \<or> (\<exists>e. x = Inl e \<and> \<not> is_Exception e)" using cleanup_exec by metis
  have run: "exec env (complete_snapshot r status) (tbl, s) =
      (case x of Inl e \<Rightarrow> (Inl e, tbl, s') | Inr _ \<Rightarrow> (Inr (), repo_delete (sn_id r) tbl, s'))"
    using True c(1) assms(3) repo_get_stored [OF assms(2)] by (simp add: complete_snapshot_def exec_simps split: sum.split)
  from c(2) show ?thesis
  proof
    assume "x = Inr ()"
    with run repo_delete_law [OF assms(2), of "sn_id r"] show ?thesis by (auto simp: unfinished_def)
  next
    assume "\<exists>e. x = Inl e \<and> \<not> is_Exception e"
    with run assms(2) show ?thesis by auto
  qed
next
  case False
  then have creating: "sn_state r = CREATING" using assms(4) by simp
  obtain now s' where now: "se_now env s = (now, s')" "valid_utc now"
    using assms(1) by (metis fst_conv sane_env_def surj_pair)
  obtain r' where r': "runtime_status_record r status now = Some r'"
    using assms(5) by (cases "truthy (rs_image status)") (auto simp: runtime_status_record_def)
  have "valid_record r" using stored_id [OF assms(2,3)] by simp
  with r' now(2) have v: "valid_record r'" "sn_id r' = sn_id r" "sn_state r' \<in> {READY, FAILED}"
    by (auto simp: runtime_status_record_def with_status_def valid_record_def split: if_splits)
  obtain b tbl' where u: "repo_update_if_state r' CREATING tbl = (b, tbl')" by fastforce
  note law = repo_update_if_law [OF assms(2) v(1) u]
  have "exec env (complete_snapshot r status) (tbl, s) = (Inr (), tbl', s')"
    using creating assms(3) repo_get_stored [OF assms(2)] now(1) r' u
    by (simp add: complete_snapshot_def build_runtime_status_record_def exec_simps)
  moreover have "b" using law(2) v(2) assms(3) creating by simp
  ultimately show ?thesis using law v by (auto simp: unfinished_def)
qed

text \<open>One record of a round: \<open>True\<close> says that it was finished, unless another was before.\<close>

lemma recover_one_exec:
  assumes "sane_env env" and "table_ok tbl" and "stored tbl (sn_id r) = Some r" and "sn_state r = CREATING \<or> sn_state r = DELETING"
  shows "\<exists>x tbl' s'. exec env (recover_one str_exn r p) (tbl, s) = (x, tbl', s') \<and> table_ok tbl' \<and>
    (\<forall>j. j \<noteq> sn_id r \<longrightarrow> stored tbl' j = stored tbl j) \<and>
    (sn_id r \<notin> unfinished tbl' \<and> x = Inr True \<or> stored tbl' (sn_id r) = stored tbl (sn_id r) \<and> (x = Inr p \<or> (\<exists>e. x = Inl e)))"
proof -
  let ?failed = "\<lambda>e. \<lparr>rs_state = FAILED, rs_image = None, rs_reason = Some ''snapshot_recovery_failed'',
             rs_message = Some (''Failed to recover unfinished snapshot: '' @ str_exn e)\<rparr>"
  note complete = complete_exec [OF assms]
  consider (creating) "sn_state r = CREATING" | (deleting) "sn_state r = DELETING" using assms(4) by blast
  then show ?thesis
  proof cases
    case deleting
    obtain x s' where d: "se_delete env (sn_id r) (sn_image r) (sn_namespace r) s = (x, s')" by fastforce
    show ?thesis
    proof (cases x)
      case (Inl e)
      with d deleting assms(2) show ?thesis
        by (cases "is_Exception e") (simp_all add: recover_one_def recover_unfinished_snapshot_def exec_simps)
    next
      case (Inr u)
      with d deleting repo_delete_law [OF assms(2), of "sn_id r"] show ?thesis
        by (simp add: recover_one_def recover_unfinished_snapshot_def exec_simps unfinished_def)
    qed
  next
    case creating
    obtain x s' where i: "se_inspect env (sn_id r) (sn_image r) (sn_namespace r) s = (x, s')" by fastforce
    show ?thesis
    proof (cases x)
      case (Inl e)
      from complete [of "?failed e" s'] i Inl creating assms(2) show ?thesis
        by (cases "is_Exception e") (auto simp: recover_one_def recover_unfinished_snapshot_def exec_simps)
    next
      case (Inr status)
      show ?thesis
      proof (cases "rs_state status = CREATING")
        case True
        obtain y s'' where sub: "se_submit env r s' = (y, s'')" by fastforce
        show ?thesis
        proof (cases y)
          case (Inl e)
          from complete [of "?failed e" s''] i Inr True sub Inl creating assms(2) show ?thesis
            by (cases "is_Exception e") (auto simp: recover_one_def recover_unfinished_snapshot_def exec_simps)
        next
          case (Inr u)
          with i \<open>x = Inr status\<close> True sub creating assms(2) show ?thesis
            by (simp add: recover_one_def recover_unfinished_snapshot_def exec_simps)
        qed
      next
        case False
        then have "rs_state status \<in> {READY, FAILED}"
          using assms(1) i Inr unfolding sane_env_def by (metis SnapshotState.exhaust insertCI)
        from complete [OF this, of s'] i Inr False creating show ?thesis
          by (auto simp: recover_one_def recover_unfinished_snapshot_def exec_simps)
      qed
    qed
  qed
qed

text \<open>The records of a round.\<close>

lemma unfinished_step:
  assumes "\<forall>j. j \<noteq> i \<longrightarrow> stored tbl' j = stored tbl j"
  shows "stored tbl' i = stored tbl i \<Longrightarrow> unfinished tbl' = unfinished tbl"
    and "i \<notin> unfinished tbl' \<Longrightarrow> i \<in> unfinished tbl \<Longrightarrow> unfinished tbl' = unfinished tbl - {i}"
  using assms by (auto simp: unfinished_def) metis+

lemma rest_stored:
  assumes "distinct (map sn_id (r # rs))" and "\<forall>j. j \<noteq> sn_id r \<longrightarrow> stored tbl1 j = stored tbl j"
    and "\<forall>r'\<in>set (r # rs). stored tbl (sn_id r') = Some r' \<and> (sn_state r' = CREATING \<or> sn_state r' = DELETING)"
  shows "\<forall>r'\<in>set rs. stored tbl1 (sn_id r') = Some r' \<and> (sn_state r' = CREATING \<or> sn_state r' = DELETING)"
proof
  fix r'
  assume r': "r' \<in> set rs"
  then have "sn_id r' \<noteq> sn_id r" using assms(1) by (auto simp: image_iff)
  with r' show "stored tbl1 (sn_id r') = Some r' \<and> (sn_state r' = CREATING \<or> sn_state r' = DELETING)" using assms(2,3) by simp
qed

lemma recover_items_exec:
  assumes "sane_env env" and "table_ok tbl" and "distinct (map sn_id rs)"
    and "\<forall>r\<in>set rs. stored tbl (sn_id r) = Some r \<and> (sn_state r = CREATING \<or> sn_state r = DELETING)"
  shows "\<exists>x tbl' s'. exec env (recover_items str_exn rs p) (tbl, s) = (x, tbl', s') \<and> table_ok tbl' \<and>
    unfinished tbl' \<subseteq> unfinished tbl \<and> (x = Inr (\<not> p) \<longrightarrow> \<not> p \<and> unfinished tbl' \<noteq> unfinished tbl)"
  using assms(2-)
proof (induction rs arbitrary: p tbl s)
  case Nil
  then show ?case by simp
next
  case (Cons r rs)
  then have r: "stored tbl (sn_id r) = Some r" "sn_state r = CREATING \<or> sn_state r = DELETING" by simp_all
  obtain x tbl1 s1 where one: "exec env (recover_one str_exn r p) (tbl, s) = (x, tbl1, s1)" "table_ok tbl1"
    "\<forall>j. j \<noteq> sn_id r \<longrightarrow> stored tbl1 j = stored tbl j"
    "sn_id r \<notin> unfinished tbl1 \<and> x = Inr True \<or> stored tbl1 (sn_id r) = stored tbl (sn_id r) \<and> (x = Inr p \<or> (\<exists>e. x = Inl e))"
    using recover_one_exec [OF assms(1) Cons.prems(1) r, of str_exn p s] by blast
  have "sn_id r \<in> unfinished tbl" using r by (auto simp: unfinished_def)
  then have step: "unfinished tbl1 \<subset> unfinished tbl \<and> x = Inr True \<or> unfinished tbl1 = unfinished tbl \<and> (x = Inr p \<or> (\<exists>e. x = Inl e))"
    using one(4) unfinished_step [OF one(3)] by blast
  show ?case
  proof (cases x)
    case (Inl e)
    with one step show ?thesis by (simp add: exec_simps)
  next
    case (Inr b)
    have rest: "\<forall>r'\<in>set rs. stored tbl1 (sn_id r') = Some r' \<and> (sn_state r' = CREATING \<or> sn_state r' = DELETING)"
      by (rule rest_stored [OF Cons.prems(2) one(3) Cons.prems(3)])
    obtain y tbl2 s2 where more: "exec env (recover_items str_exn rs b) (tbl1, s1) = (y, tbl2, s2)" "table_ok tbl2"
      "unfinished tbl2 \<subseteq> unfinished tbl1" "y = Inr (\<not> b) \<longrightarrow> \<not> b \<and> unfinished tbl2 \<noteq> unfinished tbl1"
      using Cons.IH [OF one(2) _ rest, of b s1] Cons.prems(2) by auto
    have "exec env (recover_items str_exn (r # rs) p) (tbl, s) = (y, tbl2, s2)"
      using one(1) Inr more(1) by (simp add: exec_simps)
    then show ?thesis using more step Inr by (cases b; cases p) auto
  qed
qed

text \<open>The records of the query are unfinished and stored once.\<close>

lemma page_subset: "set (page_of p n xs) \<subseteq> set xs"
  by (auto simp: page_of_def Let_def dest: in_set_takeD in_set_dropD)

lemma recovery_items:
  assumes "table_ok tbl"
  shows "\<exists>rs. repo_list recovery_query tbl = Inr rs \<and> distinct (map sn_id (lr_items rs)) \<and>
    (\<forall>r\<in>set (lr_items rs). stored tbl (sn_id r) = Some r \<and> (sn_state r = CREATING \<or> sn_state r = DELETING)) \<and>
    (lr_items rs = [] \<longrightarrow> unfinished tbl = {})"
proof -
  obtain rs where rs: "tbl = table_of rs" "wf_records rs" using assms by (auto simp: table_ok_def)
  let ?ms = "matching recovery_query rs"
  have sel: "row_matches recovery_query (to_db_tuple r) \<longleftrightarrow> sn_state r = CREATING \<or> sn_state r = DELETING" for r
    by (cases "sn_state r") (simp_all add: row_matches_def recovery_query_def)
  have "distinct (map sn_id ?ms)"
    using rs(2) by (simp add: matching_def wf_records_def rev_map distinct_map inj_on_def)
  then have d: "distinct (map sn_id (page_of 1 200 ?ms))"
    by (simp add: page_of_def Let_def take_map [symmetric] drop_map [symmetric])
  have m: "\<forall>r\<in>set (page_of 1 200 ?ms). stored tbl (sn_id r) = Some r \<and> (sn_state r = CREATING \<or> sn_state r = DELETING)"
    using page_subset [of 1 200 ?ms] by (auto simp: rs(1) stored_Some [OF rs(2)] set_matching sel)
  have "?ms = []" if "page_of 1 200 ?ms = []" using that by (simp add: page_of_def)
  then have e: "unfinished tbl = {}" if "page_of 1 200 ?ms = []"
    using that set_matching [of recovery_query rs] by (auto simp: unfinished_def rs(1) stored_Some [OF rs(2)] sel)
  show ?thesis
    using d m e by (simp add: rs(1) repo_list_law [OF rs(2)]) (simp add: recovery_query_def SNAPSHOT_RECOVERY_PAGE_SIZE_def)
qed

text \<open>A runtime that decides: it deletes what it is asked to, and reports a terminal status or fails with an exception.\<close>

definition decisive_env :: "'s SnapshotEnv \<Rightarrow> bool" where
  "decisive_env env \<longleftrightarrow>
     (\<forall>s. valid_utc (fst (se_now env s))) \<and>
     (\<forall>i im ns s. fst (se_delete env i im ns s) = Inr ()) \<and>
     (\<forall>i im ns s. case fst (se_inspect env i im ns s) of Inl e \<Rightarrow> is_Exception e | Inr status \<Rightarrow> rs_state status \<in> {READY, FAILED})"

lemma decisive_is_sane:
  assumes "decisive_env env"
  shows "sane_env env"
  unfolding sane_env_def
proof (intro conjI allI impI)
  show "valid_utc (fst (se_now env s))" for s using assms by (simp add: decisive_env_def)
  fix i im ns s status s'
  assume "se_inspect env i im ns s = (Inr status, s')"
  moreover have "case fst (se_inspect env i im ns s) of Inl e \<Rightarrow> is_Exception e | Inr status \<Rightarrow> rs_state status \<in> {READY, FAILED}"
    using assms unfolding decisive_env_def by blast
  ultimately show "rs_state status \<noteq> DELETING" by auto
qed

lemma complete_creating_exec:
  assumes "sane_env env" and "table_ok tbl" and "stored tbl (sn_id r) = Some r" and "sn_state r = CREATING"
    and "rs_state status \<in> {READY, FAILED}"
  shows "fst (exec env (complete_snapshot r status) (tbl, s)) = Inr ()"
  using assms(3-) repo_get_stored [OF assms(2)]
  by (auto simp: complete_snapshot_def build_runtime_status_record_def runtime_status_record_def exec_simps split: prod.splits)

lemma recover_one_decisive:
  assumes "decisive_env env" and "table_ok tbl" and "stored tbl (sn_id r) = Some r" and "sn_state r = CREATING \<or> sn_state r = DELETING"
  shows "fst (exec env (recover_one str_exn r p) (tbl, s)) = Inr True"
proof (cases "sn_state r = CREATING")
  case True
  note complete = complete_creating_exec [OF decisive_is_sane [OF assms(1)] assms(2,3) True]
  obtain x s' where i: "se_inspect env (sn_id r) (sn_image r) (sn_namespace r) s = (x, s')" by fastforce
  then have x: "case x of Inl e \<Rightarrow> is_Exception e | Inr status \<Rightarrow> rs_state status \<in> {READY, FAILED}"
    using assms(1) unfolding decisive_env_def by (metis fst_conv)
  show ?thesis
  proof (cases x)
    case (Inl e)
    let ?st = "\<lparr>rs_state = FAILED, rs_image = None, rs_reason = Some ''snapshot_recovery_failed'',
             rs_message = Some (''Failed to recover unfinished snapshot: '' @ str_exn e)\<rparr>"
    have "\<exists>w. exec env (complete_snapshot r ?st) (tbl, s') = (Inr (), w)" using complete [of ?st s'] by (metis insertCI prod.collapse SnapshotRuntimeStatus.select_convs(1))
    with Inl i x True show ?thesis by (auto simp: recover_one_def recover_unfinished_snapshot_def exec_simps)
  next
    case (Inr status)
    then have "\<exists>w. exec env (complete_snapshot r status) (tbl, s') = (Inr (), w)" using complete [of status s'] x by (metis prod.collapse sum.case(2))
    with Inr i x True show ?thesis by (auto simp: recover_one_def recover_unfinished_snapshot_def exec_simps)
  qed
next
  case False
  obtain s' where "se_delete env (sn_id r) (sn_image r) (sn_namespace r) s = (Inr (), s')"
    using assms(1) unfolding decisive_env_def by (metis prod.collapse)
  with False assms(4) show ?thesis by (simp add: recover_one_def recover_unfinished_snapshot_def exec_simps)
qed

lemma recover_items_decisive:
  assumes "decisive_env env" and "table_ok tbl" and "distinct (map sn_id rs)"
    and "\<forall>r\<in>set rs. stored tbl (sn_id r) = Some r \<and> (sn_state r = CREATING \<or> sn_state r = DELETING)"
  shows "fst (exec env (recover_items str_exn rs p) (tbl, s)) = Inr (rs \<noteq> [] \<or> p)"
  using assms(2-)
proof (induction rs arbitrary: p tbl s)
  case Nil
  then show ?case by simp
next
  case (Cons r rs)
  then have r: "stored tbl (sn_id r) = Some r" "sn_state r = CREATING \<or> sn_state r = DELETING" by simp_all
  obtain tbl1 s1 where one: "exec env (recover_one str_exn r p) (tbl, s) = (Inr True, tbl1, s1)" "table_ok tbl1"
    "\<forall>j. j \<noteq> sn_id r \<longrightarrow> stored tbl1 j = stored tbl j"
    using recover_one_exec [OF decisive_is_sane [OF assms(1)] Cons.prems(1) r, of str_exn p s]
      recover_one_decisive [OF assms(1) Cons.prems(1) r, of str_exn p s] by auto
  have "\<forall>r'\<in>set rs. stored tbl1 (sn_id r') = Some r' \<and> (sn_state r' = CREATING \<or> sn_state r' = DELETING)"
    by (rule rest_stored [OF Cons.prems(2) one(3) Cons.prems(3)])
  then show ?case using Cons.IH [OF one(2), of True s1] Cons.prems(2) one(1) by (simp add: exec_simps)
qed

text \<open>
  Claim C11. The recovery of the unfinished snapshots ends: whatever the runtime answers (it never reports a snapshot as
  being deleted), one round more than there are unfinished snapshots is enough for the loop to leave or to raise, and no
  snapshot becomes unfinished. With a runtime that deletes what it is asked to and reports terminal statuses (or fails),
  the loop leaves only when no unfinished snapshot remains.
\<close>

theorem recovery_ends:
  assumes "sane_env env" and "table_ok tbl" and "card (unfinished tbl) < fuel"
  shows "case exec env (recover_unfinished_snapshots str_exn fuel) (tbl, s) of (x, tbl', s') \<Rightarrow>
    x \<noteq> Inr None \<and> table_ok tbl' \<and> unfinished tbl' \<subseteq> unfinished tbl \<and>
    (decisive_env env \<longrightarrow> x = Inr (Some ()) \<and> unfinished tbl' = {})"
  using assms(2,3)
proof (induction fuel arbitrary: tbl s)
  case 0
  then show ?case by simp
next
  case (Suc fuel)
  obtain rs where rs: "repo_list recovery_query tbl = Inr rs" "distinct (map sn_id (lr_items rs))"
    "\<forall>r\<in>set (lr_items rs). stored tbl (sn_id r) = Some r \<and> (sn_state r = CREATING \<or> sn_state r = DELETING)"
    "lr_items rs = [] \<longrightarrow> unfinished tbl = {}"
    using recovery_items [OF Suc.prems(1)] by blast
  show ?case
  proof (cases "lr_items rs = []")
    case True
    with rs(1,4) Suc.prems(1) show ?thesis by (simp add: exec_simps)
  next
    case False
    obtain x tbl1 s1 where items: "exec env (recover_items str_exn (lr_items rs) False) (tbl, s) = (x, tbl1, s1)" "table_ok tbl1"
      "unfinished tbl1 \<subseteq> unfinished tbl" "x = Inr True \<longrightarrow> unfinished tbl1 \<noteq> unfinished tbl"
      using recover_items_exec [OF assms(1) Suc.prems(1) rs(2,3), of str_exn False s] by auto
    have decisive: "x = Inr True" if "decisive_env env"
      using recover_items_decisive [OF that Suc.prems(1) rs(2,3), of str_exn False s] items(1) False by simp
    show ?thesis
    proof (cases "x = Inr True")
      case True
      then have "card (unfinished tbl1) < card (unfinished tbl)"
        using items(3,4) finite_unfinished [OF Suc.prems(1)] by (simp add: psubset_card_mono psubsetI)
      then have "card (unfinished tbl1) < fuel" using Suc.prems(2) by simp
      note rest = Suc.IH [OF items(2) this, of s1]
      have "exec env (recover_unfinished_snapshots str_exn (Suc fuel)) (tbl, s) = exec env (recover_unfinished_snapshots str_exn fuel) (tbl1, s1)"
        using rs(1) False items(1) True by (simp add: exec_simps)
      with rest items(3) show ?thesis by (auto split: prod.splits)
    next
      case stop: False
      have "exec env (recover_unfinished_snapshots str_exn (Suc fuel)) (tbl, s) = (map_sum id (\<lambda>_. Some ()) x, tbl1, s1)"
        using rs(1) False items(1) stop by (cases x) (auto simp: exec_simps)
      moreover have "map_sum id (\<lambda>_. Some ()) x \<noteq> Inr None" by (cases x) auto
      ultimately show ?thesis using items(2,3) decisive stop by auto
    qed
  qed
qed

end
