(* ===== verification/Py_Sha256.thy ===== *)
theory Py_Sha256
  imports Py_Bytes "HOL-Library.Word"
begin

text \<open>\<open>hashlib.sha256\<close>, as FIPS 180-4 defines it.\<close>

unbundle bit_operations_syntax

section \<open>SHA-256\<close>

definition sha_ch :: "32 word \<Rightarrow> 32 word \<Rightarrow> 32 word \<Rightarrow> 32 word" where
  "sha_ch x y z = (x AND y) XOR (NOT x AND z)"

definition sha_maj :: "32 word \<Rightarrow> 32 word \<Rightarrow> 32 word \<Rightarrow> 32 word" where
  "sha_maj x y z = (x AND y) XOR (x AND z) XOR (y AND z)"

definition sha_Sigma0 :: "32 word \<Rightarrow> 32 word" where
  "sha_Sigma0 x = word_rotr 2 x XOR word_rotr 13 x XOR word_rotr 22 x"

definition sha_Sigma1 :: "32 word \<Rightarrow> 32 word" where
  "sha_Sigma1 x = word_rotr 6 x XOR word_rotr 11 x XOR word_rotr 25 x"

definition sha_sigma0 :: "32 word \<Rightarrow> 32 word" where
  "sha_sigma0 x = word_rotr 7 x XOR word_rotr 18 x XOR drop_bit 3 x"

definition sha_sigma1 :: "32 word \<Rightarrow> 32 word" where
  "sha_sigma1 x = word_rotr 17 x XOR word_rotr 19 x XOR drop_bit 10 x"

text \<open>
  The constants of the standard are the first 32 fractional bits of roots of the first primes: cube roots
  of 64 primes for the rounds, and square roots of eight for the initial state. They are computed from
  that description: the primes below 312, which need no trial divisor above 17, and
  \<open>floor_root e k 0 n\<close>, the integer \<open>e\<close>-th root of \<open>n\<close>, found bit by bit from the
  \<open>k\<close>-th bit down. The conversion to a word keeps the fractional bits.
\<close>

definition sha_primes :: "nat list" where
  "sha_primes = filter (\<lambda>p. list_all (\<lambda>d. p \<le> d \<or> p mod d \<noteq> 0) [2..<18]) [2..<312]"

fun floor_root :: "nat \<Rightarrow> nat \<Rightarrow> nat \<Rightarrow> nat \<Rightarrow> nat" where
  "floor_root e 0 r n = r"
| "floor_root e (Suc k) r n = floor_root e k (if (r + 2 ^ k) ^ e \<le> n then r + 2 ^ k else r) n"

definition root_bits :: "nat \<Rightarrow> nat \<Rightarrow> 32 word" where
  "root_bits e p = word_of_nat (floor_root e 35 0 (p * 2 ^ (32 * e)))"

definition sha_K :: "32 word list" where
  "sha_K = map (root_bits 3) sha_primes"

definition sha_init :: "32 word list" where
  "sha_init = map (root_bits 2) (take 8 sha_primes)"

text \<open>Padding: a one bit, zeros, and the length in bits as a 64-bit number.\<close>

definition sha_pad :: "nat list \<Rightarrow> nat list" where
  "sha_pad m = m @ [128] @ replicate ((119 - length m mod 64) mod 64) 0 @ be32 (8 * length m div 2 ^ 32) @ be32 (8 * length m)"

fun sha_words :: "nat list \<Rightarrow> 32 word list" where
  "sha_words (a # b # c # d # r) = word_of_nat (((a * 256 + b) * 256 + c) * 256 + d) # sha_words r"
| "sha_words _ = []"

text \<open>The message schedule, kept as the last sixteen words, newest first.\<close>

definition sha_next :: "32 word list \<Rightarrow> 32 word" where
  "sha_next w = sha_sigma1 (w ! 1) + w ! 6 + sha_sigma0 (w ! 14) + w ! 15"

fun sha_schedule :: "nat \<Rightarrow> 32 word list \<Rightarrow> 32 word list" where
  "sha_schedule 0 w = []"
| "sha_schedule (Suc n) w = (let x = sha_next w in x # sha_schedule n (x # butlast w))"

fun sha_round :: "32 word list \<Rightarrow> 32 word \<times> 32 word \<Rightarrow> 32 word list" where
  "sha_round [a, b, c, d, e, f, g, h] (k, w) =
     (let t1 = h + sha_Sigma1 e + sha_ch e f g + k + w; t2 = sha_Sigma0 a + sha_maj a b c
      in [t1 + t2, a, b, c, d + t1, e, f, g])"
| "sha_round s _ = s"

definition sha_block :: "32 word list \<Rightarrow> 32 word list \<Rightarrow> 32 word list" where
  "sha_block s w = map2 (+) s (foldl sha_round s (zip sha_K (w @ sha_schedule 48 (rev w))))"

fun sha_blocks :: "nat \<Rightarrow> 32 word list \<Rightarrow> 32 word list \<Rightarrow> 32 word list" where
  "sha_blocks 0 s w = s"
| "sha_blocks (Suc n) s w = sha_blocks n (sha_block s (take 16 w)) (drop 16 w)"

definition sha256 :: "nat list \<Rightarrow> nat list" where
  "sha256 m = (let w = sha_words (sha_pad m) in concat (map (\<lambda>x. be32 (unat x)) (sha_blocks (length w div 16) sha_init w)))"

section \<open>The constants\<close>

lemma floor_root_bounds:
  "r ^ e \<le> n \<Longrightarrow> n < (r + 2 ^ k) ^ e \<Longrightarrow>
   floor_root e k r n ^ e \<le> n \<and> n < (floor_root e k r n + 1) ^ e"
proof (induction k arbitrary: r)
  case (Suc k)
  have two: "r + 2 ^ Suc k = r + 2 ^ k + 2 ^ k" by simp
  show ?case
  proof (cases "(r + 2 ^ k) ^ e \<le> n")
    case True
    then show ?thesis
      using Suc.IH [OF True] Suc.prems(2) unfolding two by (simp only: floor_root.simps if_True)
  next
    case False
    then have "n < (r + 2 ^ k) ^ e" by (simp only: not_le)
    from Suc.IH [OF Suc.prems(1) this] False show ?thesis
      by (simp only: floor_root.simps if_False)
  qed
qed simp

text \<open>Thirty-five bits are enough for the primes below \<open>8 ^ e\<close>, which covers both tables.\<close>

lemma scaled_below_power: "p < b ^ e \<Longrightarrow> 0 < m \<Longrightarrow> p * m ^ e < (0 + b * m) ^ (e :: nat)" for p b m :: nat
  by (simp add: power_mult_distrib)

lemma root_bits_floor:
  assumes "0 < e" "p < 8 ^ e"
  shows "\<exists>q. root_bits e p = word_of_nat q \<and> q ^ e \<le> p * (2 ^ 32) ^ e \<and> p * (2 ^ 32) ^ e < (q + 1) ^ e"
proof -
  have "(2 :: nat) ^ 35 = 8 * 2 ^ 32" by simp
  moreover have "0 < (2 :: nat) ^ 32" by simp
  ultimately have "p * (2 ^ 32) ^ e < (0 + 2 ^ 35) ^ e"
    using scaled_below_power [OF assms(2), of "2 ^ 32"] by (simp only: simp_thms)
  moreover have "0 ^ e \<le> p * (2 ^ 32) ^ e"
    using assms(1) by (simp only: zero_power le0)
  ultimately have "floor_root e 35 0 (p * (2 ^ 32) ^ e) ^ e \<le> p * (2 ^ 32) ^ e \<and>
    p * (2 ^ 32) ^ e < (floor_root e 35 0 (p * (2 ^ 32) ^ e) + 1) ^ e"
    by (intro floor_root_bounds)
  then show ?thesis
    unfolding root_bits_def power_mult by blast
qed

text \<open>The numbers below 312 that have no divisor but one and themselves.\<close>

lemma sha_primes_iff: "p \<in> set sha_primes \<longleftrightarrow> 2 \<le> p \<and> p < 312 \<and> (\<forall>d. d dvd p \<longrightarrow> d = 1 \<or> d = p)"
proof
  assume "p \<in> set sha_primes"
  then have p: "2 \<le> p" "p < 312" and trial: "\<And>d. 2 \<le> d \<Longrightarrow> d < 18 \<Longrightarrow> p \<le> d \<or> \<not> d dvd p"
    unfolding sha_primes_def set_filter set_upt list_all_iff by (auto simp: dvd_eq_mod_eq_0)
  have "d = 1 \<or> d = p" if "d dvd p" for d
  proof (rule ccontr)
    assume no: "\<not> (d = 1 \<or> d = p)"
    from that obtain q where q: "p = d * q" by (rule dvdE)
    with p no have ge: "2 \<le> d" "2 \<le> q" by (cases d; cases q; force)+
    with q have lt: "d < p" "q < p" by simp_all
    have "q dvd p" unfolding q by (rule dvd_triv_right)
    with trial ge lt that have "18 \<le> d" "18 \<le> q" by (meson not_le)+
    then have "18 * 18 \<le> p" unfolding q by (rule mult_le_mono)
    with p show False by simp
  qed
  with p show "2 \<le> p \<and> p < 312 \<and> (\<forall>d. d dvd p \<longrightarrow> d = 1 \<or> d = p)" by blast
next
  assume prime: "2 \<le> p \<and> p < 312 \<and> (\<forall>d. d dvd p \<longrightarrow> d = 1 \<or> d = p)"
  have "p \<le> d \<or> p mod d \<noteq> 0" if "2 \<le> d" for d
  proof (cases "d dvd p")
    case True
    with prime have "d = 1 \<or> d = p" by blast
    with that show ?thesis by linarith
  next
    case False
    then show ?thesis by (simp only: dvd_eq_mod_eq_0 simp_thms)
  qed
  with prime show "p \<in> set sha_primes"
    unfolding sha_primes_def set_filter set_upt list_all_iff
    by (simp only: mem_Collect_eq atLeastLessThan_iff Ball_def simp_thms) blast
qed

lemma sha_primes_below: "p \<in> set sha_primes \<Longrightarrow> p < 8 ^ 3"
  unfolding sha_primes_def set_filter set_upt by simp

lemma length_sha_primes: "length sha_primes = 64"
  by (simp add: sha_primes_def)

lemma length_sha_K [simp]: "length sha_K = 64"
  by (simp add: sha_K_def length_sha_primes)

lemma length_sha_init [simp]: "length sha_init = 8"
  by (simp add: sha_init_def length_sha_primes)

end
