(* ===== verification/Snapshot_Runtimes.thy ===== *)
theory Snapshot_Runtimes
  imports Snapshot_Recovery Py_Sha256
begin

text \<open>
  The runtimes behind the snapshot service: the placeholder (\<open>services/snapshot_runtime.py\<close>), Docker
  (\<open>services/docker/snapshot_runtime.py\<close>) and Kubernetes (\<open>services/k8s/snapshot_runtime.py\<close>), with the function that
  selects one (\<open>services/snapshot_runtime_factory.py\<close>). The Docker client and the objects of the cluster are
  interfaces that may do anything and raise anything. A printed exception is the parameter \<open>str_exn\<close>.
\<close>

definition failed :: "string \<Rightarrow> string \<Rightarrow> SnapshotRuntimeStatus" where
  "failed reason message = \<lparr>rs_state = FAILED, rs_image = None, rs_reason = Some reason, rs_message = Some message\<rparr>"

definition ready :: "string \<Rightarrow> string \<Rightarrow> string \<Rightarrow> SnapshotRuntimeStatus" where
  "ready im reason message = \<lparr>rs_state = READY, rs_image = Some im, rs_reason = Some reason, rs_message = Some message\<rparr>"

section \<open>The placeholder\<close>





section \<open>Docker\<close>



















section \<open>Names of snapshots in the cluster\<close>

text \<open>\<open>s.replace(old, "")\<close> and \<open>s.strip(chars)\<close>.\<close>

fun py_remove :: "string \<Rightarrow> string \<Rightarrow> string" where
  "py_remove old [] = []"
| "py_remove old (c # cs) =
     (if old \<noteq> [] \<and> prefix old (c # cs) then py_remove old (drop (length old) (c # cs)) else c # py_remove old cs)"

definition py_strip_chars :: "string \<Rightarrow> string \<Rightarrow> string" where
  "py_strip_chars chars s = rev (dropWhile (\<lambda>c. c \<in> set chars) (rev (dropWhile (\<lambda>c. c \<in> set chars) s)))"

definition nibble_value :: "char \<Rightarrow> nat option" where
  "nibble_value c =
     (if is_digit c then Some (char_code c - 48) else if CHR ''a'' \<le> c \<and> c \<le> CHR ''f'' then Some (char_code c - 87)
      else if CHR ''A'' \<le> c \<and> c \<le> CHR ''F'' then Some (char_code c - 55) else None)"

text \<open>\<open>int(s, 16)\<close>: white space around, a sign, the prefix \<open>0x\<close>, and digits that single underscores may separate.\<close>

fun hex_digits :: "nat \<Rightarrow> string \<Rightarrow> nat option" where
  "hex_digits n [] = Some n"
| "hex_digits n (c # cs) =
     (case nibble_value c of
        Some v \<Rightarrow> hex_digits (16 * n + v) cs
      | None \<Rightarrow> if c = CHR ''_'' then (case cs of d # r \<Rightarrow> (case nibble_value d of Some v \<Rightarrow> hex_digits (16 * n + v) r | None \<Rightarrow> None) | [] \<Rightarrow> None)
          else None)"

definition hex_nat :: "string \<Rightarrow> nat option" where
  "hex_nat s =
     (let body = (if py_startswith (py_lower s) ''0x'' then drop 2 s else s);
          digits = (if body \<noteq> s \<and> py_startswith body ''_'' then tl body else body)
      in case digits of [] \<Rightarrow> None | c # _ \<Rightarrow> if nibble_value c = None then None else hex_digits 0 digits)"

definition py_int16 :: "string \<Rightarrow> int option" where
  "py_int16 s =
     (case py_strip s of
        [] \<Rightarrow> None
      | c # cs \<Rightarrow>
          if c = CHR ''-'' then map_option (\<lambda>n. - int n) (hex_nat cs)
          else if c = CHR ''+'' then map_option int (hex_nat cs)
          else map_option int (hex_nat (c # cs)))"

fun hex_padded :: "nat \<Rightarrow> nat \<Rightarrow> string" where
  "hex_padded 0 n = []"
| "hex_padded (Suc k) n = hex_padded k (n div 16) @ [nibble (n mod 16)]"

text \<open>\<open>UUID(value).hex\<close>; \<open>None\<close> is its \<open>ValueError\<close>.\<close>

definition uuid_hex :: "string \<Rightarrow> string option" where
  "uuid_hex s =
     (let h = py_remove ''-'' (py_strip_chars ''{}'' (py_remove ''uuid:'' (py_remove ''urn:'' s)))
      in if length h \<noteq> 32 then None
         else case py_int16 h of
                None \<Rightarrow> None
              | Some n \<Rightarrow> if \<not> (0 \<le> n \<and> n < 2 ^ 128) then None else Some (hex_padded 32 (nat n)))"

definition stable_hex :: "string \<Rightarrow> string" where
  "stable_hex value = (case uuid_hex value of Some h \<Rightarrow> h | None \<Rightarrow> take 32 (bytes_hex (sha256 (utf8 value))))"

definition build_public_snapshot_name :: "string \<Rightarrow> string" where
  "build_public_snapshot_name i = ''osb-snap-'' @ stable_hex i"

definition build_public_snapshot_tag :: "string \<Rightarrow> string" where
  "build_public_snapshot_tag i = ''snap-'' @ stable_hex i"

section \<open>Kubernetes\<close>

text \<open>
  A \<open>SandboxSnapshot\<close> as the cluster returns it, with the types of its schema: a string that is absent or null is
  \<open>None\<close>, as \<open>dict.get\<close> gives it; for the objects \<open>spec\<close> and \<open>status\<close> an absent one is the empty dictionary, and on
  a null \<open>.get\<close> raises.
\<close>

datatype 'a field = Missing | Null | Value 'a

record ContainerStatus =
  ct_containerName :: "string option"
  ct_imageUri :: "string option"

record Condition =
  cd_type :: "string option"
  cd_status :: "string option"
  cd_reason :: "string option"
  cd_message :: "string option"

record SnapshotCRStatus =
  crs_phase :: "string option"
  crs_format :: "string option"
  crs_containers :: "ContainerStatus list option"
  crs_conditions :: "Condition list option"

record SnapshotCR =
  cr_sandboxName :: "string option field"
  cr_status :: "SnapshotCRStatus field"

text \<open>The body of a new one.\<close>

record SnapshotBody =
  body_apiVersion :: string
  body_kind :: string
  body_name :: string
  body_namespace :: string
  body_labels :: "(string \<times> string) list"
  body_sandboxName :: string


definition null_error :: exn where
  "null_error = OtherException ''AttributeError: NoneType object has no attribute get''"

definition select_restore_image :: "ContainerStatus list \<Rightarrow> SnapshotRuntimeStatus" where
  "select_restore_image containers =
     (if containers = []
      then failed ''snapshot_runtime_missing_image'' ''Kubernetes SandboxSnapshot succeeded without container image status.''
      else let main = filter (\<lambda>c. ct_containerName c = Some ''sandbox'') containers; found = (\<lambda>im. \<lparr>rs_state = READY, rs_image = im, rs_reason = None, rs_message = None\<rparr>)
        in if main \<noteq> [] \<and> truthy (ct_imageUri (hd main)) then found (ct_imageUri (hd main))
           else if length containers = 1 \<and> truthy (ct_imageUri (hd containers)) then found (ct_imageUri (hd containers))
           else failed ''snapshot_restore_image_ambiguous''
                  ''Kubernetes SandboxSnapshot did not identify a single restorable sandbox container image.'')"

definition or_default :: "string option \<Rightarrow> string \<Rightarrow> string" where
  "or_default v d = (if truthy v then the v else d)"

definition failure_reason_and_message :: "SnapshotCRStatus \<Rightarrow> string \<times> string" where
  "failure_reason_and_message status =
     (case List.find (\<lambda>c. cd_type c = Some ''Failed'' \<and> cd_status c = Some ''True'') (case crs_conditions status of None \<Rightarrow> [] | Some cs \<Rightarrow> cs) of
        Some c \<Rightarrow> (or_default (cd_reason c) ''snapshot_runtime_failed'', or_default (cd_message c) ''Kubernetes snapshot creation failed.'')
      | None \<Rightarrow> (''snapshot_runtime_failed'', ''Kubernetes snapshot creation failed.''))"

definition snapshot_status_from_cr :: "SnapshotCR \<Rightarrow> SnapshotRuntimeStatus result" where
  "snapshot_status_from_cr snapshot =
     (case cr_status snapshot of
        Null \<Rightarrow> Inl null_error
      | Missing \<Rightarrow> Inr \<lparr>rs_state = CREATING, rs_image = None, rs_reason = Some ''snapshot_runtime_in_progress'',
                        rs_message = Some ''Kubernetes SandboxSnapshot phase is Pending.''\<rparr>
      | Value status \<Rightarrow>
          if crs_phase status = Some ''Succeed''
          then if crs_format status = Some ''qemu-v1''
               then Inr (failed ''snapshot_restore_qemu_not_supported''
                      (''QEMU VMState restore is currently supported only by BatchSandbox pause/resume; the public snapshot API does '' @
                       ''not yet persist the complete Pod template restore plan.''))
               else let image_status = select_restore_image (case crs_containers status of None \<Rightarrow> [] | Some cs \<Rightarrow> cs)
                 in if rs_state image_status = FAILED then Inr image_status
                    else Inr \<lparr>rs_state = READY, rs_image = rs_image image_status, rs_reason = Some ''snapshot_runtime_ready'',
                              rs_message = Some ''Kubernetes snapshot image created successfully.''\<rparr>
          else if crs_phase status = Some ''Failed''
          then (case failure_reason_and_message status of (reason, message) \<Rightarrow> Inr (failed reason message))
          else Inr \<lparr>rs_state = CREATING, rs_image = None, rs_reason = Some ''snapshot_runtime_in_progress'',
                    rs_message = Some (''Kubernetes SandboxSnapshot phase is '' @ or_default (crs_phase status) ''Pending'' @ ''.'')\<rparr>)"


text \<open>The runtime keeps the namespace of each snapshot that it created; the rest of the state belongs to its interfaces.\<close>

type_synonym 't kstate = "(string \<times> string) list \<times> 't"

record 't KubernetesSnapshotRuntime =
  kr_create_object :: "string \<Rightarrow> SnapshotBody \<Rightarrow> ('t, unit) M"
  kr_get_object :: "string \<Rightarrow> string \<Rightarrow> ('t, SnapshotCR option) M"
  kr_delete_object :: "string \<Rightarrow> string \<Rightarrow> ('t, unit) M"
  kr_monotonic :: "'t \<Rightarrow> rat \<times> 't"
  kr_sleep :: "rat \<Rightarrow> 't \<Rightarrow> 't"
  kr_namespace :: string
  kr_wait_timeout :: rat
  kr_poll_interval :: rat

definition on_objects :: "('t, 'a) M \<Rightarrow> ('t kstate, 'a) M" where
  "on_objects m s = (case m (snd s) of (x, t) \<Rightarrow> (x, fst s, t))"


definition get_snapshot_cr :: "'t KubernetesSnapshotRuntime \<Rightarrow> string \<Rightarrow> string option \<Rightarrow> ('t kstate, SnapshotCR option) M" where
  "get_snapshot_cr kr snapshot_name ns =
     on_objects (kr_get_object kr (case ns of Some n \<Rightarrow> n | None \<Rightarrow> kr_namespace kr) snapshot_name)"

definition k8s_inspect_snapshot ::
  "'t KubernetesSnapshotRuntime \<Rightarrow> (exn \<Rightarrow> string) \<Rightarrow> string \<Rightarrow> string option \<Rightarrow> string option \<Rightarrow> ('t kstate, SnapshotRuntimeStatus) M" where
  "k8s_inspect_snapshot kr str_exn i im ns =
     (let snapshot_name = build_public_snapshot_name i
      in bindM (getM fst) (\<lambda>namespaces.
         bindM (exceptM (bindM (get_snapshot_cr kr snapshot_name (if truthy ns then ns else map_of namespaces i)) (\<lambda>cr. returnM (Inr cr)))
                  (\<lambda>e. returnM (Inl e)))
           (\<lambda>found. case found of
              Inl e \<Rightarrow> returnM \<lparr>rs_state = CREATING, rs_image = None, rs_reason = Some ''snapshot_runtime_inspect_failed'',
                        rs_message = Some (''Failed to inspect Kubernetes SandboxSnapshot '' @ snapshot_name @ '': '' @ str_exn e)\<rparr>
            | Inr None \<Rightarrow> returnM (failed ''snapshot_recovery_missing_snapshot'' (''Kubernetes SandboxSnapshot '' @ snapshot_name @ '' was not found.''))
            | Inr (Some cr) \<Rightarrow> liftE (snapshot_status_from_cr cr))))"

text \<open>The polling loop runs on fuel; \<open>None\<close> says that it was used up.\<close>

definition monotonic :: "'t KubernetesSnapshotRuntime \<Rightarrow> ('t kstate, rat) M" where
  "monotonic kr = on_objects (\<lambda>t. case kr_monotonic kr t of (now, t') \<Rightarrow> (Inr now, t'))"

definition sleep :: "'t KubernetesSnapshotRuntime \<Rightarrow> rat \<Rightarrow> ('t kstate, unit) M" where
  "sleep kr d = on_objects (\<lambda>t. (Inr (), kr_sleep kr d t))"




definition k8s_get_snapshot_status ::
  "'t KubernetesSnapshotRuntime \<Rightarrow> (exn \<Rightarrow> string) \<Rightarrow> string \<Rightarrow> ('t kstate, SnapshotRuntimeStatus) M" where
  "k8s_get_snapshot_status kr str_exn i = bindM (getM fst) (\<lambda>namespaces. k8s_inspect_snapshot kr str_exn i None (map_of namespaces i))"




section \<open>The selection of a runtime\<close>

datatype runtime_choice = UseDocker | UseKubernetes string

definition create_snapshot_runtime :: "string \<Rightarrow> bool \<Rightarrow> string option \<Rightarrow> runtime_choice result" where
  "create_snapshot_runtime runtime_type has_docker_client k8s_namespace =
     (let t = py_lower runtime_type
      in if t = ''docker''
         then if \<not> has_docker_client
              then Inl (ValueError (''docker_client is required when runtime.type = '' @ [CHR 0x27] @ ''docker'' @ [CHR 0x27] @ ''.''))
              else Inr UseDocker
         else if t = ''kubernetes'' then Inr (UseKubernetes (or_default k8s_namespace ''default''))
         else Inl (ValueError (''Unsupported snapshot runtime type: '' @ t)))"

section \<open>Runtimes settle\<close>

definition terminal_status :: "SnapshotRuntimeStatus \<Rightarrow> bool" where
  "terminal_status st \<longleftrightarrow> rs_state st \<in> {READY, FAILED} \<and> (rs_state st = READY \<longrightarrow> truthy (rs_image st))"

lemma terminal_failed [simp]: "terminal_status (failed r m)" and state_failed [simp]: "rs_state (failed r m) = FAILED"
  by (simp_all add: failed_def terminal_status_def)

lemma terminal_ready [simp]: "im \<noteq> [] \<Longrightarrow> terminal_status (ready im r m)" and state_ready [simp]: "rs_state (ready im r m) = READY"
  by (simp_all add: ready_def terminal_status_def)







lemma wp_on_objects [wp_simps]: "wp (on_objects m) Q E s = wp m (\<lambda>a t. Q a (fst s, t)) (\<lambda>e t. E e (fst s, t)) (snd s)"
  by (simp add: wp_def on_objects_def split: prod.splits sum.splits)

lemma wp_monotonic [wp_simps]: "wp (monotonic kr) Q E s = (case kr_monotonic kr (snd s) of (t, w) \<Rightarrow> Q t (fst s, w))"
  by (simp add: monotonic_def wp_simps) (simp add: wp_def split: prod.splits)

lemma wp_sleep [wp_simps]: "wp (sleep kr d) Q E s = Q () (fst s, kr_sleep kr d (snd s))"
  by (simp add: sleep_def wp_simps) (simp add: wp_def)













section \<open>Workers on the runtimes\<close>





end
