(* ===== verification/Snapshot_Runs.thy ===== *)
theory Snapshot_Runs
  imports Snapshot_Safety Snapshot_Tenants Snapshot_Runtimes
begin

text \<open>Concrete runs of the snapshot service.\<close>

section \<open>A run\<close>

text \<open>A schedule of the system in which the interfaces answer one way.\<close>

definition demo_time :: UtcTime where
  "demo_time = \<lparr>dt_year = 2026, dt_month = 2, dt_day = 28, dt_hour = 23, dt_minute = 59, dt_second = 7, dt_microsecond = 40\<rparr>"

definition demo_status :: SnapshotRuntimeStatus where
  "demo_status = \<lparr>rs_state = READY, rs_image = Some ''img'', rs_reason = None, rs_message = None\<rparr>"

abbreviation demo_rt :: "SnapshotRuntimeStatus option result \<Rightarrow> bool" where
  "demo_rt x \<equiv> x = Inr (Some demo_status)"

fun demo_call :: "Table \<Rightarrow> string set \<Rightarrow> 'a prog \<Rightarrow> (Table \<times> string set \<times> 'a prog \<times> SnapshotRecord list) option" where
  "demo_call tbl born (RepoCreate r k) =
     (case repo_create r tbl of
        (Inr _, tbl') \<Rightarrow> if sn_id r \<in> born then None else Some (tbl', insert (sn_id r) born, k (Inr ()), [])
      | _ \<Rightarrow> None)"
| "demo_call tbl born (RepoGet i k) = Some (tbl, born, k (repo_get i tbl), [])"
| "demo_call tbl born (RepoUpdateIf r st k) = (case repo_update_if_state r st tbl of (b, tbl') \<Rightarrow> Some (tbl', born, k (Inr b), []))"
| "demo_call tbl born (RepoDelete i k) = Some (repo_delete i tbl, born, k (Inr ()), [])"
| "demo_call tbl born (RtSupports k) = Some (tbl, born, k (Inr True), [])"
| "demo_call tbl born (RtCreate i sb ns k) = Some (tbl, born, k (Inr (Some demo_status)), [])"
| "demo_call tbl born (RtDelete i im ns k) = Some (tbl, born, k (Inr ()), [])"
| "demo_call tbl born (GetSandbox i k) = Some (tbl, born, k (Inr (ObjectSandbox (Some (ObjectStatus (Some ''Running''))))), [])"
| "demo_call tbl born (Now k) = Some (tbl, born, k demo_time, [])"
| "demo_call tbl born (Uuid4 k) = Some (tbl, born, k ''u'', [])"
| "demo_call tbl born (Submit r k) = Some (tbl, born, k (Inr ()), [r])"
| "demo_call tbl born _ = None"

lemma demo_time_valid [simp]: "valid_utc demo_time"
  by (simp add: demo_time_def valid_utc_def days_in_month_def is_leap_def)

lemma demo_call_step: "demo_call tbl born m = Some c \<Longrightarrow> call_step demo_rt (tbl, born, m) c"
  by (induction tbl born m rule: demo_call.induct)
     (auto intro: call_step.intros split: prod.splits sum.splits if_splits)

definition demo_run :: "nat \<Rightarrow> Sys \<Rightarrow> Sys" where
  "demo_run n S =
     (case sys_threads S ! n of (t, m) \<Rightarrow>
        (case demo_call (sys_table S) (sys_born S) m of
           None \<Rightarrow> S
         | Some (tbl', born', m', new) \<Rightarrow>
             \<lparr>sys_table = tbl', sys_born = born',
              sys_threads = take n (sys_threads S) @ (t, m') # drop (Suc n) (sys_threads S) @
                map (\<lambda>r. (Worker r, create_snapshot_worker (\<lambda>_. []) r)) new\<rparr>))"

lemma demo_run_step:
  assumes "n < length (sys_threads S)"
  shows "demo_run n S = S \<or> sys_step demo_rt (\<lambda>_. []) S (demo_run n S)"
proof (cases "sys_threads S ! n")
  case (Pair t m)
  with assms have S: "sys_threads S = take n (sys_threads S) @ (t, m) # drop (Suc n) (sys_threads S)"
    by (metis id_take_nth_drop)
  show ?thesis
  proof (cases "demo_call (sys_table S) (sys_born S) m")
    case None
    then show ?thesis by (simp add: demo_run_def Pair)
  next
    case (Some c)
    obtain tbl' born' m' new where c: "c = (tbl', born', m', new)" by (cases c) auto
    from sys_step.run [OF S, of demo_rt tbl' born' m' new "\<lambda>_. []"] demo_call_step [OF Some] show ?thesis
      by (simp add: demo_run_def Pair Some c)
  qed
qed

definition demo_start :: Sys where
  "demo_start = \<lparr>sys_table = [], sys_born = {}, sys_threads = [(Request, void (create_snapshot (Some ''n'') ''s'' None))]\<rparr>"

lemma demo_start_reachable: "sys_reachable demo_rt (\<lambda>_. []) demo_start"
proof -
  have "idle_sys \<lparr>sys_table = [], sys_born = {}, sys_threads = []\<rparr>"
    by (simp add: idle_sys_def table_inv_def table_ok_def wf_records_def stored_def repo_get_def)
  from sys_reachable.step [OF sys_reachable.init [OF this] sys_step.arrive [OF request.intros(1)]]
  show ?thesis by (simp add: demo_start_def)
qed

lemma demo_run_threads: "n < length (sys_threads S) \<Longrightarrow> length (sys_threads S) \<le> length (sys_threads (demo_run n S))"
  by (auto simp: demo_run_def split: prod.splits option.splits)

lemma demo_runs_reachable:
  "sys_reachable demo_rt (\<lambda>_. []) S \<Longrightarrow> \<forall>n\<in>set ns. n < length (sys_threads S) \<Longrightarrow>
     sys_reachable demo_rt (\<lambda>_. []) (fold demo_run ns S)"
proof (induction ns arbitrary: S)
  case (Cons n ns)
  then have "sys_reachable demo_rt (\<lambda>_. []) (demo_run n S)"
    using demo_run_step [of n S] sys_reachable.step by (metis list.set_intros(1))
  moreover have "\<forall>i\<in>set ns. i < length (sys_threads (demo_run n S))"
    using Cons.prems(2) demo_run_threads [of n S] by fastforce
  ultimately show ?case using Cons.IH by simp
qed simp

definition demo_record :: SnapshotRecord where
  "demo_record = \<lparr>sn_id = ''u'', sn_source_sandbox_id = ''s'', sn_namespace = Some ''n'', sn_name = None, sn_description = None,
     sn_restore_config = \<lparr>rc_image = None\<rparr>,
     sn_status = \<lparr>ss_state = CREATING, ss_reason = Some ''snapshot_accepted'', ss_message = Some ''Snapshot creation accepted.'',
                  ss_last_transition_at = Some demo_time\<rparr>,
     sn_created_at = demo_time, sn_updated_at = demo_time\<rparr>"

lemma demo_record_valid [simp]: "row_to_record (to_db_tuple demo_record) = Inr demo_record"
  by (rule row_to_record_to_db_tuple) (simp add: valid_record_def demo_record_def)

lemmas demo_eval = demo_run_def void_def create_snapshot_def thenP_def answer_def ensure_source_sandbox_running_def
  sandbox_state_def state_of_status_def Let_def repo_create_def

text \<open>The request is accepted after six calls.\<close>

lemma demo_accepted:
  "fold demo_run [0, 0, 0, 0, 0, 0] demo_start =
     \<lparr>sys_table = [to_db_tuple demo_record], sys_born = {''u''},
      sys_threads = [(Request, Return ()), (Worker demo_record, create_snapshot_worker (\<lambda>_. []) demo_record)]\<rparr>"
  by (simp add: demo_start_def demo_eval demo_record_def)


definition demo_ready :: SnapshotRecord where
  "demo_ready = with_status (demo_record\<lparr>sn_restore_config := \<lparr>rc_image = Some ''img''\<rparr>\<rparr>) READY None None demo_time"

lemma demo_sel [simp]:
  "sn_id demo_record = ''u''" "sn_state demo_record = CREATING" "sn_id demo_ready = ''u''" "sn_state demo_ready = READY"
  "runtime_status_record demo_record demo_status demo_time = Some demo_ready" "valid_record demo_record" "valid_record demo_ready"
  by (simp_all add: demo_ready_def demo_record_def with_status_def runtime_status_record_def demo_status_def valid_record_def)

lemma demo_tables: "table_ok []" "table_ok [to_db_tuple demo_record]" "table_ok [to_db_tuple demo_ready]"
    "stored [to_db_tuple demo_record] = [''u'' \<mapsto> demo_record]" "stored [to_db_tuple demo_ready] = [''u'' \<mapsto> demo_ready]" "stored [] = Map.empty"
proof -
  have wf: "wf_records []" "wf_records [demo_record]" "wf_records [demo_ready]" by (simp_all add: wf_records_def)
  show "table_ok []" "table_ok [to_db_tuple demo_record]" "table_ok [to_db_tuple demo_ready]"
    unfolding table_ok_def using wf by (metis list.map)+
  show "stored [to_db_tuple demo_record] = [''u'' \<mapsto> demo_record]" "stored [to_db_tuple demo_ready] = [''u'' \<mapsto> demo_ready]" "stored [] = Map.empty"
    using find_record [OF wf(1)] find_record [OF wf(2)] find_record [OF wf(3)] by (auto simp: stored_def fun_eq_iff)
qed

text \<open>The worker asks the runtime and the repository, and writes the outcome.\<close>

lemma demo_settled:
  "fold demo_run [0, 0, 0, 0, 0, 0, 1, 1, 1] demo_start =
     \<lparr>sys_table = [to_db_tuple demo_record], sys_born = {''u''},
      sys_threads = [(Request, Return ()), (Worker demo_record, RepoUpdateIf demo_ready CREATING (\<lambda>x. bindP (answer x) (\<lambda>_. Return ())))]\<rparr>"
  "fold demo_run [0, 0, 0, 0, 0, 0, 1, 1, 1, 1] demo_start =
     \<lparr>sys_table = [to_db_tuple demo_ready], sys_born = {''u''}, sys_threads = [(Request, Return ()), (Worker demo_record, Return ())]\<rparr>"
proof -
  have split: "[0, 0, 0, 0, 0, 0, 1, 1, 1] = [0, 0, 0, 0, 0, 0] @ [1, 1, 1 :: nat]"
    "[0, 0, 0, 0, 0, 0, 1, 1, 1, 1] = [0, 0, 0, 0, 0, 0, 1, 1, 1] @ [1 :: nat]" by simp_all
  have get: "repo_get ''u'' [to_db_tuple demo_record] = Inr (Some demo_record)"
    using repo_get_stored [OF demo_tables(2)] demo_tables(4) by simp
  show one: "fold demo_run [0, 0, 0, 0, 0, 0, 1, 1, 1] demo_start =
     \<lparr>sys_table = [to_db_tuple demo_record], sys_born = {''u''},
      sys_threads = [(Request, Return ()), (Worker demo_record, RepoUpdateIf demo_ready CREATING (\<lambda>x. bindP (answer x) (\<lambda>_. Return ())))]\<rparr>"
    unfolding split fold_append o_apply demo_accepted
    by (simp add: demo_run_def create_snapshot_worker_def answer_def complete_snapshot_def build_runtime_status_record_def get)
  show "fold demo_run [0, 0, 0, 0, 0, 0, 1, 1, 1, 1] demo_start =
     \<lparr>sys_table = [to_db_tuple demo_ready], sys_born = {''u''}, sys_threads = [(Request, Return ()), (Worker demo_record, Return ())]\<rparr>"
    unfolding split(2) fold_append o_apply one by (simp add: demo_run_def repo_update_if_state_def answer_def)
qed

lemma demo_states:
  "sys_reachable demo_rt (\<lambda>_. []) (fold demo_run [0, 0, 0, 0, 0, 0, 1, 1, 1] demo_start)"
  "sys_reachable demo_rt (\<lambda>_. []) (fold demo_run [0, 0, 0, 0, 0, 0, 1, 1, 1, 1] demo_start)"
proof -
  have start: "sys_reachable demo_rt (\<lambda>_. []) (fold demo_run [0, 0, 0, 0, 0, 0] demo_start)"
    by (rule demo_runs_reachable [OF demo_start_reachable]) (simp add: demo_start_def)
  have "sys_reachable demo_rt (\<lambda>_. []) (fold demo_run ns (fold demo_run [0, 0, 0, 0, 0, 0] demo_start))" if "set ns = {1}" for ns
    by (rule demo_runs_reachable [OF start]) (unfold demo_accepted that, simp)
  from this [of "[1, 1, 1]"] this [of "[1, 1, 1, 1]"]
  show "sys_reachable demo_rt (\<lambda>_. []) (fold demo_run [0, 0, 0, 0, 0, 0, 1, 1, 1] demo_start)"
    "sys_reachable demo_rt (\<lambda>_. []) (fold demo_run [0, 0, 0, 0, 0, 0, 1, 1, 1, 1] demo_start)" by simp_all
qed

theorem snapshots_follow_the_life_cycle_witness:
  "\<exists>S S'. sys_step demo_rt (\<lambda>_. []) S S' \<and> stored (sys_table S) ''u'' = Some demo_record \<and> stored (sys_table S') ''u'' = Some demo_ready \<and>
     lifecycle_step (stored (sys_table S) ''u'') (stored (sys_table S') ''u'')"
proof -
  let ?S = "fold demo_run [0, 0, 0, 0, 0, 0, 1, 1, 1] demo_start" and ?S' = "fold demo_run [0, 0, 0, 0, 0, 0, 1, 1, 1, 1] demo_start"
  have S: "sys_reachable demo_rt (\<lambda>_. []) ?S" by (rule demo_states(1))
  have "demo_run 1 ?S = ?S'" by simp
  moreover have "sys_table ?S \<noteq> sys_table ?S'"
    unfolding demo_settled by (simp add: to_db_tuple_def)
  ultimately have step: "sys_step demo_rt (\<lambda>_. []) ?S ?S'"
    using demo_run_step [of 1 ?S] demo_settled(1) by fastforce
  moreover have "stored (sys_table ?S) ''u'' = Some demo_record" "stored (sys_table ?S') ''u'' = Some demo_ready"
    unfolding demo_settled by (simp_all add: demo_tables)
  ultimately show ?thesis using snapshots_follow_the_life_cycle [OF S step, of "''u''"] by blast
qed


theorem snapshot_rows_are_well_typed_witness:
  "\<exists>(S :: Sys) row r. row \<in> set (sys_table S) \<and> row_to_record row = Inr r \<and> to_db_tuple r = row \<and> sn_state r = READY \<and> truthy (sn_image r)"
proof -
  let ?S = "fold demo_run [0, 0, 0, 0, 0, 0, 1, 1, 1, 1] demo_start"
  have row: "to_db_tuple demo_ready \<in> set (sys_table ?S)" unfolding demo_settled by simp
  from snapshot_rows_are_well_typed [OF demo_states(2) row] obtain r where
    r: "row_to_record (to_db_tuple demo_ready) = Inr r" "to_db_tuple r = to_db_tuple demo_ready"
      "sn_state r = READY \<longrightarrow> truthy (sn_image r)" by blast
  have "r = demo_ready" using r(1) row_to_record_to_db_tuple [of demo_ready] by simp
  with r row demo_sel(4) show ?thesis by blast
qed

theorem workers_settle_their_snapshots_witness:
  "\<exists>S :: Sys. (Worker demo_record, Return ()) \<in> set (sys_threads S) \<and> sn_state demo_record = CREATING \<and>
     map_option sn_state (stored (sys_table S) (sn_id demo_record)) \<noteq> Some CREATING"
proof -
  let ?S = "fold demo_run [0, 0, 0, 0, 0, 0, 1, 1, 1, 1] demo_start"
  have th: "(Worker demo_record, Return ()) \<in> set (sys_threads ?S)" unfolding demo_settled by simp
  have "rs_state status \<in> {READY, FAILED}" if "demo_rt (Inr (Some status))" for status
    using that by (simp add: demo_status_def)
  from workers_settle_their_snapshots [OF demo_states(2) th this, of ?S]
  have "map_option sn_state (stored (sys_table ?S) (sn_id demo_record)) \<noteq> Some CREATING" by blast
  with th demo_sel(2) show ?thesis by blast
qed

theorem snapshot_rows_roundtrip_witness:
  "repo_get ''u'' (snd (repo_create demo_record [])) = Inr (Some demo_record) \<and>
   repo_get ''u'' (snd (repo_update_if_state demo_ready CREATING [to_db_tuple demo_record])) = Inr (Some demo_ready)"
  using snapshot_rows_roundtrip [of "[]" demo_record "''u''" CREATING "''u''"]
    snapshot_rows_roundtrip [of "[to_db_tuple demo_record]" demo_ready "''u''" CREATING "''u''"]
  by (simp add: demo_tables)


section \<open>A runtime that answers one way\<close>

definition demo_env :: "unit SnapshotEnv" where
  "demo_env = \<lparr>se_supports = Pair (Inr True), se_unsupported = Pair (Inr []), se_create = (\<lambda>_ _ _. Pair (Inr (Some demo_status))),
     se_inspect = (\<lambda>_ _ _. Pair (Inr demo_status)), se_delete = (\<lambda>_ _ _. Pair (Inr ())),
     se_sandbox = (\<lambda>_. Pair (Inr (ObjectSandbox (Some (ObjectStatus (Some ''Running'')))))),
     se_now = Pair demo_time, se_uuid = Pair ''u'', se_submit = (\<lambda>_. Pair (Inr ()))\<rparr>"

lemma demo_env_decisive: "decisive_env demo_env"
  by (simp add: decisive_env_def demo_env_def demo_status_def)

theorem recovery_ends_witness:
  "unfinished [to_db_tuple demo_record] = {''u''} \<and>
   (\<exists>tbl. exec demo_env (recover_unfinished_snapshots (\<lambda>_. []) 2) ([to_db_tuple demo_record], ()) = (Inr (Some ()), tbl, ()) \<and> unfinished tbl = {})"
proof -
  have u: "unfinished [to_db_tuple demo_record] = {''u''}" by (auto simp: unfinished_def demo_tables)
  then have "card (unfinished [to_db_tuple demo_record]) < 2" by simp
  from recovery_ends [OF decisive_is_sane [OF demo_env_decisive] demo_tables(2) this, of "\<lambda>_. []" "()"] demo_env_decisive u
  show ?thesis by (auto split: prod.splits)
qed

theorem tenants_are_isolated_witness:
  "fst (exec demo_env (delete_snapshot (Some ''m'') ''u'') ([to_db_tuple demo_ready], ())) =
     fst (exec demo_env (delete_snapshot (Some ''m'') ''u'') ([], ())) \<and>
   fst (snd (exec demo_env (delete_snapshot (Some ''m'') ''u'') ([to_db_tuple demo_ready], ()))) = [to_db_tuple demo_ready]"
proof -
  have v: "view ''m'' [to_db_tuple demo_ready] = []" "foreign ''m'' [to_db_tuple demo_ready] = [to_db_tuple demo_ready]"
    by (simp_all add: view_def foreign_def demo_ready_def demo_record_def with_status_def)
  have own: "foreign ''m'' tbl = tbl" if "view ''m'' tbl = []" for tbl using that by (induction tbl) (auto simp: view_def foreign_def split: if_splits)
  have "confined ''m'' demo_env (delete_snapshot (Some ''m'') ''u'') [to_db_tuple demo_ready] ()"
    using tenants_are_isolated [OF demo_tables(3), of "''m''" demo_env "''u''" "()"] by blast
  moreover have "exec demo_env (delete_snapshot (Some ''m'') ''u'') ([], ()) = (Inl (not_found ''u''), [], ())"
    by (simp add: delete_snapshot_def exec_simps repo_get_def)
  ultimately show ?thesis unfolding confined_def v using own by (auto split: prod.splits)
qed





end
