(* ===== verification/Route_Signing.thy ===== *)
theory Route_Signing
  imports Py_Sha256
begin

text \<open>
  Signed routes of the ingress gateway: the codec of expiry times and the signature scheme (\<open>services/signing.py\<close>), the
  ring of signing keys and the configuration of the ingress (\<open>config.py\<close>), the endpoints of the gateway
  (\<open>services/helpers.py\<close>) and the handler that issues a signed endpoint (\<open>services/k8s/kubernetes_service.py\<close>).
\<close>

section \<open>Expiry times in base 36\<close>

definition BASE36_CHARS :: string where
  "BASE36_CHARS = ''0123456789abcdefghijklmnopqrstuvwxyz''"

definition MAX_EXPIRES_B36_LEN :: nat where
  "MAX_EXPIRES_B36_LEN = 13"

definition MAX_UINT64 :: int where
  "MAX_UINT64 = 2 ^ 64 - 1"

text \<open>The loop of the encoder: the digits are appended from the least significant on.\<close>

fun b36_chars :: "nat \<Rightarrow> string" where
  "b36_chars n = (if n = 0 then [] else BASE36_CHARS ! (n mod 36) # b36_chars (n div 36))"

declare b36_chars.simps [simp del]

definition encode_expires_b36 :: "int \<Rightarrow> string result" where
  "encode_expires_b36 expires_sec =
     (if expires_sec < 0 then Inl (ValueError (''expires_sec must be non-negative, got '' @ str_of_int expires_sec))
      else if MAX_UINT64 < expires_sec then Inl (ValueError (''expires_sec exceeds uint64 range: '' @ str_of_int expires_sec))
      else if expires_sec = 0 then Inr ''0''
      else Inr (rev (b36_chars (nat expires_sec))))"

definition is_valid_base36 :: "string \<Rightarrow> bool" where
  "is_valid_base36 s = list_all (\<lambda>c. c \<in> set BASE36_CHARS) s"

text \<open>\<open>int(s, 36)\<close> on these characters, and \<open>repr\<close> of a string or of a list of characters.\<close>

definition b36_value :: "char \<Rightarrow> nat" where
  "b36_value c = (if char_code c < 58 then char_code c - 48 else char_code c - 87)"

definition int_base36 :: "string \<Rightarrow> int" where
  "int_base36 s = foldl (\<lambda>n c. 36 * n + int (b36_value c)) 0 s"

definition repr_char :: "char \<Rightarrow> string" where
  "repr_char c =
     (let n = char_code c
      in if n = 92 then [CHR 0x5C, CHR 0x5C]
         else if n = 9 then [CHR 0x5C, CHR ''t''] else if n = 10 then [CHR 0x5C, CHR ''n''] else if n = 13 then [CHR 0x5C, CHR ''r'']
         else if n < 32 \<or> 127 \<le> n \<and> n \<le> 160 \<or> n = 173 then CHR 0x5C # ''x'' @ [nibble (n div 16), nibble (n mod 16)]
         else [c])"

definition py_repr :: "string \<Rightarrow> string" where
  "py_repr s =
     (if CHR 0x27 \<in> set s \<and> CHR 0x22 \<notin> set s then CHR 0x22 # concat (map repr_char s) @ [CHR 0x22]
      else CHR 0x27 # concat (map (\<lambda>c. if c = CHR 0x27 then [CHR 0x5C, c] else repr_char c) s) @ [CHR 0x27])"

definition decode_expires_b36 :: "string \<Rightarrow> int result" where
  "decode_expires_b36 s =
     (if s = [] then Inl (ValueError ''expires_b36 string must not be empty'')
      else if MAX_EXPIRES_B36_LEN < length s
      then Inl (ValueError (''expires_b36 string too long: '' @ str_of_int (int (length s)) @ '' > '' @ str_of_int (int MAX_EXPIRES_B36_LEN)))
      else if \<not> is_valid_base36 s
      then Inl (ValueError (''expires_b36 contains invalid characters: ['' @
             py_join '', '' (map (\<lambda>c. py_repr [c]) (filter (\<lambda>c. c \<notin> set BASE36_CHARS) s)) @ '']''))
      else if 1 < length s \<and> s ! 0 = CHR ''0'' then Inl (ValueError (''expires_b36 must not have leading zeros: '' @ py_repr s))
      else let val = int_base36 s
        in if MAX_UINT64 < val then Inl (ValueError (''expires_b36 value overflows uint64: '' @ py_repr s)) else Inr val)"

section \<open>The signature\<close>






section \<open>Signing keys\<close>











section \<open>Endpoints of the gateway\<close>









section \<open>The codec\<close>

lemma b36_table: "n < 36 \<Longrightarrow> b36_value (BASE36_CHARS ! n) = n \<and> BASE36_CHARS ! n \<in> set BASE36_CHARS"
proof -
  assume n: "n < 36"
  have "list_all (\<lambda>n. b36_value (BASE36_CHARS ! n) = n) [0..<36]" by code_simp
  with n have "b36_value (BASE36_CHARS ! n) = n" by (simp add: list_all_iff)
  moreover have "length BASE36_CHARS = 36" by (simp add: BASE36_CHARS_def)
  ultimately show ?thesis using n by (metis nth_mem)
qed

lemma b36_char: "c \<in> set BASE36_CHARS \<Longrightarrow> b36_value c < 36 \<and> BASE36_CHARS ! b36_value c = c"
proof -
  assume c: "c \<in> set BASE36_CHARS"
  have "list_all (\<lambda>c. b36_value c < 36 \<and> BASE36_CHARS ! b36_value c = c) BASE36_CHARS" by code_simp
  with c show ?thesis by (simp add: list_all_iff)
qed

primrec b36_sum :: "string \<Rightarrow> nat" where
  "b36_sum [] = 0"
| "b36_sum (c # cs) = b36_value c + 36 * b36_sum cs"

lemma int_base36_rev: "int_base36 (rev cs) = int (b36_sum cs)"
  by (induction cs) (simp_all add: int_base36_def)

lemma b36_chars_0 [simp]: "b36_chars 0 = []"
  by (simp add: b36_chars.simps)

lemma b36_chars_sum: "b36_sum (b36_chars n) = n"
proof (induction n rule: b36_chars.induct)
  case (1 n)
  show ?case
  proof (cases "n = 0")
    case False
    then have "b36_chars n = BASE36_CHARS ! (n mod 36) # b36_chars (n div 36)" by (subst b36_chars.simps) simp
    with 1 False b36_table [of "n mod 36"] show ?thesis by simp
  qed (simp add: b36_chars.simps)
qed

lemma b36_chars_valid: "list_all (\<lambda>c. c \<in> set BASE36_CHARS) (b36_chars n) \<and> (n \<noteq> 0 \<longrightarrow> last (b36_chars n) \<noteq> CHR ''0'' \<and> b36_chars n \<noteq> [])"
proof (induction n rule: b36_chars.induct)
  case (1 n)
  show ?case
  proof (cases "n = 0")
    case False
    then have eq: "b36_chars n = BASE36_CHARS ! (n mod 36) # b36_chars (n div 36)" by (subst b36_chars.simps) simp
    have m: "b36_value (BASE36_CHARS ! (n mod 36)) = n mod 36" "BASE36_CHARS ! (n mod 36) \<in> set BASE36_CHARS"
      using b36_table [of "n mod 36"] by simp_all
    show ?thesis
    proof (cases "n div 36 = 0")
      case True
      then have "n mod 36 = n" by (simp add: div_eq_0_iff)
      with m(1) False have "b36_value (BASE36_CHARS ! (n mod 36)) \<noteq> 0" by simp
      then have "BASE36_CHARS ! (n mod 36) \<noteq> CHR ''0''" by (auto simp: b36_value_def)
      moreover have "b36_chars (n div 36) = []" using True by (simp add: b36_chars.simps)
      ultimately show ?thesis using m(2) by (simp add: eq)
    next
      case div: False
      with 1 [OF False] m(2) show ?thesis by (simp add: eq)
    qed
  qed (simp add: b36_chars.simps)
qed

lemma b36_chars_length: "n < 36 ^ k \<Longrightarrow> length (b36_chars n) \<le> k"
proof (induction n arbitrary: k rule: b36_chars.induct)
  case (1 n)
  show ?case
  proof (cases "n = 0")
    case False
    with "1.prems" obtain j where k: "k = Suc j" by (cases k) auto
    then have "n div 36 < 36 ^ j" using "1.prems" by (simp add: div_less_iff_less_mult mult.commute)
    from "1.IH" [OF False this] False k show ?thesis by (subst b36_chars.simps) simp
  qed (simp add: b36_chars.simps)
qed

lemma b36_chars_of_sum:
  "list_all (\<lambda>c. c \<in> set BASE36_CHARS) cs \<Longrightarrow> cs = [] \<or> last cs \<noteq> CHR ''0'' \<Longrightarrow> b36_chars (b36_sum cs) = cs"
proof (induction cs)
  case (Cons c cs)
  have c: "b36_value c < 36" "BASE36_CHARS ! b36_value c = c" using Cons.prems(1) b36_char by simp_all
  have zero: "b36_value c \<noteq> 0 \<or> cs \<noteq> []"
  proof (cases cs)
    case Nil
    then have "c \<noteq> CHR ''0''" using Cons.prems(2) by simp
    moreover have "BASE36_CHARS ! 0 = CHR ''0''" by (simp add: BASE36_CHARS_def)
    ultimately show ?thesis using c(2) by metis
  qed simp
  have IH: "b36_chars (b36_sum cs) = cs" using Cons by (cases cs) (auto simp: b36_chars.simps)
  then have "b36_sum cs \<noteq> 0" if "cs \<noteq> []" using that b36_chars_0 by metis
  then have "b36_sum (c # cs) \<noteq> 0" using zero by auto
  then show ?case using c IH by (subst b36_chars.simps) simp
qed (simp add: b36_chars.simps)

lemma encode_decode_b36:
  assumes "0 \<le> n" and "n \<le> MAX_UINT64"
  shows "\<exists>s. encode_expires_b36 n = Inr s \<and> decode_expires_b36 s = Inr n"
proof (cases "n = 0")
  case True
  have "decode_expires_b36 ''0'' = Inr 0"
    by (simp add: decode_expires_b36_def MAX_EXPIRES_B36_LEN_def is_valid_base36_def BASE36_CHARS_def int_base36_def b36_value_def MAX_UINT64_def)
  with True show ?thesis by (simp add: encode_expires_b36_def MAX_UINT64_def)
next
  case False
  let ?cs = "b36_chars (nat n)"
  have cs: "list_all (\<lambda>c. c \<in> set BASE36_CHARS) ?cs" "last ?cs \<noteq> CHR ''0''" "?cs \<noteq> []"
    using b36_chars_valid [of "nat n"] False assms(1) by auto
  have "nat n < 36 ^ 13" using assms by (simp add: MAX_UINT64_def nat_less_iff)
  then have "length ?cs \<le> 13" by (rule b36_chars_length)
  moreover have "rev ?cs ! 0 = last ?cs" using cs(3) by (simp add: hd_rev flip: hd_conv_nth)
  moreover have "int_base36 (rev ?cs) = n" using assms(1) by (simp add: int_base36_rev b36_chars_sum)
  moreover have "is_valid_base36 (rev ?cs)" using cs(1) by (simp add: is_valid_base36_def list_all_iff)
  ultimately have "decode_expires_b36 (rev ?cs) = Inr n"
    using cs(2,3) assms(2) by (simp add: decode_expires_b36_def MAX_EXPIRES_B36_LEN_def)
  then show ?thesis using False assms by (simp add: encode_expires_b36_def)
qed

lemma decode_b36_error: "decode_expires_b36 s = Inl e \<Longrightarrow> \<exists>m. e = ValueError m"
  by (auto simp: decode_expires_b36_def Let_def split: if_splits)

lemma decode_encode_b36:
  assumes "decode_expires_b36 s = Inr k"
  shows "encode_expires_b36 k = Inr s"
proof -
  have s: "s \<noteq> []" "list_all (\<lambda>c. c \<in> set BASE36_CHARS) (rev s)" "\<not> (1 < length s \<and> s ! 0 = CHR ''0'')"
    and k: "k = int_base36 s" "k \<le> MAX_UINT64"
    using assms by (auto simp: decode_expires_b36_def is_valid_base36_def list_all_iff Let_def split: if_splits)
  have sum: "k = int (b36_sum (rev s))" using int_base36_rev [of "rev s"] k(1) by simp
  show ?thesis
  proof (cases "s ! 0 = CHR ''0''")
    case True
    with s(1,3) have "s = ''0''" by (cases s) auto
    with sum k(2) show ?thesis by (simp add: encode_expires_b36_def b36_value_def)
  next
    case False
    then have "last (rev s) \<noteq> CHR ''0''" using s(1) by (simp add: last_rev hd_conv_nth)
    then have chars: "b36_chars (b36_sum (rev s)) = rev s" by (intro b36_chars_of_sum [OF s(2)]) simp
    then have "b36_sum (rev s) \<noteq> 0" using s(1) b36_chars_0 by (metis rev_is_Nil_conv)
    with chars sum k(2) show ?thesis by (simp add: encode_expires_b36_def)
  qed
qed

text \<open>
  Claim C37. The codec of expiry times is a bijection between the 64-bit numbers and the strings that the decoder
  accepts: a number that is not one of 64 bits is refused with ValueError; the code of any other is decoded to it; and a
  string that decodes to a number is the code of that number, so that no two routes spell the same expiry.
\<close>

theorem expires_b36_roundtrip:
  "(if 0 \<le> n \<and> n \<le> MAX_UINT64 then \<exists>s. encode_expires_b36 n = Inr s \<and> decode_expires_b36 s = Inr n
    else \<exists>m. encode_expires_b36 n = Inl (ValueError m)) \<and>
   (case decode_expires_b36 s of Inr k \<Rightarrow> encode_expires_b36 k = Inr s | Inl e \<Rightarrow> \<exists>m. e = ValueError m)"
proof
  show "if 0 \<le> n \<and> n \<le> MAX_UINT64 then \<exists>s. encode_expires_b36 n = Inr s \<and> decode_expires_b36 s = Inr n
    else \<exists>m. encode_expires_b36 n = Inl (ValueError m)"
    using encode_decode_b36 [of n] by (auto simp: encode_expires_b36_def)
  show "case decode_expires_b36 s of Inr k \<Rightarrow> encode_expires_b36 k = Inr s | Inl e \<Rightarrow> \<exists>m. e = ValueError m"
    using decode_encode_b36 [of s] decode_b36_error [of s] by (simp split: sum.split)
qed


section \<open>What a signature covers\<close>




























end
