(* ===== verification/Rate_Limiter.thy ===== *)
theory Rate_Limiter
  imports Py_Float
begin

text \<open>
  The token bucket that limits the requests to the Kubernetes API (\<open>services/k8s/rate_limiter.py\<close>), with the rounding
  of its floating-point numbers. The lock makes \<open>_try_acquire\<close> one step, so that the calls of all threads are one
  sequence; the clock and the sleep are interfaces.
\<close>

record TokenBucketRateLimiter =
  tb_qps :: rat
  tb_burst :: rat
  tb_tokens :: rat
  tb_last_refill :: rat

text \<open>\<open>str_float\<close> prints a float in the message of the exception.\<close>

definition TokenBucketRateLimiter_init :: "(rat \<Rightarrow> string) \<Rightarrow> rat \<Rightarrow> rat \<Rightarrow> rat \<Rightarrow> TokenBucketRateLimiter result" where
  "TokenBucketRateLimiter_init str_float qps burst now =
     (if qps \<le> 0 then Inl (ValueError (''qps must be > 0, got '' @ str_float qps))
      else let b = max (if burst > 0 then burst else qps) 1
        in Inr \<lparr>tb_qps = qps, tb_burst = b, tb_tokens = b, tb_last_refill = now\<rparr>)"

definition refill :: "rat \<Rightarrow> TokenBucketRateLimiter \<Rightarrow> TokenBucketRateLimiter" where
  "refill now b =
     (let elapsed = fl (now - tb_last_refill b)
      in b\<lparr>tb_tokens := min (tb_burst b) (fl (tb_tokens b + fl (elapsed * tb_qps b))), tb_last_refill := now\<rparr>)"

text \<open>The seconds to wait, 0 when a token was taken.\<close>

definition try_acquire_wait :: "rat \<Rightarrow> TokenBucketRateLimiter \<Rightarrow> rat \<times> TokenBucketRateLimiter" where
  "try_acquire_wait now b0 =
     (let b = refill now b0
      in if 1 \<le> tb_tokens b then (0, b\<lparr>tb_tokens := fl (tb_tokens b - 1)\<rparr>)
         else (fl (fl (1 - tb_tokens b) / tb_qps b), b))"

definition try_acquire :: "rat \<Rightarrow> TokenBucketRateLimiter \<Rightarrow> bool \<times> TokenBucketRateLimiter" where
  "try_acquire now b = (case try_acquire_wait now b of (wait, b') \<Rightarrow> (wait \<le> 0, b'))"

text \<open>The loop of \<open>acquire\<close> runs on fuel; \<open>None\<close> says that it was used up.\<close>

record 's Clock =
  ck_monotonic :: "'s \<Rightarrow> rat \<times> 's"
  ck_sleep :: "rat \<Rightarrow> 's \<Rightarrow> 's"

fun acquire_token :: "'s Clock \<Rightarrow> nat \<Rightarrow> TokenBucketRateLimiter \<Rightarrow> 's \<Rightarrow> (TokenBucketRateLimiter \<times> 's) option" where
  "acquire_token ck 0 b s = None"
| "acquire_token ck (Suc fuel) b s =
     (let (now, s1) = ck_monotonic ck s; (wait, b1) = try_acquire_wait now b
      in if wait \<le> 0 then Some (b1, s1) else acquire_token ck fuel b1 (ck_sleep ck (max wait (fl (1 / 1000))) s1))"

section \<open>The bucket never overflows\<close>

definition bucket_ok :: "TokenBucketRateLimiter \<Rightarrow> bool" where
  "bucket_ok b \<longleftrightarrow> 0 < tb_qps b \<and> 1 \<le> tb_burst b \<and> 0 \<le> tb_tokens b \<and> tb_tokens b \<le> tb_burst b \<and>
     fl (tb_burst b) = tb_burst b"

lemma fl_one [simp]: "fl 1 = 1"
  using fl_int [of 1] by simp

lemma init_ok:
  assumes "TokenBucketRateLimiter_init str_float qps burst now = Inr b" and "fl qps = qps" and "fl burst = burst"
  shows "bucket_ok b" and "tb_last_refill b = now" and "tb_tokens b = tb_burst b" and "tb_qps b = qps"
  using assms by (auto simp: TokenBucketRateLimiter_init_def bucket_ok_def Let_def max_def split: if_splits)

lemma fl_le: "0 \<le> x \<Longrightarrow> fl x \<le> x + x / 2 ^ 53" and fl_ge: "0 \<le> x \<Longrightarrow> x - x / 2 ^ 53 \<le> fl x"
  using fl_error [of x] by linarith+

lemma fl_idem: "0 \<le> x \<Longrightarrow> fl (fl x) = fl x"
proof (cases "x = 0")
  case False
  assume "0 \<le> x"
  with False have x: "0 < x" by simp
  let ?L = "ilog2 x" and ?k = "round_half_even (x / 2 powi (ilog2 x - 52))"
  have eq: "fl x = of_int ?k * 2 powi (?L - 52)" unfolding fl_of_pos [OF x] by (simp add: fl_pos_def Let_def)
  have hi: "(2 :: rat) powi (?L + 1) = 2 ^ 53 * 2 powi (?L - 52)"
    using power_int_add [of "2::rat" "?L - 52" 53] by (simp add: add.commute mult.commute)
  have le: "fl x \<le> 2 powi (?L + 1)" "0 < fl x" using fl_pos_between [OF x] powi_pos [of ?L] fl_of_pos [OF x] by linarith+
  have "0 < ?k" using le(2) powi_pos [of "?L - 52"] unfolding eq by (metis of_int_0_less_iff zero_less_mult_pos2)
  moreover have "rat_of_int ?k \<le> 2 ^ 53" using le(1) unfolding eq hi by simp
  then have "?k \<le> 2 ^ 53" by (metis of_int_le_iff of_int_numeral of_int_power)
  ultimately consider "0 \<le> ?k" "?k < 2 ^ 53" | "?k = 2 ^ 53" by linarith
  then show ?thesis
  proof cases
    case 1
    then show ?thesis unfolding eq by (rule fl_exact)
  next
    case 2
    have "fl x = of_int 1 * 2 powi (?L + 1)" unfolding eq 2 hi by simp
    moreover have "fl (of_int 1 * 2 powi (?L + 1)) = of_int 1 * 2 powi (?L + 1)" by (rule fl_exact) simp_all
    ultimately show ?thesis by metis
  qed
qed (simp add: fl_def)

lemma fl_pos_iff: "0 \<le> x \<Longrightarrow> 0 < fl x \<longleftrightarrow> 0 < x"
  using less_le_trans [OF powi_pos fl_pos_between(1), of x] by (cases "x = 0") (simp_all add: fl_def)

text \<open>What a refill adds: the elapsed time at the rate, up to the rounding of three operations.\<close>

lemma refill_tokens:
  assumes "bucket_ok b" and "tb_last_refill b \<le> now"
  shows "tb_tokens (refill now b) \<le> tb_tokens b + (now - tb_last_refill b) * tb_qps b * (1 + 1 / 2 ^ 51) + tb_burst b / 2 ^ 52"
    and "bucket_ok (refill now b)"
proof -
  define d where "d = now - tb_last_refill b"
  define y where "y = fl (fl d * tb_qps b)"
  have d: "0 \<le> d" and q: "0 < tb_qps b" and t: "0 \<le> tb_tokens b" using assms by (simp_all add: d_def bucket_ok_def)
  have fd: "0 \<le> fl d" "fl d \<le> d * (1 + 1 / 2 ^ 53)" using fl_nonneg [OF d] fl_le [OF d] by (simp_all add: algebra_simps)
  have y0: "0 \<le> y" unfolding y_def using fd(1) q by (intro fl_nonneg) simp
  have dq: "0 \<le> d * tb_qps b" using d q by simp
  have "fl d * tb_qps b \<le> d * (1 + 1 / 2 ^ 53) * tb_qps b" using mult_right_mono [OF fd(2), of "tb_qps b"] q by simp
  then have "fl d * tb_qps b * (1 + 1 / 2 ^ 53) \<le> d * (1 + 1 / 2 ^ 53) * tb_qps b * (1 + 1 / 2 ^ 53)" by (rule mult_right_mono) simp
  moreover have "y \<le> fl d * tb_qps b * (1 + 1 / 2 ^ 53)"
    using fl_le [of "fl d * tb_qps b"] fd(1) q unfolding y_def distrib_left by simp
  ultimately have "y \<le> d * (1 + 1 / 2 ^ 53) * tb_qps b * (1 + 1 / 2 ^ 53)" by (rule order_trans [rotated])
  also have "\<dots> = d * tb_qps b * ((1 + 1 / 2 ^ 53) * (1 + 1 / 2 ^ 53))" by (simp add: algebra_simps)
  also have "\<dots> \<le> d * tb_qps b * (1 + 1 / 2 ^ 51)" by (rule mult_left_mono [OF _ dq]) simp
  finally have y: "y \<le> d * tb_qps b * (1 + 1 / 2 ^ 51)" .
  have tok: "tb_tokens (refill now b) = min (tb_burst b) (fl (tb_tokens b + y))"
    by (simp add: refill_def y_def d_def Let_def)
  have "min (tb_burst b) (fl (tb_tokens b + y)) \<le> tb_tokens b + y + tb_burst b / 2 ^ 52"
  proof (cases "tb_tokens b + y \<le> 2 * tb_burst b")
    case True
    then have "(tb_tokens b + y) / 2 ^ 53 \<le> tb_burst b / 2 ^ 52" by (simp add: divide_simps)
    then show ?thesis using fl_le [of "tb_tokens b + y"] t y0 by linarith
  next
    case False
    then show ?thesis using assms(1) by (simp add: bucket_ok_def min_le_iff_disj)
  qed
  then show "tb_tokens (refill now b) \<le> tb_tokens b + (now - tb_last_refill b) * tb_qps b * (1 + 1 / 2 ^ 51) + tb_burst b / 2 ^ 52"
    using y unfolding tok d_def by linarith
  have "0 \<le> fl (tb_tokens b + y)" using t y0 by (intro fl_nonneg) simp
  then show "bucket_ok (refill now b)" using assms(1) tok by (simp add: bucket_ok_def refill_def Let_def)
qed


section \<open>The rate\<close>

text \<open>The calls of all threads, with the clock that each of them reads, and how many get a token.\<close>

fun try_acquires :: "TokenBucketRateLimiter \<Rightarrow> rat list \<Rightarrow> nat \<times> TokenBucketRateLimiter" where
  "try_acquires b [] = (0, b)"
| "try_acquires b (now # ts) =
     (case try_acquire now b of (ok, b') \<Rightarrow> (case try_acquires b' ts of (n, b'') \<Rightarrow> ((if ok then Suc n else n), b'')))"

lemma try_acquire_cases:
  assumes "bucket_ok b" and "tb_last_refill b \<le> now"
  obtains (granted) b' where "try_acquire now b = (True, b')" "1 \<le> tb_tokens (refill now b)" "b' = (refill now b)\<lparr>tb_tokens := fl (tb_tokens (refill now b) - 1)\<rparr>"
  | (refused) "try_acquire now b = (False, refill now b)" "tb_tokens (refill now b) < 1"
proof (cases "1 \<le> tb_tokens (refill now b)")
  case True
  then show thesis by (intro granted) (simp_all add: try_acquire_def try_acquire_wait_def Let_def)
next
  case False
  define t where "t = tb_tokens (refill now b)"
  have "0 < tb_qps (refill now b)" using refill_tokens(2) [OF assms] by (simp add: bucket_ok_def)
  moreover have "0 < fl (1 - t)" using False fl_pos_iff [of "1 - t"] by (simp add: t_def)
  ultimately have "0 < fl (fl (1 - t) / tb_qps (refill now b))" using fl_pos_iff [of "fl (1 - t) / tb_qps (refill now b)"] by simp
  with False show thesis by (intro refused) (simp_all add: try_acquire_def try_acquire_wait_def Let_def t_def)
qed

lemma try_acquire_ok:
  assumes "bucket_ok b" and "tb_last_refill b \<le> now" and "try_acquire now b = (ok, b')"
  shows "bucket_ok b'" and "tb_last_refill b' = now" and "tb_qps b' = tb_qps b" and "tb_burst b' = tb_burst b"
    and "tb_tokens b' + (if ok then 1 else 0) \<le> tb_tokens b + (now - tb_last_refill b) * tb_qps b * (1 + 1 / 2 ^ 51) + tb_burst b / 2 ^ 51"
proof -
  let ?r = "refill now b"
  have sums: "f + 1 \<le> a + x + (h + h)" if "y \<le> a + x + h" "f \<le> y - 1 + g" "g \<le> h" for a f g h x y :: rat using that by linarith
  note r = refill_tokens [OF assms(1,2)]
  have same: "tb_last_refill ?r = now" "tb_qps ?r = tb_qps b" "tb_burst ?r = tb_burst b" by (simp_all add: refill_def Let_def)
  have r3: "1 \<le> tb_burst b" "tb_tokens ?r \<le> tb_burst b" "0 \<le> tb_tokens ?r" using r(2) same by (simp_all add: bucket_ok_def)
  have b4: "tb_burst b / 2 ^ 51 = tb_burst b / 2 ^ 52 + tb_burst b / 2 ^ 52" by simp
  have b0: "0 \<le> tb_burst b / 2 ^ 52" using r3(1) by simp
  have "bucket_ok b' \<and> tb_last_refill b' = now \<and> tb_qps b' = tb_qps b \<and> tb_burst b' = tb_burst b \<and>
      tb_tokens b' + (if ok then 1 else 0) \<le> tb_tokens b + (now - tb_last_refill b) * tb_qps b * (1 + 1 / 2 ^ 51) + tb_burst b / 2 ^ 51"
  proof (rule try_acquire_cases [OF assms(1,2)])
    fix b1
    assume 1: "try_acquire now b = (True, b1)" "1 \<le> tb_tokens ?r" "b1 = ?r\<lparr>tb_tokens := fl (tb_tokens ?r - 1)\<rparr>"
    have f: "0 \<le> fl (tb_tokens ?r - 1)" "fl (tb_tokens ?r - 1) \<le> tb_tokens ?r - 1 + (tb_tokens ?r - 1) / 2 ^ 53"
      using fl_nonneg [of "tb_tokens ?r - 1"] fl_le [of "tb_tokens ?r - 1"] 1(2) by simp_all
    have e: "(tb_tokens ?r - 1) / 2 ^ 53 \<le> tb_burst b / 2 ^ 52" using r3 1(2) by (simp add: divide_simps)
    have "fl (tb_tokens ?r - 1) \<le> fl (tb_burst b)" using 1(2) r3(2) by (intro fl_mono_nonneg) simp_all
    moreover have burst: "fl (tb_burst b) = tb_burst b" using assms(1) by (simp add: bucket_ok_def)
    ultimately have "bucket_ok b1" using 1(3) r(2) same f(1) by (simp add: bucket_ok_def)
    moreover have "tb_tokens b1 + 1 \<le> tb_tokens b + (now - tb_last_refill b) * tb_qps b * (1 + 1 / 2 ^ 51) + tb_burst b / 2 ^ 51"
      unfolding b4 1(3) using sums [OF r(1) f(2) e] by simp
    ultimately show ?thesis using 1 assms(3) same by simp
  next
    assume 2: "try_acquire now b = (False, ?r)" "tb_tokens ?r < 1"
    then show ?thesis using assms(3) r same b4 b0 by simp
  qed
  then show "bucket_ok b'" "tb_last_refill b' = now" "tb_qps b' = tb_qps b" "tb_burst b' = tb_burst b"
    "tb_tokens b' + (if ok then 1 else 0) \<le> tb_tokens b + (now - tb_last_refill b) * tb_qps b * (1 + 1 / 2 ^ 51) + tb_burst b / 2 ^ 51"
    by blast+
qed

lemma try_acquires_bound:
  assumes "bucket_ok b" and "sorted (tb_last_refill b # ts)" and "try_acquires b ts = (n, b')"
  shows "bucket_ok b' \<and> of_nat n + tb_tokens b' \<le> tb_tokens b +
    (last (tb_last_refill b # ts) - tb_last_refill b) * tb_qps b * (1 + 1 / 2 ^ 51) + of_nat (length ts) * (tb_burst b / 2 ^ 51)"
  using assms
proof (induction ts arbitrary: b n)
  case Nil
  then show ?case by simp
next
  case (Cons now ts)
  obtain ok b1 where one: "try_acquire now b = (ok, b1)" by fastforce
  have le: "tb_last_refill b \<le> now" using Cons.prems(2) by simp
  note step = try_acquire_ok [OF Cons.prems(1) le one]
  obtain m where rest: "try_acquires b1 ts = (m, b')" "n = (if ok then Suc m else m)"
    using Cons.prems(3) one by (auto split: prod.splits)
  have "sorted (tb_last_refill b1 # ts)" using Cons.prems(2) step(2) by simp
  from Cons.IH [OF step(1) this rest(1)] have IH: "bucket_ok b'"
    "of_nat m + tb_tokens b' \<le> tb_tokens b1 + (last (now # ts) - now) * tb_qps b * (1 + 1 / 2 ^ 51) + of_nat (length ts) * (tb_burst b / 2 ^ 51)"
    by (simp_all add: step(2-4))
  have "(x - z) * q * c = (x - y) * q * c + (y - z) * q * c" for x y z q c :: rat by (simp add: algebra_simps)
  then have e1: "(last (now # ts) - tb_last_refill b) * tb_qps b * (1 + 1 / 2 ^ 51) =
      (last (now # ts) - now) * tb_qps b * (1 + 1 / 2 ^ 51) + (now - tb_last_refill b) * tb_qps b * (1 + 1 / 2 ^ 51)" .
  have e2: "of_nat (length (now # ts)) * (tb_burst b / 2 ^ 51) = of_nat (length ts) * (tb_burst b / 2 ^ 51) + tb_burst b / 2 ^ 51"
    unfolding list.size of_nat_add of_nat_1 distrib_right by simp
  have e3: "rat_of_nat n = of_nat m + (if ok then 1 else 0)" using rest(2) by simp
  have e4: "last (tb_last_refill b # now # ts) = last (now # ts)" by simp
  have sums: "m + g + t' \<le> t + (x + y) + (k + h)" if "m + t' \<le> t1 + x + k" "t1 + g \<le> t + y + h" for m g h k t t' t1 x y :: rat
    using that by linarith
  show ?case unfolding e4 e1 e2 e3 using IH(1) sums [OF IH(2) step(5)] by blast
qed

text \<open>
  Claim C19. The rate limit holds in floating-point arithmetic: from the construction of the bucket on, however the threads
  interleave, the calls made until the time \<open>t\<close> are granted at most the burst and the rate times the elapsed seconds,
  up to a relative error of \<open>2 ^ -51\<close> of the product and of the burst for each call; and the number of tokens stays
  between 0 and the burst.
\<close>

theorem rate_limit_holds:
  assumes "TokenBucketRateLimiter_init str_float qps burst t0 = Inr b" and "fl qps = qps" and "fl burst = burst"
    and "sorted (t0 # ts)"
  shows "case try_acquires b ts of (n, b') \<Rightarrow>
    of_nat n \<le> tb_burst b + (last (t0 # ts) - t0) * qps * (1 + 1 / 2 ^ 51) + of_nat (length ts) * (tb_burst b / 2 ^ 51) \<and>
    0 \<le> tb_tokens b' \<and> tb_tokens b' \<le> tb_burst b'"
proof -
  note b = init_ok [OF assms(1-3)]
  obtain n b' where run: "try_acquires b ts = (n, b')" by fastforce
  from try_acquires_bound [OF b(1) _ run] assms(4) have "bucket_ok b'"
    "of_nat n + tb_tokens b' \<le> tb_burst b + (last (t0 # ts) - t0) * qps * (1 + 1 / 2 ^ 51) + of_nat (length ts) * (tb_burst b / 2 ^ 51)"
    by (simp_all add: b(2-4))
  then show ?thesis by (simp add: run bucket_ok_def)
qed

theorem rate_limit_holds_witness:
  "case try_acquires \<lparr>tb_qps = 1, tb_burst = 2, tb_tokens = 2, tb_last_refill = 0\<rparr> [0, 0, 0] of (n, b') \<Rightarrow> of_nat n \<le> (2 + 6 / 2 ^ 51 :: rat)"
proof -
  have "fl 2 = 2" using fl_int [of 2] by simp
  then show ?thesis
    using rate_limit_holds [of "\<lambda>_. []" 1 2 0 "\<lparr>tb_qps = 1, tb_burst = 2, tb_tokens = 2, tb_last_refill = 0\<rparr>" "[0, 0, 0]"]
    by (auto simp: TokenBucketRateLimiter_init_def split: prod.splits)
qed


section \<open>Waiting for a token\<close>

abbreviation fl_shrink :: rat where
  "fl_shrink \<equiv> 1 - 1 / 2 ^ 53"

lemma fl_shrink: "0 \<le> x \<Longrightarrow> fl_shrink * x \<le> fl x"
  using fl_ge [of x] by (simp only: left_diff_distrib) simp

text \<open>After sleeping for the announced time, a thread that is alone misses less than the rounding of five operations.\<close>

lemma refill_after_wait:
  assumes "0 < q" and "0 \<le> t" and "t < 1" and "fl (fl (1 - t) / q) \<le> d"
  shows "1 - 5 / 2 ^ 53 \<le> fl (t + fl (fl d * q))"
proof -
  have pos: "0 \<le> fl (1 - t) / q" "0 \<le> fl (fl (1 - t) / q)" using assms(1,3) by (simp_all add: fl_nonneg)
  have d: "0 \<le> d" using pos(2) assms(4) by simp
  have "fl_shrink * (fl_shrink * (1 - t) / q) \<le> fl_shrink * (fl (1 - t) / q)"
    using fl_shrink [of "1 - t"] assms(1,3) by (intro mult_left_mono divide_right_mono) simp_all
  also have "\<dots> \<le> fl (fl (1 - t) / q)" by (rule fl_shrink [OF pos(1)])
  finally have w: "fl_shrink * (fl_shrink * (1 - t) / q) \<le> d" using assms(4) by (rule order_trans)
  have "fl_shrink * (fl_shrink * (fl_shrink * (1 - t) / q)) \<le> fl_shrink * d" by (rule mult_left_mono [OF w]) simp
  also have "\<dots> \<le> fl d" by (rule fl_shrink [OF d])
  finally have "fl_shrink * (fl_shrink * (fl_shrink * (1 - t) / q)) * q \<le> fl d * q" using assms(1) by (intro mult_right_mono) simp_all
  then have dq: "fl_shrink * (fl_shrink * (fl_shrink * (1 - t))) \<le> fl d * q" using assms(1) by simp
  have "fl_shrink * (fl_shrink * (fl_shrink * (fl_shrink * (1 - t)))) \<le> fl_shrink * (fl d * q)" by (rule mult_left_mono [OF dq]) simp
  also have "\<dots> \<le> fl (fl d * q)" using fl_nonneg [OF d] assms(1) by (intro fl_shrink) simp
  finally have y: "fl_shrink * (fl_shrink * (fl_shrink * (fl_shrink * (1 - t)))) \<le> fl (fl d * q)" .
  have "fl_shrink * (fl_shrink * (fl_shrink * fl_shrink)) \<ge> (1 - 4 / 2 ^ 53 :: rat)" by simp
  from mult_right_mono [OF this, of "1 - t"] assms(3) y have "(1 - 4 / 2 ^ 53) * (1 - t) \<le> fl (fl d * q)" by simp
  then have sum: "1 - 4 / 2 ^ 53 \<le> t + fl (fl d * q)" using assms(2,3) by (simp add: algebra_simps)
  have "1 - 5 / 2 ^ 53 \<le> fl_shrink * (1 - 4 / 2 ^ 53)" by simp
  also have "\<dots> \<le> fl_shrink * (t + fl (fl d * q))" by (rule mult_left_mono [OF sum]) simp
  also have "\<dots> \<le> fl (t + fl (fl d * q))" by (rule fl_shrink [OF order_trans [OF _ sum]]) simp
  finally show ?thesis .
qed

text \<open>The least sleep of a millisecond makes up for it, at rates that are not absurdly small.\<close>

lemma refill_after_millisecond:
  assumes "1 / 2 ^ 40 \<le> q" and "1 - 5 / 2 ^ 53 \<le> t" and "fl (1 / 1000) \<le> d"
  shows "1 \<le> fl (t + fl (fl d * q))"
proof -
  have "fl_shrink * (1 / 1000) \<le> fl (1 / 1000)" by (rule fl_shrink) simp
  then have d: "fl_shrink * (1 / 1000) \<le> d" using assms(3) by (rule order_trans)
  then have d0: "0 \<le> d" by simp
  have "fl_shrink * (fl_shrink * (1 / 1000)) \<le> fl_shrink * d" by (rule mult_left_mono [OF d]) simp
  also have "\<dots> \<le> fl d" by (rule fl_shrink [OF d0])
  finally have fd: "fl_shrink * (fl_shrink * (1 / 1000)) \<le> fl d" .
  have dq: "fl_shrink * (fl_shrink * (1 / 1000)) * (1 / 2 ^ 40) \<le> fl d * q" by (rule mult_mono [OF fd assms(1)]) (use fl_nonneg [OF d0] in simp_all)
  have "5 / 2 ^ 53 \<le> fl_shrink * (fl_shrink * (fl_shrink * (1 / 1000)) * (1 / 2 ^ 40))" by simp
  also have "\<dots> \<le> fl_shrink * (fl d * q)" by (rule mult_left_mono [OF dq]) simp
  also have "\<dots> \<le> fl (fl d * q)" by (rule fl_shrink [OF order_trans [OF _ dq]]) simp
  finally have "1 \<le> t + fl (fl d * q)" using assms(2) by linarith
  then have "fl 1 \<le> fl (t + fl (fl d * q))" by (intro fl_mono_nonneg) simp_all
  then show ?thesis by simp
qed

text \<open>
  The documented behaviour of the clock: after a sleep of \<open>w\<close> seconds it has advanced by \<open>w\<close> at least.
\<close>

definition clock_advances :: "'s Clock \<Rightarrow> bool" where
  "clock_advances ck \<longleftrightarrow>
     (\<forall>s w. 0 \<le> w \<longrightarrow> fst (ck_monotonic ck s) + w \<le> fst (ck_monotonic ck (ck_sleep ck w (snd (ck_monotonic ck s)))))"

lemma acquire_round:
  assumes "bucket_ok b" and "clock_advances ck" and "ck_monotonic ck s = (now, s1)" and "tb_last_refill b \<le> now"
  obtains b1 where "acquire_token ck (Suc k) b s = Some (b1, s1)"
  | w s2 now2 s3 where "acquire_token ck (Suc k) b s = acquire_token ck k (refill now b) s2" "ck_monotonic ck s2 = (now2, s3)"
      "now + w \<le> now2" "w = max (fl (fl (1 - tb_tokens (refill now b)) / tb_qps b)) (fl (1 / 1000))" "tb_tokens (refill now b) < 1"
proof (cases "1 \<le> tb_tokens (refill now b)")
  case True
  then show thesis using that(1) assms(3) by (simp add: try_acquire_wait_def Let_def)
next
  case False
  let ?w = "fl (fl (1 - tb_tokens (refill now b)) / tb_qps b)"
  have q: "tb_qps (refill now b) = tb_qps b" by (simp add: refill_def Let_def)
  have "0 < fl (1 - tb_tokens (refill now b)) / tb_qps b" using False assms(1) fl_pos_iff [of "1 - tb_tokens (refill now b)"] by (simp add: bucket_ok_def)
  then have w: "0 < ?w" using fl_pos_iff by simp
  obtain now2 s3 where two: "ck_monotonic ck (ck_sleep ck (max ?w (fl (1 / 1000))) s1) = (now2, s3)" by fastforce
  have "now + max ?w (fl (1 / 1000)) \<le> now2"
    using assms(2,3) two w unfolding clock_advances_def by (metis fst_conv less_imp_le max.coboundedI1 snd_conv)
  moreover have "acquire_token ck (Suc k) b s = acquire_token ck k (refill now b) (ck_sleep ck (max ?w (fl (1 / 1000))) s1)"
    using assms(3) False w by (simp add: try_acquire_wait_def Let_def q)
  ultimately show thesis using that(2) two False by simp
qed

lemma refill_alone: "tb_tokens (refill now b) = min (tb_burst b) (fl (tb_tokens b + fl (fl (now - tb_last_refill b) * tb_qps b)))"
  by (simp add: refill_def Let_def)

lemma try_acquires_last:
  assumes "bucket_ok b" and "sorted (tb_last_refill b # ts)" and "try_acquires b ts = (n, b')"
  shows "tb_last_refill b' = last (tb_last_refill b # ts) \<and> tb_qps b' = tb_qps b"
  using assms
proof (induction ts arbitrary: b n)
  case (Cons now ts)
  obtain ok b1 where one: "try_acquire now b = (ok, b1)" by fastforce
  have le: "tb_last_refill b \<le> now" using Cons.prems(2) by simp
  note step = try_acquire_ok [OF Cons.prems(1) le one]
  obtain m where rest: "try_acquires b1 ts = (m, b')" using Cons.prems(3) one by (auto split: prod.splits)
  have "sorted (tb_last_refill b1 # ts)" using Cons.prems(2) step(2) by simp
  from Cons.IH [OF step(1) this rest] show ?case by (simp add: step(2,3))
qed simp

lemma acquire_returns_alone:
  assumes "bucket_ok b" and "1 / 2 ^ 40 \<le> tb_qps b" and "tb_last_refill b \<le> fst (ck_monotonic ck s)" and "clock_advances ck"
  shows "\<exists>b' s'. acquire_token ck 3 b s = Some (b', s')"
proof -
  have three: "3 = Suc 2" "2 = Suc 1" "1 = Suc 0" by simp_all
  have same: "tb_last_refill (refill t c) = t" "tb_qps (refill t c) = tb_qps c" "tb_burst (refill t c) = tb_burst c" for t c
    by (simp_all add: refill_def Let_def)
  obtain now s1 where m1: "ck_monotonic ck s = (now, s1)" by fastforce
  have le1: "tb_last_refill b \<le> now" using assms(3) m1 by simp
  let ?b1 = "refill now b"
  note ok1 = refill_tokens(2) [OF assms(1) le1]
  show ?thesis
  proof (rule acquire_round [OF assms(1,4) m1 le1, of 2])
    fix w s2 now2 s3
    assume 1: "acquire_token ck (Suc 2) b s = acquire_token ck 2 ?b1 s2" and m2: "ck_monotonic ck s2 = (now2, s3)" and le: "now + w \<le> now2"
      and w: "w = max (fl (fl (1 - tb_tokens ?b1) / tb_qps b)) (fl (1 / 1000))" and t1: "tb_tokens ?b1 < 1"
    have "0 \<le> fl (1 / 1000)" by (rule fl_nonneg) simp
    then have le2: "tb_last_refill ?b1 \<le> now2" using le w by (simp add: same)
    let ?b2 = "refill now2 ?b1"
    note ok2 = refill_tokens(2) [OF ok1 le2]
    have q: "0 < tb_qps b" "1 \<le> tb_burst b" "0 \<le> tb_tokens ?b1" using assms(1) ok1 by (simp_all add: bucket_ok_def)
    have "fl (fl (1 - tb_tokens ?b1) / tb_qps b) \<le> now2 - now" using le w by simp
    from refill_after_wait [OF q(1,3) t1 this] have t2: "1 - 5 / 2 ^ 53 \<le> tb_tokens ?b2"
      unfolding refill_alone same min.bounded_iff by (intro conjI order_trans [OF _ q(2)]) simp_all
    show ?thesis
    proof (rule acquire_round [OF ok1 assms(4) m2 le2, of 1])
      fix v s4 now3 s5
      assume 2: "acquire_token ck (Suc 1) ?b1 s2 = acquire_token ck 1 ?b2 s4" and m3: "ck_monotonic ck s4 = (now3, s5)" and le: "now2 + v \<le> now3"
        and v: "v = max (fl (fl (1 - tb_tokens ?b2) / tb_qps ?b1)) (fl (1 / 1000))"
      have le3: "tb_last_refill ?b2 \<le> now3" using le v \<open>0 \<le> fl (1 / 1000)\<close> by (simp add: same)
      have "fl (1 / 1000) \<le> now3 - now2" using le v by simp
      from refill_after_millisecond [OF assms(2) t2 this] have "1 \<le> tb_tokens (refill now3 ?b2)"
        unfolding refill_alone [of now3 ?b2] same min.bounded_iff using q(2) by simp
      then have "\<exists>b' s'. acquire_token ck 1 ?b2 s4 = Some (b', s')" unfolding three(3) using m3 by (simp add: try_acquire_wait_def Let_def)
      then show ?thesis unfolding three(1) 1 unfolding three(2) 2 .
    next
      fix b3
      assume "acquire_token ck (Suc 1) ?b1 s2 = Some (b3, s3)"
      then show ?thesis unfolding three(1) 1 unfolding three(2) by blast
    qed
  next
    fix b3
    assume "acquire_token ck (Suc 2) b s = Some (b3, s1)"
    then show ?thesis unfolding three(1) by blast
  qed
qed

text \<open>
  Claim C20. A thread that waits for a token gets it: on a bucket as any calls have left it, with no other thread
  interfering, \<open>acquire\<close> returns after at most two sleeps, rounding included, for every rate of at least \<open>2 ^ -40\<close>
  requests a second.
\<close>

theorem acquire_returns:
  assumes "TokenBucketRateLimiter_init str_float qps burst t0 = Inr b0" and "fl qps = qps" and "fl burst = burst" and "1 / 2 ^ 40 \<le> qps"
    and "sorted (t0 # ts)" and "try_acquires b0 ts = (n, b)" and "last (t0 # ts) \<le> fst (ck_monotonic ck s)" and "clock_advances ck"
  shows "\<exists>b' s'. acquire_token ck 3 b s = Some (b', s')"
proof -
  note b0 = init_ok [OF assms(1-3)]
  have s: "sorted (tb_last_refill b0 # ts)" using assms(5) b0(2) by simp
  have "bucket_ok b" using try_acquires_bound [OF b0(1) s assms(6)] by blast
  moreover have "tb_last_refill b = last (t0 # ts)" "tb_qps b = qps" using try_acquires_last [OF b0(1) s assms(6)] b0 by simp_all
  ultimately show ?thesis using acquire_returns_alone assms(4,7,8) by metis
qed

definition steady_clock :: "rat Clock" where
  "steady_clock = \<lparr>ck_monotonic = (\<lambda>s. (s, s)), ck_sleep = (\<lambda>w s. s + w)\<rparr>"

theorem acquire_returns_witness:
  "\<exists>b' s'. acquire_token steady_clock 3 (snd (try_acquires \<lparr>tb_qps = 1, tb_burst = 1, tb_tokens = 1, tb_last_refill = 0\<rparr> [0])) 0 = Some (b', s')"
  by (rule acquire_returns [of "\<lambda>_. []" 1 1 0 _ "[0]", OF _ _ _ _ _ prod.collapse [symmetric]])
     (simp_all add: TokenBucketRateLimiter_init_def steady_clock_def clock_advances_def)

end
