(* ===== verification/K8s_Informer.thy ===== *)
theory K8s_Informer
  imports Py_Float Py_Text Prog_Logic
begin

text \<open>
  The Kubernetes client of the server: label selectors (\<open>services/k8s/label_selector.py\<close>), the informer that keeps a
  cache of a custom resource by watching it (\<open>services/k8s/informer.py\<close>), and the operations of the client on custom
  objects, which read through the cache (\<open>services/k8s/client.py\<close>).
\<close>

section \<open>Label selectors\<close>

text \<open>A term is a key that must exist, or a key with its value.\<close>

datatype Term = Exists string | Eq string string

definition LABEL_KEY_CHARS :: string where
  "LABEL_KEY_CHARS = ''abcdefghijklmnopqrstuvwxyzABCDEFGHIJKLMNOPQRSTUVWXYZ0123456789-_./''"

definition is_valid_key :: "string \<Rightarrow> bool" where
  "is_valid_key key = (key \<noteq> [] \<and> list_all (\<lambda>c. c \<in> set LABEL_KEY_CHARS) key)"

text \<open>\<open>s.partition(sep)\<close>, \<open>None\<close> when the separator does not occur.\<close>

fun py_partition :: "string \<Rightarrow> string \<Rightarrow> (string \<times> string) option" where
  "py_partition sep [] = None"
| "py_partition sep (c # cs) =
     (if py_startswith (c # cs) sep then Some ([], drop (length sep) (c # cs))
      else map_option (apfst (Cons c)) (py_partition sep cs))"

definition parse_clause :: "string \<Rightarrow> Term option" where
  "parse_clause raw =
     (let clause = py_strip raw
      in if clause = [] then None
         else let (key, value) = (case py_partition ''=='' clause of
                    Some (k, v) \<Rightarrow> (k, Some v)
                  | None \<Rightarrow> (case py_partition ''='' clause of Some (k, v) \<Rightarrow> (k, Some v) | None \<Rightarrow> (clause, None)))
           in if \<not> is_valid_key (py_strip key) then None
              else Some (case value of None \<Rightarrow> Exists (py_strip key) | Some v \<Rightarrow> Eq (py_strip key) (py_strip v)))"

fun parse_clauses :: "string list \<Rightarrow> Term list option" where
  "parse_clauses [] = Some []"
| "parse_clauses (r # rs) =
     (case parse_clause r of None \<Rightarrow> None | Some t \<Rightarrow> map_option (Cons t) (parse_clauses rs))"

definition parse_selector :: "string \<Rightarrow> Term list option" where
  "parse_selector selector =
     (let s = py_strip selector in if s = [] then Some [] else parse_clauses (py_split (CHR '','') s))"

fun matches :: "(string \<times> string) list \<Rightarrow> Term list \<Rightarrow> bool" where
  "matches labels [] = True"
| "matches labels (Exists key # ts) = (if map_of labels key = None then False else matches labels ts)"
| "matches labels (Eq key expected # ts) = (if map_of labels key \<noteq> Some expected then False else matches labels ts)"

section \<open>The informer\<close>

text \<open>
  A custom object, by the fields of its metadata that the informer reads; an absent one is \<open>None\<close>, and \<open>co_body\<close> is the
  rest of it.
\<close>

record 'b CustomObject =
  co_name :: "string option"
  co_resourceVersion :: "string option"
  co_labels :: "(string \<times> string) list option"
  co_body :: 'b

record 'b WatchEvent =
  ev_type :: "string option"
  ev_object :: "'b CustomObject option"

record 'b WorkloadInformer =
  inf_resync_period_seconds :: rat
  inf_watch_timeout_seconds :: rat
  inf_enable_watch :: bool
  inf_cache :: "(string \<times> 'b CustomObject) list"
  inf_resource_version :: "string option"
  inf_has_synced :: bool
  inf_last_contact_at :: "rat option"
  inf_stopped :: bool

definition WorkloadInformer_init :: "rat \<Rightarrow> rat \<Rightarrow> bool \<Rightarrow> 'b WorkloadInformer" where
  "WorkloadInformer_init resync watch_timeout enable_watch =
     \<lparr>inf_resync_period_seconds = resync, inf_watch_timeout_seconds = watch_timeout, inf_enable_watch = enable_watch,
      inf_cache = [], inf_resource_version = None, inf_has_synced = False, inf_last_contact_at = None, inf_stopped = False\<rparr>"

definition staleness_limit_seconds :: "'b WorkloadInformer \<Rightarrow> rat" where
  "staleness_limit_seconds iw = inf_resync_period_seconds iw + inf_watch_timeout_seconds iw"

definition has_synced :: "rat \<Rightarrow> 'b WorkloadInformer \<Rightarrow> bool" where
  "has_synced now iw =
     (if inf_stopped iw then False
      else if \<not> inf_has_synced iw then False
      else (case inf_last_contact_at iw of None \<Rightarrow> False | Some t \<Rightarrow> fl (now - t) \<le> staleness_limit_seconds iw))"

definition informer_stop :: "'b WorkloadInformer \<Rightarrow> 'b WorkloadInformer" where
  "informer_stop iw = iw\<lparr>inf_stopped := True\<rparr>"

definition informer_get :: "string \<Rightarrow> 'b WorkloadInformer \<Rightarrow> 'b CustomObject option" where
  "informer_get name iw = map_of (inf_cache iw) name"

definition informer_list :: "'b WorkloadInformer \<Rightarrow> 'b CustomObject list" where
  "informer_list iw = map snd (inf_cache iw)"

definition advance_resource_version :: "string option \<Rightarrow> 'b WorkloadInformer \<Rightarrow> 'b WorkloadInformer" where
  "advance_resource_version rv iw =
     (case rv of
        None \<Rightarrow> iw
      | Some r \<Rightarrow>
          if r = [] then iw
          else (case inf_resource_version iw of
            None \<Rightarrow> iw\<lparr>inf_resource_version := Some r\<rparr>
          | Some cur \<Rightarrow>
              (case (py_int_of_str r, py_int_of_str cur) of
                 (Some a, Some b) \<Rightarrow> if b < a then iw\<lparr>inf_resource_version := Some r\<rparr> else iw
               | _ \<Rightarrow> iw)))"

abbreviation no_name :: "string option \<Rightarrow> bool" where
  "no_name n \<equiv> n = None \<or> n = Some []"

definition update_cache :: "'b CustomObject \<Rightarrow> 'b WorkloadInformer \<Rightarrow> 'b WorkloadInformer" where
  "update_cache obj iw =
     (if no_name (co_name obj) then iw
      else advance_resource_version (co_resourceVersion obj) (iw\<lparr>inf_cache := AList.update (the (co_name obj)) obj (inf_cache iw)\<rparr>))"

definition delete_from_cache :: "string \<Rightarrow> 'b WorkloadInformer \<Rightarrow> 'b WorkloadInformer" where
  "delete_from_cache name iw = iw\<lparr>inf_cache := AList.delete name (inf_cache iw)\<rparr>"

definition handle_event :: "'b WatchEvent \<Rightarrow> 'b WorkloadInformer \<Rightarrow> 'b WorkloadInformer" where
  "handle_event event iw =
     (case ev_object event of
        None \<Rightarrow> iw
      | Some obj \<Rightarrow>
          if no_name (co_name obj) then iw
          else let name = the (co_name obj)
            in advance_resource_version (co_resourceVersion obj)
                 (if ev_type event = Some ''DELETED'' then iw\<lparr>inf_cache := AList.delete name (inf_cache iw)\<rparr>
                  else iw\<lparr>inf_cache := AList.update name obj (inf_cache iw)\<rparr>))"

text \<open>The answer of a list: the items and the resource version of its metadata.\<close>

type_synonym 'b ListResponse = "'b CustomObject list \<times> string option"

definition cache_of :: "'b CustomObject list \<Rightarrow> (string \<times> 'b CustomObject) list" where
  "cache_of items = fold (\<lambda>item c. if no_name (co_name item) then c else AList.update (the (co_name item)) item c) items []"

definition apply_list :: "'b ListResponse \<Rightarrow> rat \<Rightarrow> 'b WorkloadInformer \<Rightarrow> 'b WorkloadInformer" where
  "apply_list resp now iw =
     (advance_resource_version (snd resp) (iw\<lparr>inf_cache := cache_of (fst resp)\<rparr>))\<lparr>inf_has_synced := True, inf_last_contact_at := Some now\<rparr>"

section \<open>The thread of the informer\<close>

text \<open>
  The interfaces of the thread: the list call, a watch from a resource version with a timeout (the events that it
  delivered, and the exception that ended it, if one did), the clock, and the wait on the stop event.
\<close>

record ('b, 's) InformerEnv =
  ie_list :: "('s, 'b ListResponse) M"
  ie_watch :: "string option \<Rightarrow> int \<Rightarrow> 's \<Rightarrow> ('b WatchEvent list \<times> exn option) \<times> 's"
  ie_monotonic :: "('s, rat) M"
  ie_wait :: "rat \<Rightarrow> ('s, unit) M"

record 'b InformerRun =
  ir_informer :: "'b WorkloadInformer"
  ir_backoff :: rat
  ir_last_full_resync_at :: "rat option"

definition on_env :: "('s, 'a) M \<Rightarrow> ('b InformerRun \<times> 's, 'a) M" where
  "on_env m s = (case m (snd s) of (x, t) \<Rightarrow> (x, fst s, t))"

abbreviation modify_run :: "('b InformerRun \<Rightarrow> 'b InformerRun) \<Rightarrow> ('b InformerRun \<times> 's, unit) M" where
  "modify_run f \<equiv> modifyM (apfst f)"

abbreviation modify_informer :: "('b WorkloadInformer \<Rightarrow> 'b WorkloadInformer) \<Rightarrow> ('b InformerRun \<times> 's, unit) M" where
  "modify_informer f \<equiv> modify_run (\<lambda>r. r\<lparr>ir_informer := f (ir_informer r)\<rparr>)"

definition full_resync :: "('b, 's) InformerEnv \<Rightarrow> ('b InformerRun \<times> 's, unit) M" where
  "full_resync env =
     bindM (on_env (ie_list env)) (\<lambda>resp. bindM (on_env (ie_monotonic env)) (\<lambda>now. modify_informer (apply_list resp now)))"

text \<open>The stream ends at its first event when the informer has been stopped by then; a stop while it delivers is the same as one
  after it.\<close>

definition run_watch_loop :: "('b, 's) InformerEnv \<Rightarrow> int \<Rightarrow> ('b InformerRun \<times> 's, unit) M" where
  "run_watch_loop env timeout =
     bindM (getM (\<lambda>s. ir_informer (fst s))) (\<lambda>iw.
     bindM (on_env (\<lambda>t. case ie_watch env (inf_resource_version iw) timeout t of (r, t') \<Rightarrow> (Inr r, t'))) (\<lambda>(events, ended).
     if inf_stopped iw \<and> events \<noteq> []
     then bindM (on_env (ie_monotonic env)) (\<lambda>now. modify_informer (\<lambda>i. i\<lparr>inf_last_contact_at := Some now\<rparr>))
     else thenM (modify_informer (fold handle_event events))
       (case ended of
          Some e \<Rightarrow> raiseM e
        | None \<Rightarrow> bindM (on_env (ie_monotonic env)) (\<lambda>now. modify_informer (\<lambda>i. i\<lparr>inf_last_contact_at := Some now\<rparr>)))))"

definition back_off :: "('b, 's) InformerEnv \<Rightarrow> ('b InformerRun \<times> 's, unit) M" where
  "back_off env =
     bindM (getM (\<lambda>s. ir_backoff (fst s))) (\<lambda>backoff.
     thenM (modify_informer (\<lambda>i. i\<lparr>inf_has_synced := False\<rparr>))
     (thenM (on_env (ie_wait env (min backoff 30))) (modify_run (\<lambda>r. r\<lparr>ir_backoff := min (backoff * 2) 30\<rparr>))))"

fun is_gone :: "exn \<Rightarrow> bool" where
  "is_gone (ApiException st _) = (st = 410)"
| "is_gone _ = False"

text \<open>One turn of the loop of \<open>_run\<close>, which goes on until the informer is stopped.\<close>

definition run_turn :: "('b, 's) InformerEnv \<Rightarrow> ('b InformerRun \<times> 's, unit) M" where
  "run_turn env =
     exceptM
       (bindM (getM (\<lambda>s. ir_informer (fst s))) (\<lambda>iw0.
        thenM (whenM (\<not> inf_has_synced iw0)
                 (thenM (full_resync env) (bindM (on_env (ie_monotonic env)) (\<lambda>now.
                    modify_run (\<lambda>r. r\<lparr>ir_last_full_resync_at := Some now, ir_backoff := 1\<rparr>)))))
        (if \<not> inf_enable_watch iw0
         then thenM (on_env (ie_wait env (inf_resync_period_seconds iw0))) (modify_informer (\<lambda>i. i\<lparr>inf_has_synced := False\<rparr>))
         else bindM (getM (\<lambda>s. ir_last_full_resync_at (fst s))) (\<lambda>last0.
           bindM (case last0 of
                    Some l \<Rightarrow> returnM l
                  | None \<Rightarrow> bindM (on_env (ie_monotonic env)) (\<lambda>now. thenM (modify_run (\<lambda>r. r\<lparr>ir_last_full_resync_at := Some now\<rparr>)) (returnM now)))
             (\<lambda>l. bindM (on_env (ie_monotonic env)) (\<lambda>now.
                let remaining = fl (inf_resync_period_seconds iw0 - fl (now - l))
                in if remaining \<le> 0 then modify_informer (\<lambda>i. i\<lparr>inf_has_synced := False\<rparr>)
                   else thenM (run_watch_loop env (\<lfloor>min (inf_watch_timeout_seconds iw0) (of_int (max 1 \<lceil>remaining\<rceil>))\<rfloor>))
                     (bindM (on_env (ie_monotonic env)) (\<lambda>now2.
                      thenM (whenM (inf_resync_period_seconds iw0 \<le> fl (now2 - l)) (modify_informer (\<lambda>i. i\<lparr>inf_has_synced := False\<rparr>)))
                        (modify_run (\<lambda>r. r\<lparr>ir_backoff := 1\<rparr>))))))))))
       (\<lambda>e. if is_gone e then modify_informer (\<lambda>i. i\<lparr>inf_resource_version := None, inf_has_synced := False\<rparr>) else back_off env)"

section \<open>Custom objects through the cache\<close>

type_synonym informer_key = "string \<times> string \<times> string \<times> string"

text \<open>
  The API calls of the Kubernetes library, the start of an informer's thread, the clock and the limiters (an absent one
  returns at once).
\<close>

record ('b, 's) KubeApi =
  ka_create :: "informer_key \<Rightarrow> 'b CustomObject \<Rightarrow> ('s, 'b CustomObject) M"
  ka_get :: "informer_key \<Rightarrow> string \<Rightarrow> ('s, 'b CustomObject) M"
  ka_list :: "informer_key \<Rightarrow> string \<Rightarrow> ('s, 'b CustomObject list) M"
  ka_delete :: "informer_key \<Rightarrow> string \<Rightarrow> ('s, unit) M"
  ka_patch :: "informer_key \<Rightarrow> string \<Rightarrow> 'b CustomObject \<Rightarrow> ('s, 'b CustomObject) M"
  ka_start_informer :: "informer_key \<Rightarrow> ('s, unit) M"
  ka_monotonic :: "('s, rat) M"
  ka_read_limit :: "('s, unit) M"
  ka_write_limit :: "('s, unit) M"
  ka_informer_enabled :: bool
  ka_resync_seconds :: rat
  ka_watch_timeout_seconds :: rat

type_synonym ('b, 's) kclient = "(informer_key \<times> 'b WorkloadInformer) list \<times> 's"

definition on_api :: "('s, 'a) M \<Rightarrow> (('b, 's) kclient, 'a) M" where
  "on_api m s = (case m (snd s) of (x, t) \<Rightarrow> (x, fst s, t))"

definition lookup_informer :: "('b, 's) KubeApi \<Rightarrow> informer_key \<Rightarrow> (('b, 's) kclient, 'b WorkloadInformer option) M" where
  "lookup_informer api key = (if \<not> ka_informer_enabled api then returnM None else getM (\<lambda>s. map_of (fst s) key))"

definition get_informer :: "('b, 's) KubeApi \<Rightarrow> informer_key \<Rightarrow> (('b, 's) kclient, 'b WorkloadInformer option) M" where
  "get_informer api key =
     (if \<not> ka_informer_enabled api then returnM None
      else bindM (getM (\<lambda>s. map_of (fst s) key)) (\<lambda>found.
        case found of
          Some iw \<Rightarrow> returnM (Some iw)
        | None \<Rightarrow>
            let iw = WorkloadInformer_init (ka_resync_seconds api) (ka_watch_timeout_seconds api) True
            in thenM (modifyM (apfst (AList.update key iw)))
                 (exceptM (thenM (on_api (ka_start_informer api key)) (returnM (Some iw)))
                    (\<lambda>_. thenM (modifyM (apfst (AList.delete key))) (returnM None)))))"

definition with_informer :: "('b, 's) KubeApi \<Rightarrow> informer_key \<Rightarrow> ('b WorkloadInformer \<Rightarrow> 'b WorkloadInformer) \<Rightarrow> (('b, 's) kclient, unit) M" where
  "with_informer api key f =
     bindM (lookup_informer api key) (\<lambda>iw. case iw of None \<Rightarrow> returnM () | Some i \<Rightarrow> modifyM (apfst (AList.update key (f i))))"

definition create_custom_object :: "('b, 's) KubeApi \<Rightarrow> informer_key \<Rightarrow> 'b CustomObject \<Rightarrow> (('b, 's) kclient, 'b CustomObject) M" where
  "create_custom_object api key body =
     thenM (on_api (ka_write_limit api)) (bindM (on_api (ka_create api key body)) (\<lambda>obj. thenM (with_informer api key (update_cache obj)) (returnM obj)))"

fun is_not_found :: "exn \<Rightarrow> bool" where
  "is_not_found (ApiException st _) = (st = 404)"
| "is_not_found _ = False"

definition get_custom_object :: "('b, 's) KubeApi \<Rightarrow> informer_key \<Rightarrow> string \<Rightarrow> (('b, 's) kclient, 'b CustomObject option) M" where
  "get_custom_object api key name =
     bindM (get_informer api key) (\<lambda>informer.
     bindM (case informer of
              None \<Rightarrow> returnM None
            | Some iw \<Rightarrow> bindM (on_api (ka_monotonic api)) (\<lambda>now. returnM (if has_synced now iw then informer_get name iw else None)))
       (\<lambda>cached. case cached of
          Some obj \<Rightarrow> returnM (Some obj)
        | None \<Rightarrow>
            thenM (on_api (ka_read_limit api))
              (catch_ifM is_not_found
                 (bindM (on_api (ka_get api key name)) (\<lambda>obj.
                    thenM (case informer of None \<Rightarrow> returnM () | Some _ \<Rightarrow> with_informer api key (update_cache obj)) (returnM (Some obj))))
                 (\<lambda>_. returnM None))))"

definition labels_of :: "'b CustomObject \<Rightarrow> (string \<times> string) list" where
  "labels_of obj = (case co_labels obj of None \<Rightarrow> [] | Some ls \<Rightarrow> ls)"

definition list_custom_objects :: "('b, 's) KubeApi \<Rightarrow> informer_key \<Rightarrow> string \<Rightarrow> (('b, 's) kclient, 'b CustomObject list) M" where
  "list_custom_objects api key label_selector =
     bindM (get_informer api key) (\<lambda>informer.
     bindM (case informer of
              None \<Rightarrow> returnM None
            | Some iw \<Rightarrow> bindM (on_api (ka_monotonic api)) (\<lambda>now. returnM (if has_synced now iw
                then map_option (\<lambda>terms. if terms = [] then informer_list iw else filter (\<lambda>obj. matches (labels_of obj) terms) (informer_list iw))
                       (parse_selector label_selector)
                else None)))
       (\<lambda>cached. case cached of
          Some objs \<Rightarrow> returnM objs
        | None \<Rightarrow>
            thenM (on_api (ka_read_limit api)) (catch_ifM is_not_found (on_api (ka_list api key label_selector)) (\<lambda>_. returnM []))))"

definition delete_custom_object :: "('b, 's) KubeApi \<Rightarrow> informer_key \<Rightarrow> string \<Rightarrow> (('b, 's) kclient, unit) M" where
  "delete_custom_object api key name =
     thenM (on_api (ka_write_limit api)) (thenM (on_api (ka_delete api key name)) (with_informer api key (delete_from_cache name)))"

definition patch_custom_object :: "('b, 's) KubeApi \<Rightarrow> informer_key \<Rightarrow> string \<Rightarrow> 'b CustomObject \<Rightarrow> (('b, 's) kclient, 'b CustomObject) M" where
  "patch_custom_object api key name body =
     thenM (on_api (ka_write_limit api)) (bindM (on_api (ka_patch api key name body)) (\<lambda>obj. thenM (with_informer api key (update_cache obj)) (returnM obj)))"

end
