(* ===== verification/K8s_Watch.thy ===== *)
theory K8s_Watch
  imports K8s_Informer
begin

text \<open>
  The informer beside the cluster that it watches. The cluster is the history of the changes of the resource, each with
  its resource version; a list answers with the objects of the latest version, and a watch delivers the changes after
  the version that it was started from, in order. Other threads of the server put the objects of API responses into
  the cache.
\<close>

section \<open>The cluster\<close>

type_synonym 'b history = "(nat \<times> 'b WatchEvent) list"

definition event_object :: "'b WatchEvent \<Rightarrow> 'b CustomObject" where
  "event_object ev = the (ev_object ev)"

definition event_name :: "'b WatchEvent \<Rightarrow> string" where
  "event_name ev = the (co_name (event_object ev))"

definition version_str :: "nat \<Rightarrow> string" where
  "version_str v = str_of_int (int v)"

definition wf_event :: "nat \<Rightarrow> 'b WatchEvent \<Rightarrow> bool" where
  "wf_event v ev \<longleftrightarrow>
     0 < v \<and> v < 2 ^ 63 \<and> ev_object ev \<noteq> None \<and> \<not> no_name (co_name (event_object ev)) \<and>
     co_resourceVersion (event_object ev) = Some (version_str v)"

definition wf_history :: "'b history \<Rightarrow> bool" where
  "wf_history H \<longleftrightarrow> sorted_wrt (<) (map fst H) \<and> (\<forall>(v, ev)\<in>set H. wf_event v ev)"

definition apply_change :: "'b WatchEvent \<Rightarrow> (string \<rightharpoonup> 'b CustomObject) \<Rightarrow> (string \<rightharpoonup> 'b CustomObject)" where
  "apply_change ev m =
     (if ev_type ev = Some ''DELETED'' then m(event_name ev := None) else m(event_name ev \<mapsto> event_object ev))"

definition cluster_at :: "'b history \<Rightarrow> nat \<Rightarrow> string \<rightharpoonup> 'b CustomObject" where
  "cluster_at H v = fold (\<lambda>(u, ev). apply_change ev) (filter (\<lambda>(u, ev). u \<le> v) H) Map.empty"

definition latest :: "'b history \<Rightarrow> nat" where
  "latest H = (if H = [] then 0 else fst (last H))"

definition next_change :: "'b history \<Rightarrow> nat \<Rightarrow> (nat \<times> 'b WatchEvent) option" where
  "next_change H p = List.find (\<lambda>(v, ev). p < v) H"

record 'b World =
  w_history :: "'b history"
  w_informer :: "'b WorkloadInformer"
  w_stream :: "nat option"

text \<open>
  The steps of the informer's thread and of the cluster, and, when \<open>writes\<close> holds, those of the threads that read and
  write objects through the API: a response may carry any version that the object ever had.
\<close>

inductive watch_step :: "bool \<Rightarrow> 'b World \<Rightarrow> 'b World \<Rightarrow> bool" for writes where
  change: "wf_event v ev \<Longrightarrow> latest (w_history W) < v \<Longrightarrow> watch_step writes W (W\<lparr>w_history := w_history W @ [(v, ev)]\<rparr>)"
| relist: "w_stream W = None \<Longrightarrow> distinct (map co_name items) \<Longrightarrow> set items = ran (cluster_at (w_history W) (latest (w_history W))) \<Longrightarrow>
    watch_step writes W (W\<lparr>w_informer := apply_list (items, Some (version_str (latest (w_history W)))) now (w_informer W)\<rparr>)"
| connect: "w_stream W = None \<Longrightarrow> inf_has_synced (w_informer W) \<Longrightarrow> inf_resource_version (w_informer W) = Some (version_str p) \<Longrightarrow>
    watch_step writes W (W\<lparr>w_stream := Some p\<rparr>)"
| deliver: "w_stream W = Some p \<Longrightarrow> next_change (w_history W) p = Some (v, ev) \<Longrightarrow>
    watch_step writes W (W\<lparr>w_informer := handle_event ev (w_informer W), w_stream := Some v\<rparr>)"
| disconnect: "watch_step writes W (W\<lparr>w_stream := None, w_informer := w_informer W\<lparr>inf_has_synced := inf_has_synced (w_informer W) \<and> b, inf_last_contact_at := t\<rparr>\<rparr>)"
| expire: "watch_step writes W (W\<lparr>w_stream := None, w_informer := w_informer W\<lparr>inf_resource_version := None, inf_has_synced := False\<rparr>\<rparr>)"
| respond: "writes \<Longrightarrow> (v, ev) \<in> set (w_history W) \<Longrightarrow> ev_type ev \<noteq> Some ''DELETED'' \<Longrightarrow>
    watch_step writes W (W\<lparr>w_informer := update_cache (event_object ev) (w_informer W)\<rparr>)"
| forget: "writes \<Longrightarrow> watch_step writes W (W\<lparr>w_informer := delete_from_cache n (w_informer W)\<rparr>)"

inductive watch_reachable :: "bool \<Rightarrow> 'b World \<Rightarrow> bool" for writes where
  start: "wf_history H \<Longrightarrow>
    watch_reachable writes \<lparr>w_history = H, w_informer = WorkloadInformer_init resync timeout True, w_stream = None\<rparr>"
| step: "watch_reachable writes W \<Longrightarrow> watch_step writes W W' \<Longrightarrow> watch_reachable writes W'"

section \<open>Histories\<close>

lemma version_str_inj: "v < 2 ^ 63 \<Longrightarrow> w < 2 ^ 63 \<Longrightarrow> version_str v = version_str w \<longleftrightarrow> v = w"
  and version_str_int: "v < 2 ^ 63 \<Longrightarrow> py_int_of_str (version_str v) = Some (int v)"
  and version_str_nonempty: "version_str v \<noteq> []"
proof -
  have parse: "py_int_of_str (version_str v) = Some (int v)" if "v < 2 ^ 63" for v
  proof -
    have "int v < 2 ^ 63" using that by (metis of_nat_less_iff of_nat_numeral of_nat_power)
    also have "(2 :: int) ^ 63 \<le> 10 ^ 63" by (rule power_mono) simp_all
    also have "(10 :: int) ^ 63 \<le> 10 ^ 4300" by (rule power_increasing) simp_all
    finally show ?thesis unfolding version_str_def by (intro py_int_of_str_of_int) (simp only: abs_of_nat)
  qed
  show "v < 2 ^ 63 \<Longrightarrow> py_int_of_str (version_str v) = Some (int v)" by (rule parse)
  show "v < 2 ^ 63 \<Longrightarrow> w < 2 ^ 63 \<Longrightarrow> version_str v = version_str w \<longleftrightarrow> v = w" using parse by (metis option.inject of_nat_eq_iff)
  show "version_str v \<noteq> []" using digits_of_nat_facts [of v] by (simp add: version_str_def str_of_int_def)
qed

lemma version_str_eq:
  assumes "version_str v = version_str w"
  shows "v = w"
proof -
  have "version_str u = digits_of_nat u" for u by (simp add: version_str_def str_of_int_def)
  then show ?thesis using assms digits_of_nat_facts by metis
qed

lemma wf_history_latest: "wf_history H \<Longrightarrow> (v, ev) \<in> set H \<Longrightarrow> v \<le> latest H" and latest_small: "wf_history H \<Longrightarrow> latest H < 2 ^ 63"
proof -
  assume H: "wf_history H"
  show "latest H < 2 ^ 63" using H by (cases H rule: rev_cases) (auto simp: latest_def wf_history_def wf_event_def)
  assume "(v, ev) \<in> set H"
  with H show "v \<le> latest H"
    by (cases H rule: rev_cases) (auto simp: latest_def wf_history_def sorted_wrt_append)
qed

lemma wf_history_snoc: "wf_history H \<Longrightarrow> wf_event v ev \<Longrightarrow> latest H < v \<Longrightarrow> wf_history (H @ [(v, ev)]) \<and> latest (H @ [(v, ev)]) = v"
  using wf_history_latest [of H] by (auto simp: wf_history_def sorted_wrt_append latest_def) (metis le_less_trans)

lemma cluster_at_snoc: "latest H < v \<Longrightarrow> u \<le> latest H \<Longrightarrow> cluster_at (H @ [(v, ev)]) u = cluster_at H u"
  by (simp add: cluster_at_def)

text \<open>The next change after a version turns the cluster of the one into that of the other.\<close>

lemma find_split: "List.find P xs = Some x \<Longrightarrow> \<exists>ys zs. xs = ys @ x # zs \<and> P x \<and> (\<forall>y\<in>set ys. \<not> P y)"
proof (induction xs)
  case (Cons a xs)
  show ?case
  proof (cases "P a")
    case True
    with Cons.prems show ?thesis by (intro exI [of _ "[]"] exI [of _ xs]) simp
  next
    case False
    with Cons obtain ys zs where "xs = ys @ x # zs" "P x" "\<forall>y\<in>set ys. \<not> P y" by auto
    with False show ?thesis by (intro exI [of _ "a # ys"] exI [of _ zs]) simp
  qed
qed simp

lemma next_change_cluster:
  assumes "wf_history H" and "next_change H p = Some (v, ev)"
  shows "cluster_at H v = apply_change ev (cluster_at H p)" and "(v, ev) \<in> set H" and "p < v"
proof -
  obtain xs ys where H: "H = xs @ (v, ev) # ys" and xs: "\<forall>(u, e)\<in>set xs. u \<le> p" and v: "p < v"
    using find_split [OF assms(2) [unfolded next_change_def]] by fastforce
  have ys: "\<forall>(u, e)\<in>set ys. v < u" and xs': "\<forall>(u, e)\<in>set xs. u < v" using assms(1) by (auto simp: H wf_history_def sorted_wrt_append)
  have "filter (\<lambda>(u, e). u \<le> v) xs = xs" "filter (\<lambda>(u, e). u \<le> p) xs = xs" "filter (\<lambda>(u, e). u \<le> v) ys = []" "filter (\<lambda>(u, e). u \<le> p) ys = []"
    using xs ys xs' v by (fastforce simp: filter_id_conv filter_empty_conv)+
  then have "filter (\<lambda>(u, e). u \<le> v) H = xs @ [(v, ev)]" "filter (\<lambda>(u, e). u \<le> p) H = xs" using v by (simp_all add: H)
  then show "cluster_at H v = apply_change ev (cluster_at H p)" by (simp add: cluster_at_def)
  show "(v, ev) \<in> set H" "p < v" using H v by simp_all
qed


section \<open>The cache\<close>

lemma advance_cache [simp]: "inf_cache (advance_resource_version rv i) = inf_cache i" "inf_has_synced (advance_resource_version rv i) = inf_has_synced i"
  by (simp_all add: advance_resource_version_def split: option.splits)

lemma advance_version:
  assumes "v < 2 ^ 63"
  shows "inf_resource_version i = None \<Longrightarrow> inf_resource_version (advance_resource_version (Some (version_str v)) i) = Some (version_str v)"
    and "inf_resource_version i = Some (version_str u) \<Longrightarrow> u < 2 ^ 63 \<Longrightarrow>
      inf_resource_version (advance_resource_version (Some (version_str v)) i) = Some (version_str (max u v))"
  using assms by (auto simp: advance_resource_version_def version_str_nonempty version_str_int max_def)

lemma handle_event_simps:
  assumes "wf_event v ev"
  shows "map_of (inf_cache (handle_event ev i)) = apply_change ev (map_of (inf_cache i))"
    and "inf_resource_version (handle_event ev i) = inf_resource_version (advance_resource_version (Some (version_str v)) i)"
    and "inf_has_synced (handle_event ev i) = inf_has_synced i"
  using assms
  by (auto simp: handle_event_def wf_event_def event_object_def event_name_def apply_change_def update_conv' delete_conv'
      advance_resource_version_def Let_def split: option.splits)

lemma update_cache_simps:
  assumes "wf_event v ev"
  shows "map_of (inf_cache (update_cache (event_object ev) i)) = (map_of (inf_cache i))(event_name ev \<mapsto> event_object ev)"
    and "inf_resource_version (update_cache (event_object ev) i) = inf_resource_version (advance_resource_version (Some (version_str v)) i)"
    and "inf_has_synced (update_cache (event_object ev) i) = inf_has_synced i"
  using assms
  by (auto simp: update_cache_def wf_event_def event_name_def update_conv' advance_resource_version_def split: option.splits)

text \<open>Every object of the cluster is stored under its name.\<close>

lemma cluster_names:
  assumes "wf_history H" and "cluster_at H v n = Some x"
  shows "\<exists>u ev. (u, ev) \<in> set H \<and> event_object ev = x \<and> event_name ev = n \<and> co_name x = Some n \<and> n \<noteq> []"
proof -
  have "\<exists>c\<in>set G. event_object (snd c) = x \<and> event_name (snd c) = n" if "fold (\<lambda>(u, ev). apply_change ev) G Map.empty n = Some x" for G
    using that by (induction G rule: rev_induct) (auto simp: apply_change_def split: if_splits)
  from this [of "filter (\<lambda>(u, ev). u \<le> v) H"] assms(2) obtain u ev where "(u, ev) \<in> set H" "event_object ev = x" "event_name ev = n"
    by (force simp: cluster_at_def)
  moreover from this assms(1) have "wf_event u ev" by (auto simp: wf_history_def)
  ultimately show ?thesis by (intro exI [of _ u] exI [of _ ev]) (auto simp: wf_event_def event_name_def)
qed

lemma cache_of_items:
  assumes "distinct (map co_name items)" and "\<forall>x\<in>set items. \<not> no_name (co_name x)"
  shows "map_of (cache_of items) n = Some x \<longleftrightarrow> x \<in> set items \<and> co_name x = Some n"
  using assms
proof (induction items arbitrary: n x rule: rev_induct)
  case Nil
  then show ?case by (simp add: cache_of_def)
next
  case (snoc y items)
  have "cache_of (items @ [y]) = AList.update (the (co_name y)) y (cache_of items)" using snoc.prems(2) by (auto simp: cache_of_def)
  moreover have "co_name x \<noteq> co_name y" if "x \<in> set items" for x using that snoc.prems(1) by (metis distinct_append image_eqI list.set_intros(1) list.simps(9) disjoint_iff map_append set_map)
  ultimately show ?case using snoc by (auto simp: update_conv')
qed

lemma relist_cache:
  assumes "wf_history H" and "distinct (map co_name items)" and "set items = ran (cluster_at H v)"
  shows "map_of (cache_of items) = cluster_at H v"
proof
  fix n
  have names: "co_name x = Some m \<and> m \<noteq> []" if "cluster_at H v m = Some x" for m x using cluster_names [OF assms(1) that] by blast
  have "\<forall>x\<in>set items. \<not> no_name (co_name x)" using names unfolding assms(3) ran_def by fastforce
  note cache = cache_of_items [OF assms(2) this]
  have "map_of (cache_of items) n = Some x \<longleftrightarrow> cluster_at H v n = Some x" for x
    unfolding cache assms(3) ran_def using names by fastforce
  then show "map_of (cache_of items) n = cluster_at H v n" by (metis not_None_eq)
qed


section \<open>The cache follows the cluster\<close>

definition known :: "'b history \<Rightarrow> (string \<rightharpoonup> 'b CustomObject) \<Rightarrow> bool" where
  "known H m \<longleftrightarrow> (\<forall>n x. m n = Some x \<longrightarrow> (\<exists>u ev. (u, ev) \<in> set H \<and> event_object ev = x \<and> event_name ev = n))"

definition watch_sound :: "'b history \<Rightarrow> 'b WorkloadInformer \<Rightarrow> nat option \<Rightarrow> bool" where
  "watch_sound H i st \<longleftrightarrow>
     wf_history H \<and> known H (map_of (inf_cache i)) \<and> (inf_has_synced i \<longrightarrow> inf_resource_version i \<noteq> None) \<and>
     (\<forall>c. inf_resource_version i = Some c \<longrightarrow> (\<exists>v\<le>latest H. c = version_str v)) \<and>
     (\<forall>p. st = Some p \<longrightarrow> p \<le> latest H \<and> inf_resource_version i \<noteq> None)"

definition watch_exact :: "'b history \<Rightarrow> 'b WorkloadInformer \<Rightarrow> nat option \<Rightarrow> bool" where
  "watch_exact H i st \<longleftrightarrow>
     (\<forall>v\<le>latest H. inf_resource_version i = Some (version_str v) \<longrightarrow> map_of (inf_cache i) = cluster_at H v) \<and>
     (\<forall>p. st = Some p \<longrightarrow> inf_resource_version i = Some (version_str p))"

lemma watch_soundD:
  assumes "watch_sound H i st"
  shows "wf_history H" and "known H (map_of (inf_cache i))" and "inf_has_synced i \<Longrightarrow> inf_resource_version i \<noteq> None"
    and "inf_resource_version i = Some c \<Longrightarrow> \<exists>v\<le>latest H. c = version_str v" and "st = Some p \<Longrightarrow> p \<le> latest H"
    and "st = Some p \<Longrightarrow> inf_resource_version i \<noteq> None"
  using assms unfolding watch_sound_def by blast+

lemma known_cluster: "wf_history H \<Longrightarrow> known H (cluster_at H v)"
  unfolding known_def using cluster_names by blast

lemma known_update: "known H m \<Longrightarrow> (u, ev) \<in> set H \<Longrightarrow> known H (m(event_name ev \<mapsto> event_object ev))"
  unfolding known_def by auto

lemma known_delete: "known H m \<Longrightarrow> known H (m(n := None))"
  unfolding known_def by auto

lemma sound_change:
  assumes "watch_sound H i st" and "wf_event v ev" and "latest H < v"
  shows "watch_sound (H @ [(v, ev)]) i st"
proof -
  have snoc: "wf_history (H @ [(v, ev)])" "latest (H @ [(v, ev)]) = v" using wf_history_snoc [OF watch_soundD(1) [OF assms(1)] assms(2,3)] by simp_all
  have "known (H @ [(v, ev)]) (map_of (inf_cache i))" using watch_soundD(2) [OF assms(1)] unfolding known_def by fastforce
  moreover have "\<exists>u\<le>v. c = version_str u" if c: "inf_resource_version i = Some c" for c
  proof -
    obtain u where "u \<le> latest H" "c = version_str u" using watch_soundD(4) [OF assms(1) c] by blast
    with assms(3) show ?thesis by (intro exI [of _ u]) simp
  qed
  ultimately show ?thesis
    unfolding watch_sound_def snoc(2) using snoc(1) watch_soundD(3,5,6) [OF assms(1)] assms(3) by fastforce
qed

lemma exact_change:
  assumes "watch_sound H i st" and "watch_exact H i st" and "wf_event v ev" and "latest H < v"
  shows "watch_exact (H @ [(v, ev)]) i st"
proof -
  have H: "wf_history H" "wf_history (H @ [(v, ev)])" "latest (H @ [(v, ev)]) = v"
    using wf_history_snoc [OF watch_soundD(1) [OF assms(1)] assms(3,4)] watch_soundD(1) [OF assms(1)] by simp_all
  have "map_of (inf_cache i) = cluster_at (H @ [(v, ev)]) u" if u: "u \<le> v" "inf_resource_version i = Some (version_str u)" for u
  proof -
    obtain w where w: "w \<le> latest H" "version_str u = version_str w" using watch_soundD(4) [OF assms(1) u(2)] by blast
    have "w < 2 ^ 63" "u < 2 ^ 63" using w(1) latest_small [OF H(1)] u(1) assms(3) by (simp_all add: wf_event_def)
    then have "u = w" using version_str_inj w(2) by blast
    then show ?thesis using assms(2) u(2) w(1) cluster_at_snoc [OF assms(4) w(1)] by (simp add: watch_exact_def)
  qed
  then show ?thesis unfolding watch_exact_def H(3) using assms(2) by (simp add: watch_exact_def)
qed

lemma apply_list_version:
  assumes "watch_sound H i st"
  shows "inf_resource_version (apply_list (items, Some (version_str (latest H))) now i) = Some (version_str (latest H))"
proof -
  let ?i = "i\<lparr>inf_cache := cache_of items\<rparr>"
  note small = latest_small [OF watch_soundD(1) [OF assms]]
  show ?thesis
  proof (cases "inf_resource_version i")
    case None
    then show ?thesis using advance_version(1) [OF small, of ?i] by (simp add: apply_list_def)
  next
    case (Some c)
    then obtain v where v: "v \<le> latest H" "c = version_str v" using watch_soundD(4) [OF assms] by blast
    then show ?thesis using advance_version(2) [OF small, of ?i v] Some small by (simp add: apply_list_def max_def)
  qed
qed

lemma sound_relist:
  assumes "watch_sound H i st" and "distinct (map co_name items)" and "set items = ran (cluster_at H (latest H))"
  shows "watch_sound H (apply_list (items, Some (version_str (latest H))) now i) st"
    and "st = None \<Longrightarrow> watch_exact H (apply_list (items, Some (version_str (latest H))) now i) st"
proof -
  let ?i' = "apply_list (items, Some (version_str (latest H))) now i"
  note H = watch_soundD(1) [OF assms(1)]
  have cache: "map_of (inf_cache ?i') = cluster_at H (latest H)" using relist_cache [OF H assms(2,3)] by (simp add: apply_list_def)
  note rv = apply_list_version [OF assms(1), of items now]
  show "watch_sound H ?i' st"
    unfolding watch_sound_def using H cache rv known_cluster [OF H, of "latest H"] watch_soundD(5) [OF assms(1)] by auto
  have "v = latest H" if "v \<le> latest H" "version_str (latest H) = version_str v" for v
    using that version_str_inj latest_small [OF H] by (metis le_less_trans)
  then show "st = None \<Longrightarrow> watch_exact H ?i' st" unfolding watch_exact_def using cache rv by auto
qed

lemma advance_sound:
  assumes "watch_sound H i st" and "v \<le> latest H"
  shows "\<exists>u\<le>latest H. inf_resource_version (advance_resource_version (Some (version_str v)) i) = Some (version_str u)"
proof -
  note small = latest_small [OF watch_soundD(1) [OF assms(1)]]
  show ?thesis
  proof (cases "inf_resource_version i")
    case None
    then show ?thesis using advance_version(1) [of v i] assms(2) small by auto
  next
    case (Some c)
    then obtain w where w: "w \<le> latest H" "c = version_str w" using watch_soundD(4) [OF assms(1)] by blast
    have "inf_resource_version (advance_resource_version (Some (version_str v)) i) = Some (version_str (max w v))"
      using advance_version(2) [of v i w] Some w assms(2) small by simp
    moreover have "max w v \<le> latest H" using w(1) assms(2) by simp
    ultimately show ?thesis by blast
  qed
qed

text \<open>An object of the history enters the cache, or one leaves it, and the version advances.\<close>

lemma sound_cache:
  assumes "watch_sound H i st" and "v \<le> latest H" and "known H (map_of (inf_cache i'))" and "inf_has_synced i' = inf_has_synced i"
    and "inf_resource_version i' = inf_resource_version (advance_resource_version (Some (version_str v)) i)"
    and "\<And>p. st' = Some p \<Longrightarrow> p \<le> latest H"
  shows "watch_sound H i' st'"
proof -
  obtain u where "u \<le> latest H" "inf_resource_version i' = Some (version_str u)" using advance_sound [OF assms(1,2)] assms(5) by auto
  then show ?thesis unfolding watch_sound_def using watch_soundD(1) [OF assms(1)] assms(3,6) by auto
qed

lemma exact_deliver:
  assumes "watch_sound H i (Some p)" and "watch_exact H i (Some p)" and "next_change H p = Some (v, ev)"
  shows "watch_exact H (handle_event ev i) (Some v)"
proof -
  note H = watch_soundD(1) [OF assms(1)]
  note change = next_change_cluster [OF H assms(3)]
  have wf: "wf_event v ev" using change(2) H by (auto simp: wf_history_def)
  have p: "p \<le> latest H" "v \<le> latest H" using watch_soundD(5) [OF assms(1)] wf_history_latest [OF H change(2)] by simp_all
  have lt: "p < 2 ^ 63" "v < 2 ^ 63" using p latest_small [OF H] by simp_all
  have rv: "inf_resource_version i = Some (version_str p)" "map_of (inf_cache i) = cluster_at H p" using assms(2) p(1) by (simp_all add: watch_exact_def)
  have "inf_resource_version (handle_event ev i) = Some (version_str v)"
    using handle_event_simps(2) [OF wf] advance_version(2) [OF lt(2) rv(1) lt(1)] change(3) by (simp add: max_def)
  moreover have "map_of (inf_cache (handle_event ev i)) = cluster_at H v" using handle_event_simps(1) [OF wf] rv(2) change(1) by simp
  moreover have "u = v" if "u \<le> latest H" "version_str v = version_str u" for u
    using that version_str_inj [OF lt(2)] latest_small [OF H] by (metis le_less_trans)
  ultimately show ?thesis unfolding watch_exact_def by auto
qed


lemma watch_step_inv:
  assumes "watch_step writes W W'" and "watch_sound (w_history W) (w_informer W) (w_stream W)"
    and "\<not> writes \<Longrightarrow> watch_exact (w_history W) (w_informer W) (w_stream W)"
  shows "watch_sound (w_history W') (w_informer W') (w_stream W') \<and> (\<not> writes \<longrightarrow> watch_exact (w_history W') (w_informer W') (w_stream W'))"
  using assms
proof cases
  case (change v ev)
  with assms(2,3) show ?thesis using sound_change [OF assms(2) change(2,3)] exact_change [OF assms(2) _ change(2,3)] by simp
next
  case (relist items now)
  with sound_relist [OF assms(2) relist(3,4), of now] show ?thesis by simp
next
  case (connect p)
  obtain v where v: "v \<le> latest (w_history W)" "version_str p = version_str v" using watch_soundD(4) [OF assms(2) connect(4)] by blast
  have "p \<le> latest (w_history W)" using version_str_eq [OF v(2)] v(1) by simp
  with assms(2,3) connect show ?thesis by (auto simp: watch_sound_def watch_exact_def)
next
  case (deliver p v ev)
  note H = watch_soundD(1) [OF assms(2)]
  note change = next_change_cluster [OF H deliver(3)]
  have wf: "wf_event v ev" using change(2) H by (auto simp: wf_history_def)
  have v: "v \<le> latest (w_history W)" by (rule wf_history_latest [OF H change(2)])
  have "known (w_history W) (map_of (inf_cache (handle_event ev (w_informer W))))"
    using handle_event_simps(1) [OF wf] known_update [OF watch_soundD(2) [OF assms(2)] change(2)] known_delete [OF watch_soundD(2) [OF assms(2)]]
    by (simp add: apply_change_def)
  then have "watch_sound (w_history W) (handle_event ev (w_informer W)) (Some v)"
    by (rule sound_cache [OF assms(2) v _ handle_event_simps(3,2) [OF wf]]) (simp add: v)
  moreover have "watch_exact (w_history W) (handle_event ev (w_informer W)) (Some v)" if "\<not> writes"
    using exact_deliver deliver(2,3) assms(2) assms(3) [OF that] by metis
  ultimately show ?thesis using deliver(1) by simp
next
  case (respond v ev)
  note H = watch_soundD(1) [OF assms(2)]
  have wf: "wf_event v ev" using respond(3) H by (auto simp: wf_history_def)
  have "known (w_history W) (map_of (inf_cache (update_cache (event_object ev) (w_informer W))))"
    using update_cache_simps(1) [OF wf] known_update [OF watch_soundD(2) [OF assms(2)] respond(3)] by simp
  then have "watch_sound (w_history W) (update_cache (event_object ev) (w_informer W)) (w_stream W)"
    by (rule sound_cache [OF assms(2) wf_history_latest [OF H respond(3)] _ update_cache_simps(3,2) [OF wf]]) (rule watch_soundD(5) [OF assms(2)])
  with respond show ?thesis by simp
next
  case (forget n)
  have "known (w_history W) (map_of (inf_cache (delete_from_cache n (w_informer W))))"
    using known_delete [OF watch_soundD(2) [OF assms(2)]] by (simp add: delete_from_cache_def delete_conv')
  with forget assms(2) show ?thesis by (auto simp: watch_sound_def delete_from_cache_def)
qed (use assms(2,3) in \<open>auto simp: watch_sound_def watch_exact_def\<close>)

lemma watch_reachable_inv:
  "watch_reachable writes W \<Longrightarrow>
     watch_sound (w_history W) (w_informer W) (w_stream W) \<and> (\<not> writes \<longrightarrow> watch_exact (w_history W) (w_informer W) (w_stream W))"
proof (induction rule: watch_reachable.induct)
  case (start H resync timeout)
  then show ?case by (simp add: watch_sound_def watch_exact_def known_def WorkloadInformer_init_def)
next
  case (step W W')
  then show ?case using watch_step_inv by blast
qed

text \<open>
  Claim C13. The cache of the informer is a state that the cluster was in. In every run, with the API responses of
  other threads put into the cache, each cached object is a version that the cluster gave to the object of that name.
  When only the informer's own thread fills the cache, whatever lists, events, disconnections, errors and expired
  versions occur, a cache that counts as synced is exactly the cluster as of the informer's resource version; and it is
  the present cluster once the stream has delivered the latest change.
\<close>

theorem watched_cache_follows_the_cluster:
  assumes "watch_reachable writes W"
  shows "(\<forall>n x. informer_get n (w_informer W) = Some x \<longrightarrow>
      (\<exists>v ev. (v, ev) \<in> set (w_history W) \<and> event_object ev = x \<and> co_name x = Some n)) \<and>
    (\<not> writes \<and> inf_has_synced (w_informer W) \<longrightarrow>
      (\<exists>v\<le>latest (w_history W). inf_resource_version (w_informer W) = Some (version_str v) \<and>
         (\<lambda>n. informer_get n (w_informer W)) = cluster_at (w_history W) v)) \<and>
    (\<not> writes \<and> w_stream W = Some (latest (w_history W)) \<longrightarrow>
      (\<lambda>n. informer_get n (w_informer W)) = cluster_at (w_history W) (latest (w_history W)))"
proof -
  note inv = watch_reachable_inv [OF assms]
  have sound: "watch_sound (w_history W) (w_informer W) (w_stream W)" using inv by blast
  have get: "(\<lambda>n. informer_get n (w_informer W)) = map_of (inf_cache (w_informer W))" by (simp add: informer_get_def fun_eq_iff)
  have "\<exists>v ev. (v, ev) \<in> set (w_history W) \<and> event_object ev = x \<and> co_name x = Some n" if n: "informer_get n (w_informer W) = Some x" for n x
  proof -
    obtain v ev where ev: "(v, ev) \<in> set (w_history W)" "event_object ev = x" "event_name ev = n"
      using watch_soundD(2) [OF sound] n unfolding known_def informer_get_def by blast
    moreover have "wf_event v ev" using ev(1) watch_soundD(1) [OF sound] by (auto simp: wf_history_def)
    ultimately have "co_name x = Some n" by (auto simp: wf_event_def event_name_def)
    with ev show ?thesis by blast
  qed
  moreover have "\<exists>v\<le>latest (w_history W). inf_resource_version (w_informer W) = Some (version_str v) \<and>
      map_of (inf_cache (w_informer W)) = cluster_at (w_history W) v" if "\<not> writes \<and> inf_has_synced (w_informer W)"
    using watch_soundD(3,4) [OF sound] inv that unfolding watch_exact_def by (metis not_None_eq)
  moreover have "map_of (inf_cache (w_informer W)) = cluster_at (w_history W) (latest (w_history W))"
    if "\<not> writes \<and> w_stream W = Some (latest (w_history W))"
    using inv that unfolding watch_exact_def by blast
  ultimately show ?thesis unfolding get by blast
qed


section \<open>Runs\<close>

definition demo_object :: "string \<Rightarrow> nat \<Rightarrow> unit CustomObject" where
  "demo_object n v = \<lparr>co_name = Some n, co_resourceVersion = Some (version_str v), co_labels = None, co_body = ()\<rparr>"

definition demo_added :: "string \<Rightarrow> nat \<Rightarrow> unit WatchEvent" where
  "demo_added n v = \<lparr>ev_type = Some ''ADDED'', ev_object = Some (demo_object n v)\<rparr>"

lemma demo_added_wf: "n \<noteq> [] \<Longrightarrow> 0 < v \<Longrightarrow> v < 2 ^ 63 \<Longrightarrow> wf_event v (demo_added n v)"
  by (simp add: wf_event_def demo_added_def event_object_def demo_object_def)

text \<open>The informer lists the empty cluster and opens a stream.\<close>

definition demo_synced :: "unit WorkloadInformer" where
  "demo_synced = (WorkloadInformer_init 300 60 True)\<lparr>inf_resource_version := Some (version_str 0), inf_has_synced := True, inf_last_contact_at := Some 0\<rparr>"

lemma demo_connected: "watch_reachable writes \<lparr>w_history = [], w_informer = demo_synced, w_stream = Some 0\<rparr>"
proof -
  let ?W = "\<lparr>w_history = [], w_informer = WorkloadInformer_init 300 60 True, w_stream = None\<rparr> :: unit World"
  have start: "watch_reachable writes ?W" by (rule watch_reachable.start) (simp add: wf_history_def)
  have "watch_step writes ?W (?W\<lparr>w_informer := apply_list ([], Some (version_str (latest (w_history ?W)))) 0 (w_informer ?W)\<rparr>)"
    by (rule watch_step.relist) (simp_all add: cluster_at_def)
  moreover have "apply_list ([], Some (version_str (latest (w_history ?W)))) 0 (w_informer ?W) = demo_synced"
    by (simp add: apply_list_def cache_of_def demo_synced_def WorkloadInformer_init_def advance_resource_version_def version_str_nonempty latest_def)
  ultimately have "watch_step writes ?W (?W\<lparr>w_informer := demo_synced\<rparr>)" by simp
  from watch_reachable.step [OF start this] have synced: "watch_reachable writes (?W\<lparr>w_informer := demo_synced\<rparr>)" .
  have "watch_step writes (?W\<lparr>w_informer := demo_synced\<rparr>) (?W\<lparr>w_informer := demo_synced, w_stream := Some 0\<rparr>)"
    using watch_step.connect [of "?W\<lparr>w_informer := demo_synced\<rparr>" 0 writes] by (simp add: demo_synced_def)
  from watch_reachable.step [OF synced this] show ?thesis by simp
qed

text \<open>An object is added, and its event delivered.\<close>

lemma demo_delivered:
  "watch_reachable False \<lparr>w_history = [(1, demo_added ''a'' 1)], w_informer = handle_event (demo_added ''a'' 1) demo_synced, w_stream = Some 1\<rparr>"
proof -
  let ?W = "\<lparr>w_history = [], w_informer = demo_synced, w_stream = Some 0\<rparr> :: unit World" and ?H = "[(1, demo_added ''a'' 1)]"
  have "watch_step False ?W (?W\<lparr>w_history := ?H\<rparr>)"
    using watch_step.change [of 1 "demo_added ''a'' 1" ?W False] demo_added_wf [of "''a''" 1] by (simp add: latest_def)
  from watch_reachable.step [OF demo_connected this] have reach: "watch_reachable False (?W\<lparr>w_history := ?H\<rparr>)" by simp
  have "watch_step False (?W\<lparr>w_history := ?H\<rparr>) (?W\<lparr>w_history := ?H, w_informer := handle_event (demo_added ''a'' 1) demo_synced, w_stream := Some 1\<rparr>)"
    using watch_step.deliver [of "?W\<lparr>w_history := ?H\<rparr>" 0 1 "demo_added ''a'' 1" False] by (simp add: next_change_def)
  from watch_reachable.step [OF reach this] show ?thesis by simp
qed

theorem watched_cache_follows_the_cluster_witness:
  "informer_get ''a'' (handle_event (demo_added ''a'' 1) demo_synced) = Some (demo_object ''a'' 1)"
proof -
  let ?H = "[(1, demo_added ''a'' 1)]"
  from watched_cache_follows_the_cluster [OF demo_delivered]
  have "(\<lambda>n. informer_get n (handle_event (demo_added ''a'' 1) demo_synced)) = cluster_at ?H 1" by (simp add: latest_def)
  then have "informer_get ''a'' (handle_event (demo_added ''a'' 1) demo_synced) = cluster_at ?H 1 ''a''" by metis
  then show ?thesis by (simp add: cluster_at_def apply_change_def demo_added_def event_name_def event_object_def demo_object_def)
qed

text \<open>
  The resource version of an API response moves the point that the next stream starts from past changes that the present
  stream has not delivered: here the object \<open>a\<close> is added, then \<open>b\<close> by this server, whose response fills the cache; the
  stream is closed before it delivers anything, and its successor starts after both changes. The cache counts as
  synced, the stream is up to date, and \<open>a\<close> is missing until the next full list.
\<close>

lemma responses_skip_changes:
  "\<exists>W :: unit World. watch_reachable True W \<and> inf_has_synced (w_informer W) \<and> w_stream W = Some (latest (w_history W)) \<and>
     cluster_at (w_history W) (latest (w_history W)) ''a'' \<noteq> None \<and> informer_get ''a'' (w_informer W) = None"
proof -
  let ?i = "update_cache (demo_object ''b'' 2) demo_synced"
  let ?H1 = "[(1, demo_added ''a'' 1)]" and ?H = "[(1, demo_added ''a'' 1), (2, demo_added ''b'' 2)]"
  let ?W0 = "\<lparr>w_history = [], w_informer = demo_synced, w_stream = Some 0\<rparr> :: unit World"
  have "watch_step True ?W0 (?W0\<lparr>w_history := ?H1\<rparr>)"
    using watch_step.change [of 1 "demo_added ''a'' 1" ?W0 True] demo_added_wf [of "''a''" 1] by (simp add: latest_def)
  from watch_reachable.step [OF demo_connected this] have 1: "watch_reachable True (?W0\<lparr>w_history := ?H1\<rparr>)" .
  have "watch_step True (?W0\<lparr>w_history := ?H1\<rparr>) (?W0\<lparr>w_history := ?H\<rparr>)"
    using watch_step.change [of 2 "demo_added ''b'' 2" "?W0\<lparr>w_history := ?H1\<rparr>" True] demo_added_wf [of "''b''" 2] by (simp add: latest_def)
  from watch_reachable.step [OF 1 this] have 2: "watch_reachable True (?W0\<lparr>w_history := ?H\<rparr>)" .
  have b: "event_object (demo_added ''b'' 2) = demo_object ''b'' 2" by (simp add: demo_added_def event_object_def)
  have "watch_step True (?W0\<lparr>w_history := ?H\<rparr>) (?W0\<lparr>w_history := ?H, w_informer := ?i\<rparr>)"
    using watch_step.respond [of True 2 "demo_added ''b'' 2" "?W0\<lparr>w_history := ?H\<rparr>"] by (simp add: b) (simp add: demo_added_def)
  from watch_reachable.step [OF 2 this] have 3: "watch_reachable True (?W0\<lparr>w_history := ?H, w_informer := ?i\<rparr>)" .
  have rv: "inf_resource_version ?i = Some (version_str 2)" and synced: "inf_has_synced ?i" and cache: "inf_cache ?i = [(''b'', demo_object ''b'' 2)]"
    using version_str_int [of 0] version_str_int [of 2]
    by (simp_all add: update_cache_def demo_object_def demo_synced_def WorkloadInformer_init_def advance_resource_version_def version_str_nonempty)
  let ?j = "?i\<lparr>inf_has_synced := inf_has_synced ?i \<and> True, inf_last_contact_at := Some 1\<rparr>"
  have "watch_step True (?W0\<lparr>w_history := ?H, w_informer := ?i\<rparr>) (?W0\<lparr>w_history := ?H, w_stream := None, w_informer := ?j\<rparr>)"
    using watch_step.disconnect [where W = "?W0\<lparr>w_history := ?H, w_informer := ?i\<rparr>" and b = True and t = "Some 1" and writes = True] by simp
  from watch_reachable.step [OF 3 this] have 4: "watch_reachable True (?W0\<lparr>w_history := ?H, w_stream := None, w_informer := ?j\<rparr>)" .
  have "watch_step True (?W0\<lparr>w_history := ?H, w_stream := None, w_informer := ?j\<rparr>) (?W0\<lparr>w_history := ?H, w_stream := Some 2, w_informer := ?j\<rparr>)"
    using watch_step.connect [of "?W0\<lparr>w_history := ?H, w_stream := None, w_informer := ?j\<rparr>" 2 True] rv synced by simp
  from watch_reachable.step [OF 4 this] have 5: "watch_reachable True (?W0\<lparr>w_history := ?H, w_stream := Some 2, w_informer := ?j\<rparr>)" .
  have "latest ?H = 2" by (simp add: latest_def)
  moreover have "cluster_at ?H 2 ''a'' \<noteq> None"
    by (simp add: cluster_at_def apply_change_def demo_added_def event_name_def event_object_def demo_object_def)
  moreover have "informer_get ''a'' ?j = None" using cache by (simp add: informer_get_def)
  ultimately show ?thesis using 5 synced by (intro exI [of _ "?W0\<lparr>w_history := ?H, w_stream := Some 2, w_informer := ?j\<rparr>"]) simp
qed

end
