(* ===== verification/Spec2Isabelle.thy ===== *)
theory Spec2Isabelle
  imports Pool_Acquire Pool_Manager Retry_Transport Endpoint_Cache Server_Validation Redis_Idle Snapshot_Runs Route_Signing
    Rate_Limiter K8s_Watch
begin

text \<open>
  \<^bold>\<open>OpenSandbox: verification of the Python SDK's sandbox pool and transport, and of services of the lifecycle server.\<close>

  OpenSandbox runs code in sandboxes. A server creates and manages them on Docker or Kubernetes
  (\<open>server/opensandbox_server\<close>), and applications use them through an SDK
  (\<open>sdks/sandbox/python/src/opensandbox\<close>). This development models the parts of both in Python whose correctness is
  more than the forwarding of a call. File names below are relative to these two directories.

  \<^bold>\<open>Conventions.\<close> Code that raises is a function into \<open>exn + 'a\<close>, or into the monad \<open>('s, 'a) M\<close> when it has state; an
  exception keeps the state that was reached. What the code is given (clocks, HTTP transports, Redis, the Docker client,
  the cluster, callbacks) are parameters that may do anything, unless a theorem states what it relies on. Python
  integers are \<open>int\<close>, dictionaries are association lists in insertion order, strings are lists of 8-bit characters, and
  floats are rationals that every operation rounds (\<open>fl\<close>). A loop that need not end has fuel and answers \<open>None\<close> when it
  is used up; the theorems about termination say how much fuel is enough.

  \<^bold>\<open>Foundations.\<close>
  \<^item> \<open>OSB_Prelude\<close>: time, exceptions, the monad, dictionaries. \<open>Prog_Logic\<close>: weakest preconditions, objects as references
    into a state, ghost traces.
  \<^item> \<open>Py_Float\<close>: rounding to doubles, with error bounds and monotonicity. \<open>Py_Text\<close>: operations on strings, decimal text.
    \<open>Py_Bytes\<close>: UTF-8, big-endian numbers, hexadecimal text. \<open>Py_Sha256\<close>: SHA-256, its constants computed from the roots
    of primes that define them.

  \<^bold>\<open>The sandbox pool of the SDK.\<close> A pool keeps ready sandboxes in a store; a reconciler replenishes and shrinks it, and
  applications acquire from it.
  \<^item> \<open>Pool_Types\<close> (\<open>pool_types.py\<close>, \<open>exceptions/sandbox.py\<close>): configuration and its validation, acquire policies.
  \<^item> \<open>Idle_Spec\<close>: the abstract FIFO of idle sandboxes and the contract \<open>idle_store\<close> that clients of a store rely on.
  \<^item> \<open>Pool_Store\<close> (\<open>_pool_store.py\<close>): the store in memory implements the FIFO, its counters agree with its entries in every
    reachable state, and a take accounts for every live sandbox that it removes.
  \<^item> \<open>Pool_Reconciler\<close> (\<open>_pool_reconciler.py\<close>): a tick acts under the primary lock only, creates at most what is missing,
    discards what it cannot store, and backs off exponentially after failures.
  \<^item> \<open>Sandbox_Pool\<close>, \<open>Pool_Acquire\<close> (\<open>sync/pool.py\<close>): \<open>acquire\<close> returns, kills or leaves to the executor every sandbox that
    it takes out of the buffer, within its bounds on attempts, during outages and in destroyed namespaces.
  \<^item> \<open>Pool_Manager\<close> (\<open>pool_manager.py\<close>): \<open>destroy\<close> fences the namespace, drains it and leaves a tombstone; one round more
    than there are idle sandboxes is enough fuel.
  \<^item> \<open>Redis_Service\<close>, \<open>Redis_Store\<close>, \<open>Redis_Laws\<close>, \<open>Redis_Lock\<close>, \<open>Redis_Fence\<close>, \<open>Redis_Idle\<close> (\<open>redis_pool_store.py\<close>): the
    distributed store with its Lua scripts over any service that refines the documented commands (locale
    \<open>redis_service\<close>). The keys of namespaces are disjoint, the lock excludes, the fence holds under any interleaving of
    requests with lost messages, takes are those of the FIFO, and errors are of the documented classes.

  \<^bold>\<open>The transport of the SDK.\<close>
  \<^item> \<open>Retry_Policy\<close>, \<open>Retry_Transport\<close> (\<open>transport/\<close>): the decisions, the back-off and both transports. Retries obey the
    policy, the deadline and the rules for methods and bodies; the asynchronous transport equals the synchronous
    one when no timeout or deadline is set. \<open>max_retries + 1\<close> rounds are enough fuel.
  \<^item> \<open>Endpoint_Cache\<close> (\<open>adapters/endpoint_cache.py\<close>): callers as threads of a step relation, with one fetch for all
    callers of a key, no value cached that was fetched before an invalidation, and eviction of the least recently used.

  \<^bold>\<open>The lifecycle server.\<close>
  \<^item> \<open>Server_Validation\<close> (\<open>services/validators.py\<close>, \<open>extensions/\<close>): requests are accepted exactly when they are well
    formed, host paths stay below the allowed prefixes, and extensions survive the annotations.
  \<^item> \<open>Snapshot_Rows\<close>, \<open>Snapshot_Repo\<close> (\<open>services/snapshot_models.py\<close>, \<open>repositories/snapshots/sqlite.py\<close>): the rows of
    the database and the statements on them; decoding a row gives back the record.
  \<^item> \<open>Snapshot_Service\<close> (\<open>services/snapshot_service.py\<close>, \<open>services/snapshot_restore.py\<close>): requests, workers and recovery as
    programs over calls. \<open>Snapshot_Safety\<close>: under any interleaving, and with any call failing, snapshots follow their life
    cycle and a finished worker has settled its snapshot. \<open>Snapshot_Tenants\<close>: a tenant sees and changes its own rows only.
    \<open>Snapshot_Recovery\<close>: the recovery ends after at most one round more than there are unfinished snapshots.
  \<^item> \<open>Snapshot_Runtimes\<close> (\<open>services/snapshot_runtime.py\<close>, \<open>services/docker/snapshot_runtime.py\<close>,
    \<open>services/k8s/snapshot_runtime.py\<close>, \<open>services/snapshot_runtime_factory.py\<close>): the runtimes composed with the worker, which
    ends on each of them. Some fuel is enough for the polling loop because the sleeps move the clock past any deadline.
    \<open>Snapshot_Runs\<close>: concrete runs.
  \<^item> \<open>Route_Signing\<close> (\<open>services/signing.py\<close>, parts of \<open>config.py\<close>, \<open>services/helpers.py\<close> and
    \<open>services/k8s/kubernetes_service.py\<close>): the expiry codec is a bijection, and a signed route determines what it grants.
    That SHA-256 is hard to forge is not, and cannot be, a theorem here: the statement is about the bytes that are hashed.
  \<^item> \<open>Rate_Limiter\<close> (\<open>services/k8s/rate_limiter.py\<close>): the bound on granted tokens with rounding, and that \<open>acquire\<close>
    returns, with three rounds of fuel.
  \<^item> \<open>K8s_Informer\<close>, \<open>K8s_Watch\<close> (\<open>services/k8s/label_selector.py\<close>, \<open>services/k8s/informer.py\<close>, \<open>services/k8s/client.py\<close>):
    selectors, the cache kept by watching, and the client that reads through it. The cache is the cluster as of its
    resource version as long as only the watch fills it; \<open>responses_skip_changes\<close> shows that responses of the API, which
    other threads put into the cache, can make the watch skip changes.

  \<^bold>\<open>Not modelled.\<close>
  \<^item> The asynchronous pool, reconciler and stores, which repeat the synchronous ones between awaits: their interleavings at
    the await points need a semantics of tasks, which is here for the endpoint cache and the transport only.
  \<^item> The sandbox services on Docker and Kubernetes, whose state is in the daemon or the cluster, with the builders of
    manifests, volumes and networks; the routes, the proxy, tenants and the renewal of sandboxes on access.
  \<^item> SDK facades, adapters and converters, the command line client, the MCP server and the code interpreter, which forward
    calls; generated clients; telemetry; examples and benchmarks.
  \<^item> The components in Go (daemon, ingress, egress, operator) and the SDKs in other languages.
  \<^item> Inside the modelled parts: logging; message texts of rejected requests; non-ASCII strings; overflow and subnormal
    numbers of floats; threads inside one method of the pool, which appear as effects of its parameters on the state.
\<close>

end
